(* ===== verification/GoBase.thy ===== *)
theory GoBase
  imports Main "HOL-Library.Word" "HOL-Library.DAList"
begin

text \<open>
  The part of Go the program rests on: machine integers, error values, maps, nil slices,
  and the formatting of numbers, with the lemmas on them that the components share.
\<close>

subsection \<open>Integers\<close>

type_synonym u64 = "64 word"
type_synonym u32 = "32 word"
type_synonym i64 = "64 word" \<comment> \<open>read with sint\<close>

text \<open>\<open>int64(x)\<close> of an unsigned word.\<close>

lemma sint_u64: "sint h = (if unat h < 2 ^ 63 then int (unat h) else int (unat h) - 2 ^ 64)" for h :: "64 word"
proof -
  have lt: "uint h < 2 ^ 64" using uint_lt2p [of h] by simp
  have "bit (uint h) 63 \<longleftrightarrow> \<not> uint h < 2 ^ 63"
  proof (cases "uint h < 2 ^ 63")
    case True
    then show ?thesis by (simp add: bit_iff_odd)
  next
    case False
    then have "uint h div 2 ^ 63 = 1" using lt by (intro int_div_pos_eq [where r = "uint h - 2 ^ 63"]) auto
    with False show ?thesis by (simp add: bit_iff_odd)
  qed
  moreover have "unat h < 2 ^ 63 \<longleftrightarrow> uint h < 2 ^ 63"
    by (simp add: uint_nat del: of_nat_unat) 
  ultimately show ?thesis
    using lt by (simp add: sint_uint signed_take_bit_eq_take_bit_minus uint_nat [symmetric] take_bit_int_eq_self)
qed

subsection \<open>Errors\<close>

text \<open>
  A Go error is a value. \<open>EText\<close> is \<open>errors.New\<close>, \<open>fmt.Errorf\<close> without a
  cause, or an error of an external client; \<open>ESentinel\<close> is a package-level error variable
  that \<open>errors.Is\<close> compares with; \<open>EWrap\<close> is \<open>errors.Wrap\<close>,
  \<open>errors.Wrapf\<close> and \<open>fmt.Errorf("...: %w", err)\<close>, which all print the message, a
  colon and the cause.
\<close>

datatype err = EText string | ESentinel string | EWrap string err

type_synonym 'a res = "err + 'a"

fun err_is :: "err \<Rightarrow> err \<Rightarrow> bool" where
  "err_is (EWrap m e) t = (EWrap m e = t \<or> err_is e t)"
| "err_is e t = (e = t)"

fun err_string :: "err \<Rightarrow> string" where
  "err_string (EText m) = m"
| "err_string (ESentinel m) = m"
| "err_string (EWrap m e) = m @ '': '' @ err_string e"

text \<open>Returning an error of a callee wrapped, and its value as it is.\<close>

fun wrap_res :: "string \<Rightarrow> 'a res \<Rightarrow> 'a res" where
  "wrap_res m (Inl e) = Inl (EWrap m e)"
| "wrap_res m (Inr v) = Inr v"

text \<open>Sequencing of pure results, used by the reference specifications.\<close>

definition rbind :: "'a res \<Rightarrow> ('a \<Rightarrow> 'b res) \<Rightarrow> 'b res" where
  "rbind r f = (case r of Inl e \<Rightarrow> Inl e | Inr v \<Rightarrow> f v)"

lemma rbind_simps [simp]: "rbind (Inl e) f = Inl e" "rbind (Inr v) f = f v"
  by (simp_all add: rbind_def)

lemma rbind_Inr_iff: "rbind r f = Inr v \<longleftrightarrow> (\<exists>u. r = Inr u \<and> f u = Inr v)"
  by (cases r) auto

definition is_ok :: "'a res \<Rightarrow> bool" where
  "is_ok r = (case r of Inl _ \<Rightarrow> False | Inr _ \<Rightarrow> True)"

lemma is_ok_simps [simp]: "is_ok (Inl e) = False" "is_ok (Inr v) = True"
  by (simp_all add: is_ok_def)

lemma is_ok_iff: "is_ok r \<longleftrightarrow> (\<exists>v. r = Inr v)"
  by (cases r) auto

lemma wrap_res_Inr [simp]: "wrap_res m r = Inr v \<longleftrightarrow> r = Inr v"
  by (cases r) auto

text \<open>How a Go function ends: it returns, it panics, or it ends the process.\<close>

datatype 'a outcome = Returned 'a | Panicked string | Exited string

subsection \<open>Decimal numbers\<close>

definition digit_char :: "nat \<Rightarrow> char" where
  "digit_char d = char_of (48 + d)"

fun show_nat :: "nat \<Rightarrow> string" where
  "show_nat n = (if n < 10 then [digit_char n] else show_nat (n div 10) @ [digit_char (n mod 10)])"

declare show_nat.simps [simp del]

definition show_u64 :: "u64 \<Rightarrow> string" where
  "show_u64 n = show_nat (unat n)"

text \<open>\<open>strconv.Itoa\<close> of a signed 64-bit integer.\<close>

definition show_int :: "int \<Rightarrow> string" where
  "show_int i = (if i < 0 then CHR ''-'' # show_nat (nat (- i)) else show_nat (nat i))"

subsection \<open>Maps\<close>

text \<open>
  A Go map is a finite association with distinct keys. \<open>range\<close> visits the entries in an
  order the language leaves open; the model keeps one order, and the results that depend on a
  \<open>range\<close> are shown not to depend on it.
\<close>

type_synonym ('k, 'v) gomap = "('k, 'v) alist"

definition gm_get :: "('k, 'v) gomap \<Rightarrow> 'k \<Rightarrow> 'v option" where
  "gm_get m k = DAList.lookup m k"

definition gm_put :: "('k, 'v) gomap \<Rightarrow> 'k \<Rightarrow> 'v \<Rightarrow> ('k, 'v) gomap" where
  "gm_put m k v = DAList.update k v m"

definition gm_empty :: "('k, 'v) gomap" where
  "gm_empty = DAList.empty"

definition gm_len :: "('k, 'v) gomap \<Rightarrow> nat" where
  "gm_len m = length (DAList.impl_of m)"

definition gm_entries :: "('k, 'v) gomap \<Rightarrow> ('k \<times> 'v) list" where
  "gm_entries m = DAList.impl_of m"

lemma gm_get_empty [simp]: "gm_get gm_empty k = None"
  by (simp add: gm_get_def gm_empty_def)

lemma gm_get_put [simp]: "gm_get (gm_put m k v) k' = (if k' = k then Some v else gm_get m k')"
  by (simp add: gm_get_def gm_put_def lookup_update)

lemma gm_len_empty [simp]: "gm_len gm_empty = 0"
  by (simp add: gm_len_def gm_empty_def empty.rep_eq)

lemma gm_entries_empty [simp]: "gm_entries gm_empty = []"
  by (simp add: gm_entries_def gm_empty_def empty.rep_eq)

lemma gm_entries_put: "gm_entries (gm_put m k v) = AList.update k v (gm_entries m)"
  by (simp add: gm_entries_def gm_put_def update.rep_eq)

lemma gm_len_entries: "gm_len m = length (gm_entries m)"
  by (simp add: gm_len_def gm_entries_def)

lemma distinct_gm_entries [simp]: "distinct (map fst (gm_entries m))"
  by (simp add: gm_entries_def)

lemma gm_get_entries: "gm_get m k = map_of (gm_entries m) k"
  by (simp add: gm_get_def gm_entries_def lookup.rep_eq)

lemma gm_get_Some_iff: "gm_get m k = Some v \<longleftrightarrow> (k, v) \<in> set (gm_entries m)"
  by (simp add: gm_get_entries)

lemma length_update_le: "length (AList.update k v xs) \<le> Suc (length xs)"
  by (induction xs) auto

lemma gm_len_put: "gm_len (gm_put m k v) \<le> Suc (gm_len m)"
  by (simp add: gm_len_entries gm_entries_put length_update_le)

subsection \<open>Strings\<close>

text \<open>\<open>strings.TrimPrefix\<close>: the string without the prefix, or the string itself.\<close>

definition trim_prefix :: "string \<Rightarrow> string \<Rightarrow> string" where
  "trim_prefix s p = (if take (length p) s = p then drop (length p) s else s)"

lemma trim_prefix_append [simp]: "trim_prefix (p @ s) p = s"
  by (simp add: trim_prefix_def)

text \<open>\<open>strings.Join(xs, sep)\<close>.\<close>

fun join :: "string list \<Rightarrow> string \<Rightarrow> string" where
  "join [] sep = []"
| "join [x] sep = x"
| "join (x # xs) sep = x @ sep @ join xs sep"

text \<open>\<open>strings.Contains(s, t)\<close>.\<close>

fun contains_sub :: "string \<Rightarrow> string \<Rightarrow> bool" where
  "contains_sub [] t = (t = [])"
| "contains_sub (c # s) t = (take (length t) (c # s) = t \<or> contains_sub s t)"

end
