(* ===== verification/FpApp.thy ===== *)
theory FpApp
  imports GoBase
begin

text \<open>
  \<open>FinalityProviderApp\<close> (operator/fp/app.go): how the operator starts the finality provider daemon,
  its RPC server and one provider instance, waits, and stops. The daemon, the EOTS manager and the store
  are not in the repository and are parameters. The state is a machine of phases; \<open>effects\<close> is a
  ghost list of what has been started and stopped, which no operation reads.
\<close>

subsection \<open>State and parameters\<close>

datatype effect = DaemonStarted | RpcSpawned | InstanceStarted string | DaemonStopped | EotsClosed

text \<open>\<open>DaemonUp\<close> and \<open>RpcUp\<close> are the points of \<open>Start\<close> after the daemon and after the RPC goroutine.\<close>

datatype app_phase = Fresh | DaemonUp | RpcUp | Running | Waiting | Finished "unit res"

record 'w app_calls =
  acStart :: "'w \<Rightarrow> unit res \<times> 'w"
  acParsePk :: "string \<Rightarrow> string res"
  acStartFinalityProvider :: "string \<Rightarrow> 'w \<Rightarrow> unit res \<times> 'w"
  acStoredFps :: "'w \<Rightarrow> string list res \<times> 'w"
  acMarshalHex :: "string \<Rightarrow> string"
  acStop :: "'w \<Rightarrow> unit res \<times> 'w"
  acCloseEots :: "'w \<Rightarrow> unit res \<times> 'w"

record 'w fp_app =
  app_world :: 'w
  phase :: app_phase
  has_rpc :: bool
  jsonRpcServerIpPortAddr :: string
  wg :: nat
  cancelled :: bool
  stop_once :: bool
  quit_closed :: bool
  effects :: "effect list"

definition newApp :: "'w \<Rightarrow> bool \<Rightarrow> string \<Rightarrow> 'w fp_app" where
  "newApp w rpc addr = \<lparr>app_world = w, phase = Fresh, has_rpc = rpc, jsonRpcServerIpPortAddr = addr, wg = 0,
     cancelled = False, stop_once = False, quit_closed = False, effects = []\<rparr>"

definition mark :: "effect \<Rightarrow> 'w fp_app \<Rightarrow> 'w fp_app" where
  "mark e s = s\<lparr>effects := effects s @ [e]\<rparr>"

subsection \<open>Start\<close>

definition fail :: "err \<Rightarrow> 'w fp_app \<Rightarrow> 'w fp_app" where
  "fail e s = s\<lparr>phase := Finished (Inl e)\<rparr>"

definition start_rpc :: "'w fp_app \<Rightarrow> 'w fp_app" where
  "start_rpc s = (if jsonRpcServerIpPortAddr s \<noteq> [] \<and> has_rpc s then mark RpcSpawned (s\<lparr>wg := Suc (wg s)\<rparr>) else s)"

text \<open>One instance: its error is wrapped, its start noted, and then the loop of \<open>Start\<close> runs.\<close>

definition start_instance :: "'w app_calls \<Rightarrow> string \<Rightarrow> string \<Rightarrow> 'w fp_app \<Rightarrow> 'w fp_app" where
  "start_instance A pk message s = (case acStartFinalityProvider A pk (app_world s) of
      (Inl e, w) \<Rightarrow> fail (EWrap message e) (s\<lparr>app_world := w\<rparr>)
    | (Inr _, w) \<Rightarrow> (mark (InstanceStarted pk) (s\<lparr>app_world := w\<rparr>))\<lparr>phase := Running\<rparr>)"

definition start_by_key :: "'w app_calls \<Rightarrow> string \<Rightarrow> 'w fp_app \<Rightarrow> 'w fp_app" where
  "start_by_key A fpPkStr s = (case acParsePk A fpPkStr of
      Inl e \<Rightarrow> fail (EWrap (''invalid finality provider public key '' @ fpPkStr) e) s
    | Inr fpPk \<Rightarrow> start_instance A fpPk (''failed to start by fpPkStr '' @ fpPkStr) s)"

definition start_by_store :: "'w app_calls \<Rightarrow> 'w fp_app \<Rightarrow> 'w fp_app" where
  "start_by_store A s = (case acStoredFps A (app_world s) of
      (Inl e, w) \<Rightarrow> fail e (s\<lparr>app_world := w\<rparr>)
    | (Inr storedFps, w) \<Rightarrow>
        (let s1 = s\<lparr>app_world := w\<rparr> in
         if length storedFps = 1 then
           start_instance A (hd storedFps) (''failed to start by storedFps '' @ acMarshalHex A (hd storedFps)) s1
         else if length storedFps > 1 then
           fail (EText (show_nat (length storedFps) @
             '' finality providers found in DB. Please specify the EOTS public key'')) s1
         else s1\<lparr>phase := Running\<rparr>))"

text \<open>
  The sections of \<open>Start\<close> up to its loop: the daemon, the RPC goroutine, the instance. The goroutine runs
  beside the last one. \<open>Start_app\<close> is their sequence.
\<close>

definition start_daemon :: "'w app_calls \<Rightarrow> 'w fp_app \<Rightarrow> 'w fp_app" where
  "start_daemon A s = (case acStart A (app_world s) of
      (Inl e, w) \<Rightarrow> fail (EWrap ''failed to start the finality provider app'' e) (s\<lparr>app_world := w\<rparr>)
    | (Inr _, w) \<Rightarrow> (mark DaemonStarted (s\<lparr>app_world := w\<rparr>))\<lparr>phase := DaemonUp\<rparr>)"

definition spawn_rpc :: "'w fp_app \<Rightarrow> 'w fp_app" where
  "spawn_rpc s = (start_rpc s)\<lparr>phase := RpcUp\<rparr>"

definition start_fp :: "'w app_calls \<Rightarrow> string \<Rightarrow> 'w fp_app \<Rightarrow> 'w fp_app" where
  "start_fp A fpPkStr s = (if fpPkStr \<noteq> [] then start_by_key A fpPkStr s else start_by_store A s)"

definition Start_app :: "'w app_calls \<Rightarrow> string \<Rightarrow> 'w fp_app \<Rightarrow> 'w fp_app" where
  "Start_app A fpPkStr s = (let s1 = start_daemon A s in case phase s1 of
      Finished r \<Rightarrow> s1
    | _ \<Rightarrow> start_fp A fpPkStr (spawn_rpc s1))"

subsection \<open>Stop\<close>

text \<open>
  \<open>stopImpl\<close> in two sections: it closes the quit channel and waits for the RPC goroutine, then stops
  the daemon and, if that succeeds, closes the EOTS manager. The once makes a second call return nil.
\<close>

definition stop_begin :: "'w fp_app \<Rightarrow> 'w fp_app" where
  "stop_begin s = (if stop_once s then s\<lparr>phase := Finished (Inr ())\<rparr>
     else s\<lparr>stop_once := True, quit_closed := True, phase := Waiting\<rparr>)"

definition stop_end :: "'w app_calls \<Rightarrow> 'w fp_app \<Rightarrow> 'w fp_app" where
  "stop_end A s = (case acStop A (app_world s) of
      (Inl e, w) \<Rightarrow> fail (EWrap ''stop failed'' e) (mark DaemonStopped (s\<lparr>app_world := w\<rparr>))
    | (Inr _, w) \<Rightarrow> (case acCloseEots A w of
          (Inl e, w1) \<Rightarrow> fail (EWrap ''stop failed'' e) (mark EotsClosed (mark DaemonStopped (s\<lparr>app_world := w1\<rparr>)))
        | (Inr _, w1) \<Rightarrow> (mark EotsClosed (mark DaemonStopped (s\<lparr>app_world := w1\<rparr>)))\<lparr>phase := Finished (Inr ())\<rparr>))"

text \<open>\<open>Wait\<close> returns when the RPC goroutine has.\<close>

definition Wait_app :: "'w fp_app \<Rightarrow> bool" where
  "Wait_app s = (wg s = 0)"

text \<open>
  The steps of a run: the sections of \<open>Start\<close> in their order, the context is cancelled at any time, the RPC
  goroutine returns after that, and the loop of \<open>Start\<close> sees the cancellation.
\<close>

inductive app_step :: "'w app_calls \<Rightarrow> string \<Rightarrow> 'w fp_app \<Rightarrow> 'w fp_app \<Rightarrow> bool" for A key where
  app_daemon: "phase s = Fresh \<Longrightarrow> app_step A key s (start_daemon A s)"
| app_spawn: "phase s = DaemonUp \<Longrightarrow> app_step A key s (spawn_rpc s)"
| app_instance: "phase s = RpcUp \<Longrightarrow> app_step A key s (start_fp A key s)"
| app_cancel: "app_step A key s (s\<lparr>cancelled := True\<rparr>)"
| app_rpc_returns: "cancelled s \<Longrightarrow> wg s = Suc n \<Longrightarrow> app_step A key s (s\<lparr>wg := n\<rparr>)"
| app_done: "phase s = Running \<Longrightarrow> cancelled s \<Longrightarrow> app_step A key s (stop_begin s)"
| app_stop: "phase s = Waiting \<Longrightarrow> wg s = 0 \<Longrightarrow> app_step A key s (stop_end A s)"

inductive app_reach :: "'w app_calls \<Rightarrow> string \<Rightarrow> 'w fp_app \<Rightarrow> 'w fp_app \<Rightarrow> bool" for A key s where
  app_refl: "app_reach A key s s"
| app_trans: "app_reach A key s t \<Longrightarrow> app_step A key t u \<Longrightarrow> app_reach A key s u"

subsection \<open>The invariant\<close>

text \<open>What has happened when the machine is in each phase.\<close>

definition started_effects :: "effect list \<Rightarrow> bool" where
  "started_effects es = (es = [DaemonStarted] \<or> es = [DaemonStarted, RpcSpawned] \<or>
     (\<exists>pk. es = [DaemonStarted, InstanceStarted pk] \<or> es = [DaemonStarted, RpcSpawned, InstanceStarted pk]))"

definition app_inv :: "'w fp_app \<Rightarrow> bool" where
  "app_inv s = (case phase s of
      Fresh \<Rightarrow> effects s = [] \<and> wg s = 0 \<and> \<not> stop_once s
    | DaemonUp \<Rightarrow> effects s = [DaemonStarted] \<and> wg s = 0 \<and> \<not> stop_once s
    | RpcUp \<Rightarrow> (effects s = [DaemonStarted] \<or> effects s = [DaemonStarted, RpcSpawned]) \<and> \<not> stop_once s
    | Running \<Rightarrow> started_effects (effects s) \<and> \<not> stop_once s
    | Waiting \<Rightarrow> started_effects (effects s) \<and> stop_once s \<and> cancelled s
    | Finished r \<Rightarrow>
        if stop_once s then wg s = 0 \<and> cancelled s \<and> (\<exists>es. started_effects es \<and>
          (effects s = es @ [DaemonStopped, EotsClosed] \<or> (effects s = es @ [DaemonStopped] \<and> \<not> is_ok r)))
        else \<not> is_ok r \<and> (effects s = [] \<or> started_effects (effects s)))"

lemma started_basic: "started_effects [DaemonStarted]" "started_effects [DaemonStarted, RpcSpawned]"
    "started_effects [DaemonStarted, InstanceStarted pk]" "started_effects [DaemonStarted, RpcSpawned, InstanceStarted pk]"
  by (auto simp: started_effects_def)

lemma app_inv_start_instance:
  assumes "effects s = [DaemonStarted] \<or> effects s = [DaemonStarted, RpcSpawned]" "\<not> stop_once s"
  shows "app_inv (start_instance A pk m s)"
  using assms started_basic
  by (auto simp: app_inv_def start_instance_def fail_def mark_def split: prod.splits sum.splits)

lemma app_inv_fail:
  assumes "effects s = [DaemonStarted] \<or> effects s = [DaemonStarted, RpcSpawned]" "\<not> stop_once s"
  shows "app_inv (fail e s)"
  using assms started_basic by (auto simp: app_inv_def fail_def)

lemma app_inv_daemon:
  assumes "phase s = Fresh" "app_inv s"
  shows "app_inv (start_daemon A s)"
proof -
  have "effects s = []" "\<not> stop_once s" "wg s = 0" using assms by (auto simp: app_inv_def)
  then show ?thesis by (auto simp: start_daemon_def app_inv_def fail_def mark_def split: prod.splits sum.splits)
qed

lemma app_inv_spawn: "phase s = DaemonUp \<Longrightarrow> app_inv s \<Longrightarrow> app_inv (spawn_rpc s)"
  by (auto simp: app_inv_def spawn_rpc_def start_rpc_def mark_def)

lemma app_inv_fp:
  assumes "phase s = RpcUp" "app_inv s"
  shows "app_inv (start_fp A key s)"
proof -
  have go: "effects s = [DaemonStarted] \<or> effects s = [DaemonStarted, RpcSpawned]" "\<not> stop_once s"
    using assms by (auto simp: app_inv_def)
  have key: "app_inv (start_by_key A key s)"
    using go by (auto simp: start_by_key_def app_inv_start_instance app_inv_fail split: sum.splits)
  have store: "app_inv (start_by_store A s)"
  proof -
    obtain q v where q: "acStoredFps A (app_world s) = (q, v)" by fastforce
    have go2: "effects (s\<lparr>app_world := v\<rparr>) = [DaemonStarted] \<or> effects (s\<lparr>app_world := v\<rparr>) = [DaemonStarted, RpcSpawned]"
      "\<not> stop_once (s\<lparr>app_world := v\<rparr>)" using go by simp_all
    have "app_inv (s\<lparr>app_world := v, phase := Running\<rparr>)"
      using go started_basic by (auto simp: app_inv_def)
    with q app_inv_fail [OF go2] app_inv_start_instance [OF go2] show ?thesis
      by (cases q) (auto simp: start_by_store_def Let_def)
  qed
  from key store show ?thesis by (simp add: start_fp_def)
qed

text \<open>The sequence of the sections is a run, and what they leave of the phase is overwritten at the end.\<close>

lemma start_instance_phase: "start_instance A pk m (s\<lparr>phase := p\<rparr>) = start_instance A pk m s"
    "start_instance A pk m (s\<lparr>phase := p, app_world := w\<rparr>) = start_instance A pk m (s\<lparr>app_world := w\<rparr>)"
  by (simp_all add: start_instance_def fail_def mark_def split: prod.splits sum.splits)

lemma start_fp_phase: "start_fp A key (s\<lparr>phase := p\<rparr>) = start_fp A key s"
proof -
  have "start_by_store A (s\<lparr>phase := p\<rparr>) = start_by_store A s"
    by (auto simp: start_by_store_def start_instance_phase fail_def Let_def split: prod.splits sum.splits)
  then show ?thesis
    by (simp add: start_fp_def start_by_key_def start_instance_phase fail_def split: sum.splits)
qed

lemma Start_app_seq: "Start_app A fpPkStr s = (case acStart A (app_world s) of
      (Inl e, w) \<Rightarrow> fail (EWrap ''failed to start the finality provider app'' e) (s\<lparr>app_world := w\<rparr>)
    | (Inr _, w) \<Rightarrow>
        (let s1 = start_rpc (mark DaemonStarted (s\<lparr>app_world := w\<rparr>)) in
         if fpPkStr \<noteq> [] then start_by_key A fpPkStr s1 else start_by_store A s1))"
proof -
  have rpc: "start_rpc (u\<lparr>phase := p\<rparr>) = (start_rpc u)\<lparr>phase := p\<rparr>" for u :: "'a fp_app" and p
    by (simp add: start_rpc_def mark_def)
  show ?thesis
    by (simp add: Start_app_def start_daemon_def spawn_rpc_def rpc start_fp_phase Let_def split: prod.splits sum.splits)
      (simp add: start_fp_def fail_def)
qed

lemma app_step_inv: "app_step A key s t \<Longrightarrow> app_inv s \<Longrightarrow> app_inv t"
proof (induction rule: app_step.induct)
  case (app_daemon s)
  then show ?case by (simp add: app_inv_daemon)
next
  case (app_spawn s)
  then show ?case by (simp add: app_inv_spawn)
next
  case (app_instance s)
  then show ?case by (simp add: app_inv_fp)
next
  case (app_cancel s)
  then show ?case by (auto simp: app_inv_def split: app_phase.splits)
next
  case (app_rpc_returns s n)
  then show ?case by (auto simp: app_inv_def split: app_phase.splits if_splits)
next
  case (app_done s)
  then show ?case by (auto simp: app_inv_def stop_begin_def)
next
  case (app_stop s)
  then have s: "started_effects (effects s)" "stop_once s" "cancelled s" "wg s = 0"
    by (auto simp: app_inv_def)
  then show ?case
    by (auto simp: app_inv_def stop_end_def fail_def mark_def split: prod.splits sum.splits)
qed

lemma app_reach_inv: "app_reach A key s t \<Longrightarrow> app_inv s \<Longrightarrow> app_inv t"
  by (induction rule: app_reach.induct) (auto dest: app_step_inv)

lemma app_reach_trans: "app_reach A key t u \<Longrightarrow> app_reach A key s t \<Longrightarrow> app_reach A key s u"
  by (induction rule: app_reach.induct) (auto intro: app_reach.intros)

lemma app_reach_Start:
  assumes "phase s = Fresh"
  shows "app_reach A key s (Start_app A key s)"
proof -
  have "app_step A key s (start_daemon A s)" by (rule app_daemon [OF assms])
  then have d: "app_reach A key s (start_daemon A s)" by (blast intro: app_reach.intros)
  show ?thesis
  proof (cases "phase (start_daemon A s) = DaemonUp")
    case True
    have "app_step A key (start_daemon A s) (spawn_rpc (start_daemon A s))" by (rule app_spawn [OF True])
    moreover have "app_step A key (spawn_rpc (start_daemon A s)) (start_fp A key (spawn_rpc (start_daemon A s)))"
      by (rule app_instance) (simp add: spawn_rpc_def)
    ultimately show ?thesis using d True by (auto simp: Start_app_def Let_def intro: app_reach.intros)
  next
    case False
    then obtain r where "phase (start_daemon A s) = Finished r"
      by (auto simp: start_daemon_def fail_def split: prod.splits sum.splits)
    with d show ?thesis by (simp add: Start_app_def Let_def)
  qed
qed

lemma app_inv_new: "app_inv (newApp w rpc addr)"
  by (simp add: app_inv_def newApp_def)

subsection \<open>Properties\<close>

definition demo_app_calls :: "string list \<Rightarrow> unit res \<Rightarrow> nat app_calls" where
  "demo_app_calls stored stop = \<lparr>acStart = (\<lambda>w. (Inr (), Suc w)), acParsePk = Inr,
     acStartFinalityProvider = (\<lambda>pk w. (Inr (), Suc w)), acStoredFps = (\<lambda>w. (Inr stored, w)),
     acMarshalHex = (\<lambda>k. k), acStop = (\<lambda>w. (stop, Suc w)), acCloseEots = (\<lambda>w. (Inr (), Suc w))\<rparr>"

text \<open>
  (C16) How a run of the operator can end, under any interleaving of the RPC goroutine and the cancellation.
  After a stop, the RPC goroutine had returned first, the daemon was stopped once and then, unless stopping
  it failed, the EOTS manager was closed once. A run that ends otherwise is a failed start: it returns an
  error and stops nothing, so the daemon and the RPC server it had started are left running.
\<close>

theorem app_end_states:
  assumes "app_reach A key (newApp w rpc addr) t" "phase t = Finished r"
  shows "if stop_once t
    then wg t = 0 \<and> cancelled t \<and> (\<exists>es. started_effects es \<and>
      (effects t = es @ [DaemonStopped, EotsClosed] \<or> (effects t = es @ [DaemonStopped] \<and> \<not> is_ok r)))
    else \<not> is_ok r \<and> DaemonStopped \<notin> set (effects t) \<and> EotsClosed \<notin> set (effects t)"
  using app_reach_inv [OF assms(1) app_inv_new] assms(2)
  by (auto simp: app_inv_def started_effects_def split: if_splits)

theorem app_end_states_witness:
  "DaemonStopped \<notin> set (effects (Start_app (demo_app_calls [''a'', ''b''] (Inr ())) [] (newApp 0 True ''addr'')))"
proof -
  let ?A = "demo_app_calls [''a'', ''b''] (Inr ())" and ?s = "newApp (0 :: nat) True ''addr''"
  let ?t = "Start_app ?A [] ?s"
  have reach: "app_reach ?A [] ?s ?t" by (rule app_reach_Start) (simp add: newApp_def)
  have "\<exists>r. phase ?t = Finished r" "\<not> stop_once ?t"
    by (simp_all add: Start_app_seq start_rpc_def start_by_store_def demo_app_calls_def newApp_def mark_def fail_def Let_def)
  with app_end_states [OF reach] show ?thesis by auto
qed

text \<open>
  A start without a key: with no stored provider it runs without an instance, with one it starts
  that one, and with more it fails, the daemon having been started already.
\<close>

theorem start_without_key:
  assumes "acStart A w = (Inr u, w1)" "acStoredFps A w1 = (Inr fps, w2)"
  shows "case fps of
      [] \<Rightarrow> phase (Start_app A [] (newApp w rpc addr)) = Running \<and>
            (\<forall>pk. InstanceStarted pk \<notin> set (effects (Start_app A [] (newApp w rpc addr))))
    | [pk] \<Rightarrow> (case fst (acStartFinalityProvider A pk w2) of
          Inl e \<Rightarrow> phase (Start_app A [] (newApp w rpc addr)) =
            Finished (Inl (EWrap (''failed to start by storedFps '' @ acMarshalHex A pk) e))
        | Inr _ \<Rightarrow> phase (Start_app A [] (newApp w rpc addr)) = Running \<and>
            InstanceStarted pk \<in> set (effects (Start_app A [] (newApp w rpc addr))))
    | _ \<Rightarrow> (\<exists>e. phase (Start_app A [] (newApp w rpc addr)) = Finished (Inl e)) \<and>
            DaemonStarted \<in> set (effects (Start_app A [] (newApp w rpc addr))) \<and>
            app_world (Start_app A [] (newApp w rpc addr)) = w2"
  using assms
  by (auto simp: Start_app_seq start_rpc_def start_by_store_def start_instance_def newApp_def mark_def fail_def Let_def
      split: list.splits prod.splits sum.splits)

theorem start_without_key_witness:
  "phase (Start_app (demo_app_calls [''a''] (Inr ())) [] (newApp 0 True [])) = Running"
  using start_without_key [of "demo_app_calls [''a''] (Inr ())" 0 "()" 1 "[''a'']" 1 True "[]"]
  by (simp add: demo_app_calls_def)

text \<open>A begun stop stays begun.\<close>

lemma stop_once_simps [simp]:
  "stop_once (fail e s) = stop_once s" "stop_once (mark f s) = stop_once s" "stop_once (start_rpc s) = stop_once s"
  by (simp_all add: fail_def mark_def start_rpc_def)

lemma stop_once_instance [simp]: "stop_once (start_instance A pk m s) = stop_once s"
  by (simp add: start_instance_def split: prod.splits sum.splits)

lemma stop_once_start: "stop_once (start_daemon A s) = stop_once s" "stop_once (spawn_rpc s) = stop_once s"
    "stop_once (start_fp A key s) = stop_once s"
proof -
  have "stop_once (start_by_key A key u) = stop_once u" "stop_once (start_by_store A u) = stop_once u" for u
    by (simp_all add: start_by_key_def start_by_store_def Let_def split: prod.splits sum.splits)
  then show "stop_once (start_fp A key s) = stop_once s" by (simp add: start_fp_def)
  show "stop_once (start_daemon A s) = stop_once s" "stop_once (spawn_rpc s) = stop_once s"
    by (simp_all add: start_daemon_def spawn_rpc_def split: prod.splits sum.splits)
qed

lemma stop_once_end: "stop_once (stop_end A s) = stop_once s"
  by (simp add: stop_end_def split: prod.splits sum.splits)

lemma stop_once_step: "app_step A key s t \<Longrightarrow> stop_once s \<Longrightarrow> stop_once t"
  by (induction rule: app_step.induct) (simp_all add: stop_once_start stop_once_end stop_begin_def)

lemma stop_once_reach: "app_reach A key s t \<Longrightarrow> stop_once s \<Longrightarrow> stop_once t"
  by (induction rule: app_reach.induct) (auto dest: stop_once_step)

lemma stop_end_finishes: "\<exists>r. phase (stop_end A s) = Finished r"
  by (simp add: stop_end_def fail_def split: prod.splits sum.splits)

lemma waiting_finishes:
  "wg s = n \<Longrightarrow> phase s = Waiting \<Longrightarrow> cancelled s \<Longrightarrow> \<exists>u r. app_reach A key s u \<and> phase u = Finished r"
proof (induction n arbitrary: s)
  case 0
  then have "app_step A key s (stop_end A s)" by (intro app_stop) simp_all
  with stop_end_finishes show ?case by (blast intro: app_reach.intros)
next
  case (Suc n)
  let ?t = "s\<lparr>wg := n\<rparr>"
  obtain u r where "app_reach A key ?t u" "phase u = Finished r"
    using Suc.IH [of ?t] Suc.prems by auto
  moreover have "app_step A key s ?t" using Suc.prems by (intro app_rpc_returns) simp_all
  ultimately show ?case by (blast intro: app_reach_trans app_reach.intros)
qed

text \<open>
  Once the context is cancelled, a running operator can always finish: whatever has happened, there
  are steps to the end of the run.
\<close>

theorem cancelled_app_can_finish:
  assumes "app_reach A key (newApp w rpc addr) t" "phase t = Running \<or> phase t = Waiting" "cancelled t"
  shows "\<exists>u r. app_reach A key t u \<and> phase u = Finished r \<and> stop_once u"
proof -
  have "app_inv t" by (rule app_reach_inv [OF assms(1) app_inv_new])
  then have "\<exists>v. app_reach A key t v \<and> phase v = Waiting \<and> cancelled v \<and> stop_once v"
    using assms(2)
  proof (elim disjE)
    assume inv: "app_inv t" and run: "phase t = Running"
    then have "app_step A key t (stop_begin t)" using assms(3) by (intro app_done)
    with inv run assms(3) show ?thesis
      by (intro exI [where x = "stop_begin t"])
        (auto simp: stop_begin_def app_inv_def intro: app_reach.intros)
  next
    assume "app_inv t" "phase t = Waiting"
    with assms(3) show ?thesis
      by (intro exI [where x = t]) (auto simp: app_inv_def intro: app_refl)
  qed
  then obtain v where v: "app_reach A key t v" "phase v = Waiting" "cancelled v" "stop_once v" by blast
  from waiting_finishes [OF refl v(2,3)] obtain u r where u: "app_reach A key v u" "phase u = Finished r" by blast
  have "stop_once u" by (rule stop_once_reach [OF u(1) v(4)])
  with u v(1) show ?thesis by (blast intro: app_reach_trans)
qed

theorem cancelled_app_can_finish_witness:
  "\<exists>u r. app_reach (demo_app_calls [''a''] (Inr ())) []
     ((Start_app (demo_app_calls [''a''] (Inr ())) [] (newApp 0 True ''addr''))\<lparr>cancelled := True\<rparr>) u \<and>
     phase u = Finished r \<and> stop_once u"
proof -
  let ?A = "demo_app_calls [''a''] (Inr ())" and ?s = "newApp (0 :: nat) True ''addr''"
  let ?t = "(Start_app ?A [] ?s)\<lparr>cancelled := True\<rparr>"
  have "app_reach ?A [] ?s (Start_app ?A [] ?s)" by (rule app_reach_Start) (simp add: newApp_def)
  then have "app_reach ?A [] ?s ?t"
    by (blast intro: app_reach.intros app_cancel)
  moreover have "phase ?t = Running"
    by (simp add: Start_app_seq start_rpc_def start_by_store_def start_instance_def demo_app_calls_def newApp_def
        mark_def fail_def Let_def)
  ultimately show ?thesis by (intro cancelled_app_can_finish) simp_all
qed

end
