(* ===== verification/Resumption.thy ===== *)
theory Resumption
  imports GoBase
begin

text \<open>
  Goroutines. A handler is a resumption: a sequence of atomic sections, each of which updates
  the shared state and chooses how to go on from the state it saw. An atomic section is one
  critical section (the code between a lock and its unlock) or one call of an external client.
  The same resumption is run alone (\<open>run\<close>) or interleaved with any number of others by an
  arbitrary scheduler (\<open>pool_step\<close>). The logic \<open>safe\<close> proves an invariant of the
  shared state and a postcondition once for both.
\<close>

named_theorems safe_rules

subsection \<open>Resumptions\<close>

datatype (dead 's, 'a) prog = Ret 'a | Act "'s \<Rightarrow> 's" "'s \<Rightarrow> ('s, 'a) prog"

primrec bindP :: "('s, 'a) prog \<Rightarrow> ('a \<Rightarrow> ('s, 'b) prog) \<Rightarrow> ('s, 'b) prog" where
  "bindP (Ret a) k = k a"
| "bindP (Act u c) k = Act u (\<lambda>s. bindP (c s) k)"

text \<open>Read the shared state in one atomic section, or update it in one.\<close>

definition readP :: "('s \<Rightarrow> 'a) \<Rightarrow> ('s, 'a) prog" where
  "readP f = Act (\<lambda>s. s) (\<lambda>s. Ret (f s))"

definition modifyP :: "('s \<Rightarrow> 's) \<Rightarrow> ('s, unit) prog" where
  "modifyP u = Act u (\<lambda>s. Ret ())"

text \<open>One atomic section that returns a value and a new state.\<close>

definition actP :: "('s \<Rightarrow> 'a \<times> 's) \<Rightarrow> ('s, 'a) prog" where
  "actP f = Act (\<lambda>s. snd (f s)) (\<lambda>s. Ret (fst (f s)))"

text \<open>
  Go's \<open>if err != nil { return ..., errors.Wrap(err, msg) }\<close> after a call: \<open>tryP\<close>
  with the message, \<open>tryP_raw\<close> where the error is returned as it is.
\<close>

definition tryP :: "string \<Rightarrow> ('s, 'a res) prog \<Rightarrow> ('a \<Rightarrow> ('s, 'b res) prog) \<Rightarrow> ('s, 'b res) prog" where
  "tryP m p k = bindP p (\<lambda>r. case r of Inl e \<Rightarrow> Ret (Inl (EWrap m e)) | Inr v \<Rightarrow> k v)"

definition tryP_raw :: "('s, 'a res) prog \<Rightarrow> ('a \<Rightarrow> ('s, 'b res) prog) \<Rightarrow> ('s, 'b res) prog" where
  "tryP_raw p k = bindP p (\<lambda>r. case r of Inl e \<Rightarrow> Ret (Inl e) | Inr v \<Rightarrow> k v)"

lemma bindP_assoc: "bindP (bindP p f) g = bindP p (\<lambda>x. bindP (f x) g)"
  by (induction p) auto

lemma bindP_Ret [simp]: "bindP p Ret = p"
  by (induction p) auto

subsection \<open>Running alone\<close>

primrec run :: "('s, 'a) prog \<Rightarrow> 's \<Rightarrow> 'a \<times> 's" where
  "run (Ret a) = (\<lambda>s. (a, s))"
| "run (Act u c) = (\<lambda>s. run (c s) (u s))"

lemma run_bindP: "run (bindP p k) s = (case run p s of (a, t) \<Rightarrow> run (k a) t)"
  by (induction p arbitrary: s) auto

lemma run_readP [simp]: "run (readP f) s = (f s, s)"
  by (simp add: readP_def)

lemma run_modifyP [simp]: "run (modifyP u) s = ((), u s)"
  by (simp add: modifyP_def)

lemma run_actP [simp]: "run (actP f) s = f s"
  by (simp add: actP_def)

lemma run_tryP: "run (tryP m p k) s =
    (case run p s of (Inl e, t) \<Rightarrow> (Inl (EWrap m e), t) | (Inr v, t) \<Rightarrow> run (k v) t)"
  by (simp add: tryP_def run_bindP split: prod.splits sum.splits)

lemma run_tryP_raw: "run (tryP_raw p k) s =
    (case run p s of (Inl e, t) \<Rightarrow> (Inl e, t) | (Inr v, t) \<Rightarrow> run (k v) t)"
  by (simp add: tryP_raw_def run_bindP split: prod.splits sum.splits)

lemmas run_simps = run_bindP run_tryP run_tryP_raw

subsection \<open>Running interleaved\<close>

text \<open>
  A pool is the shared state and the goroutines in it. A step picks any goroutine that has not
  returned and runs its next atomic section.
\<close>

inductive pool_step :: "'s \<times> ('s, 'a) prog list \<Rightarrow> 's \<times> ('s, 'a) prog list \<Rightarrow> bool" where
  pool_act: "i < length ps \<Longrightarrow> ps ! i = Act u c \<Longrightarrow> pool_step (s, ps) (u s, ps[i := c s])"

inductive_cases pool_stepE: "pool_step (s, ps) cfg"

inductive pool_steps :: "'s \<times> ('s, 'a) prog list \<Rightarrow> 's \<times> ('s, 'a) prog list \<Rightarrow> bool" where
  pool_refl: "pool_steps cfg cfg"
| pool_trans: "pool_steps cfg cfg' \<Longrightarrow> pool_step cfg' cfg'' \<Longrightarrow> pool_steps cfg cfg''"

subsection \<open>The logic of invariants\<close>

text \<open>
  \<open>safe I G Q p\<close>: started in any state where \<open>I\<close> holds, and with \<open>I\<close> holding again
  before every later section (other goroutines may have run in between), each section of
  \<open>p\<close> keeps \<open>I\<close>, relates its state before and after by \<open>G\<close>, and the value
  \<open>p\<close> returns satisfies \<open>Q\<close>.
\<close>

primrec safe :: "('s \<Rightarrow> bool) \<Rightarrow> ('s \<Rightarrow> 's \<Rightarrow> bool) \<Rightarrow> ('a \<Rightarrow> bool) \<Rightarrow> ('s, 'a) prog \<Rightarrow> bool" where
  "safe I G Q (Ret a) = Q a"
| "safe I G Q (Act u c) = (\<forall>s. I s \<longrightarrow> I (u s) \<and> G s (u s) \<and> safe I G Q (c s))"

lemma safe_mono: "safe I G Q p \<Longrightarrow> (\<And>a. Q a \<Longrightarrow> Q' a) \<Longrightarrow> safe I G Q' p"
  by (induction p) auto

lemma safe_bindP [safe_rules]:
  "safe I G R p \<Longrightarrow> (\<And>a. R a \<Longrightarrow> safe I G Q (k a)) \<Longrightarrow> safe I G Q (bindP p k)"
  by (induction p) auto

lemma safe_Ret [safe_rules]: "Q a \<Longrightarrow> safe I G Q (Ret a)"
  by simp

lemma safe_readP: "(\<And>s. I s \<Longrightarrow> G s s \<and> Q (f s)) \<Longrightarrow> safe I G Q (readP f)"
  by (simp add: readP_def)

lemma safe_modifyP: "(\<And>s. I s \<Longrightarrow> I (u s) \<and> G s (u s) \<and> Q ()) \<Longrightarrow> safe I G Q (modifyP u)"
  by (simp add: modifyP_def)

lemma safe_actP:
  "(\<And>s. I s \<Longrightarrow> I (snd (f s)) \<and> G s (snd (f s)) \<and> Q (fst (f s))) \<Longrightarrow> safe I G Q (actP f)"
  by (simp add: actP_def)

lemma safe_tryP:
  assumes "safe I G R p"
    and "\<And>e. R (Inl e) \<Longrightarrow> Q (Inl (EWrap m e))"
    and "\<And>v. R (Inr v) \<Longrightarrow> safe I G Q (k v)"
  shows "safe I G Q (tryP m p k)"
  unfolding tryP_def
  by (rule safe_bindP [OF assms(1)]) (auto simp: assms(2,3) split: sum.splits)

lemma safe_tryP_raw:
  assumes "safe I G R p"
    and "\<And>e. R (Inl e) \<Longrightarrow> Q (Inl e)"
    and "\<And>v. R (Inr v) \<Longrightarrow> safe I G Q (k v)"
  shows "safe I G Q (tryP_raw p k)"
  unfolding tryP_raw_def
  by (rule safe_bindP [OF assms(1)]) (auto simp: assms(2,3) split: sum.splits)

text \<open>A fact about the state that the guarantee keeps joins the invariant.\<close>

lemma safe_frame:
  assumes "safe I G Q p" and "\<And>s t. G s t \<Longrightarrow> J s \<Longrightarrow> J t \<and> G' s t"
  shows "safe (\<lambda>s. I s \<and> J s) G' Q p"
  using assms by (induction p) auto

text \<open>Alone: the final state satisfies the invariant and the value the postcondition.\<close>

lemma safe_run: "safe I G Q p \<Longrightarrow> I s \<Longrightarrow> I (snd (run p s)) \<and> Q (fst (run p s))"
  by (induction p arbitrary: s) auto

lemma safe_run_guar:
  assumes "safe I G Q p" "I s" and G: "reflp G" "transp G"
  shows "G s (snd (run p s))"
  using assms(1,2)
proof (induction p arbitrary: s)
  case (Ret a)
  then show ?case using G by (simp add: reflpD)
next
  case (Act u c)
  then have "G s (u s)" "G (u s) (snd (run (c s) (u s)))" by auto
  then show ?case using G by (auto dest: transpD)
qed

text \<open>Interleaved: every step of a pool of safe goroutines keeps invariant and guarantee.\<close>

definition pool_safe :: "('s \<Rightarrow> bool) \<Rightarrow> ('s \<Rightarrow> 's \<Rightarrow> bool) \<Rightarrow> ('a \<Rightarrow> bool) \<Rightarrow> 's \<times> ('s, 'a) prog list \<Rightarrow> bool" where
  "pool_safe I G Q cfg = (I (fst cfg) \<and> (\<forall>p \<in> set (snd cfg). safe I G Q p))"

lemma pool_step_safe:
  assumes "pool_step cfg cfg'" "pool_safe I G Q cfg"
  shows "pool_safe I G Q cfg' \<and> G (fst cfg) (fst cfg')"
  using assms
proof (induction rule: pool_step.induct)
  case (pool_act i ps u c s)
  then have "Act u c \<in> set ps" by (metis nth_mem)
  with pool_act have "safe I G Q (Act u c)" by (auto simp: pool_safe_def)
  with pool_act show ?case
    by (auto simp: pool_safe_def dest!: set_update_subset_insert [THEN subsetD])
qed

lemma pool_steps_safe:
  assumes "pool_steps cfg cfg'" "pool_safe I G Q cfg" "reflp G" "transp G"
  shows "pool_safe I G Q cfg' \<and> G (fst cfg) (fst cfg')"
  using assms
proof (induction rule: pool_steps.induct)
  case (pool_refl cfg)
  then show ?case by (simp add: reflpD)
next
  case (pool_trans cfg cfg' cfg'')
  then show ?case by (blast dest: pool_step_safe transpD)
qed

lemma pool_safe_returned: "pool_safe I G Q (s, ps) \<Longrightarrow> Ret a \<in> set ps \<Longrightarrow> Q a"
  by (force simp: pool_safe_def)

text \<open>The same with a postcondition of its own for each goroutine.\<close>

lemma pool_step_each:
  assumes "pool_step cfg cfg'" "I (fst cfg)" "list_all2 (safe I G) Qs (snd cfg)"
  shows "I (fst cfg') \<and> list_all2 (safe I G) Qs (snd cfg')"
  using assms
proof (induction rule: pool_step.induct)
  case (pool_act i ps u c s)
  then have "safe I G (Qs ! i) (Act u c)" by (metis list_all2_nthD2 snd_conv)
  with pool_act have "I (u s)" "safe I G (Qs ! i) (c s)" by auto
  moreover from this pool_act have "list_all2 (safe I G) (Qs[i := Qs ! i]) (ps[i := c s])"
    by (intro list_all2_update_cong) auto
  ultimately show ?case by simp
qed

lemma pool_steps_each:
  assumes "pool_steps cfg cfg'" "I (fst cfg)" "list_all2 (safe I G) Qs (snd cfg)"
  shows "I (fst cfg') \<and> list_all2 (safe I G) Qs (snd cfg')"
  using assms by (induction rule: pool_steps.induct) (auto dest: pool_step_each)

lemma each_returned: "list_all2 (safe I G) Qs qs \<Longrightarrow> i < length qs \<Longrightarrow> qs ! i = Ret r \<Longrightarrow> (Qs ! i) r"
  by (metis list_all2_nthD2 safe.simps(1))

text \<open>A goroutine run alone is one of the schedules of a pool.\<close>

lemma pool_steps_append: "pool_steps b c \<Longrightarrow> pool_steps a b \<Longrightarrow> pool_steps a c"
  by (induction rule: pool_steps.induct) (auto intro: pool_steps.intros)

lemma run_is_schedule: "pool_steps (s, [p]) (snd (run p s), [Ret (fst (run p s))])"
proof (induction p arbitrary: s)
  case (Ret a)
  show ?case by (simp add: pool_refl)
next
  case (Act u c)
  have "pool_step (s, [Act u c]) (u s, [Act u c][0 := c s])"
    by (rule pool_act) simp_all
  then have "pool_steps (s, [Act u c]) (u s, [c s])"
    by (auto intro: pool_trans pool_refl)
  with Act.IH [OF rangeI, of "u s" s] show ?case by (auto intro: pool_steps_append)
qed

end
