(* ===== verification/BoundedCache.thy ===== *)
theory BoundedCache
  imports Resumption
begin

text \<open>
  The caches of the finality state provider. Each is a Go map that is thrown away as a whole
  when an insertion finds it over \<open>CacheMapCount\<close> entries, so a lookup after insertions
  gives the last value stored under the key or nothing, never another value, and a cache holds
  at most one entry more than \<open>CacheMapCount\<close>. The locale \<open>bounded_cache\<close> states that
  contract; \<open>memoP\<close> is the lookup, call, store pattern of the cached queries.
\<close>

definition CacheMapCount :: nat where
  "CacheMapCount = 4096"

definition cache_put :: "('k, 'v) gomap \<Rightarrow> 'k \<Rightarrow> 'v \<Rightarrow> ('k, 'v) gomap" where
  "cache_put m k v = gm_put (if gm_len m > CacheMapCount then gm_empty else m) k v"

subsection \<open>The contract of a cache\<close>

locale bounded_cache =
  fixes get :: "'m \<Rightarrow> 'k \<Rightarrow> 'v option"
    and put :: "'m \<Rightarrow> 'k \<Rightarrow> 'v \<Rightarrow> 'm"
    and empty :: 'm
    and size_of :: "'m \<Rightarrow> nat"
    and bound :: nat
  assumes get_empty: "get empty k = None"
    and get_put_same: "get (put m k v) k = Some v"
    and get_put_other: "k' \<noteq> k \<Longrightarrow> get (put m k v) k' = Some w \<Longrightarrow> get m k' = Some w"
    and size_empty: "size_of empty \<le> bound"
    and size_put: "size_of m \<le> bound \<Longrightarrow> size_of (put m k v) \<le> bound"
begin

lemma coherent_empty: "\<forall>k v. get empty k = Some v \<longrightarrow> R k v"
  by (simp add: get_empty)

lemma coherent_put:
  "\<forall>k v. get m k = Some v \<longrightarrow> R k v \<Longrightarrow> R k0 v0 \<Longrightarrow>
   \<forall>k v. get (put m k0 v0) k = Some v \<longrightarrow> R k v"
  by (metis get_put_other get_put_same option.inject)

lemma size_puts: "size_of m \<le> bound \<Longrightarrow> size_of (fold (\<lambda>(k, v) n. put n k v) kvs m) \<le> bound"
  by (induction kvs arbitrary: m) (auto simp: size_put)

lemma coherent_puts:
  "\<forall>k v. get m k = Some v \<longrightarrow> R k v \<Longrightarrow> \<forall>(k, v) \<in> set kvs. R k v \<Longrightarrow>
   get (fold (\<lambda>(k, v) n. put n k v) kvs m) k = Some w \<Longrightarrow> R k w"
proof (induction kvs arbitrary: m)
  case Nil
  then show ?case by simp
next
  case (Cons kv kvs)
  obtain k0 v0 where kv: "kv = (k0, v0)" by (cases kv)
  have "\<forall>k v. get (put m k0 v0) k = Some v \<longrightarrow> R k v"
    by (rule coherent_put) (use Cons.prems kv in auto)
  from Cons.IH [OF this] Cons.prems kv show ?case by auto
qed

end

interpretation cache: bounded_cache gm_get cache_put gm_empty gm_len "Suc CacheMapCount"
proof
  fix m :: "('k, 'v) gomap" and k v
  show "gm_len m \<le> Suc CacheMapCount \<Longrightarrow> gm_len (cache_put m k v) \<le> Suc CacheMapCount"
    using gm_len_put [of m k v] gm_len_put [of gm_empty k v] by (simp add: cache_put_def)
qed (auto simp: cache_put_def split: if_splits)

text \<open>What a cache holds relates every key to its value by \<open>R\<close>.\<close>

definition cache_ok :: "('k \<Rightarrow> 'v \<Rightarrow> bool) \<Rightarrow> ('k, 'v) gomap \<Rightarrow> bool" where
  "cache_ok R m = (\<forall>k v. gm_get m k = Some v \<longrightarrow> R k v)"

lemma cache_ok_empty [simp]: "cache_ok R gm_empty"
  unfolding cache_ok_def by (rule cache.coherent_empty)

lemma cache_ok_put: "cache_ok R m \<Longrightarrow> R k v \<Longrightarrow> cache_ok R (cache_put m k v)"
  unfolding cache_ok_def by (rule cache.coherent_put)

lemma cache_okD: "cache_ok R m \<Longrightarrow> gm_get m k = Some v \<Longrightarrow> R k v"
  by (simp add: cache_ok_def)

lemma cache_ok_True [simp]: "cache_ok (\<lambda>_ _. True) m"
  by (simp add: cache_ok_def)

subsection \<open>Lookup, call, store\<close>

text \<open>
  The shape of every cached query: look the value up in a read section; on a miss make the call;
  return its error, or store the value in a write section and return it. Another goroutine may
  run between the sections.
\<close>

definition memoP :: "('s \<Rightarrow> 'v option) \<Rightarrow> ('v \<Rightarrow> 's \<Rightarrow> 's) \<Rightarrow> ('s, 'v res) prog \<Rightarrow> ('s, 'v res) prog" where
  "memoP look store call = bindP (readP look) (\<lambda>c. case c of
      Some v \<Rightarrow> Ret (Inr v)
    | None \<Rightarrow> tryP_raw call (\<lambda>v. bindP (modifyP (store v)) (\<lambda>_. Ret (Inr v))))"

lemma run_memoP: "run (memoP look store call) s = (case look s of
      Some v \<Rightarrow> (Inr v, s)
    | None \<Rightarrow> (case run call s of (Inl e, t) \<Rightarrow> (Inl e, t) | (Inr v, t) \<Rightarrow> (Inr v, store v t)))"
  by (simp add: memoP_def run_simps split: option.splits prod.splits sum.splits)

text \<open>
  If the lookup gives only values in \<open>R\<close>, the call returns only such values, and storing
  one keeps the invariant, then so does the query, whatever runs in between.
\<close>

lemma safe_memoP:
  assumes look: "\<And>s v. I s \<Longrightarrow> look s = Some v \<Longrightarrow> Q (Inr v)"
    and call: "safe I G Q call"
    and store: "\<And>s v. I s \<Longrightarrow> Q (Inr v) \<Longrightarrow> I (store v s) \<and> G s (store v s)"
    and refl: "\<And>s. G s s"
  shows "safe I G Q (memoP look store call)"
  unfolding memoP_def
proof (rule safe_bindP [where R = "\<lambda>c. \<forall>v. c = Some v \<longrightarrow> Q (Inr v)"])
  show "safe I G (\<lambda>c. \<forall>v. c = Some v \<longrightarrow> Q (Inr v)) (readP look)"
    by (rule safe_readP) (auto simp: refl look)
next
  fix c assume c: "\<forall>v. c = Some v \<longrightarrow> Q (Inr v)"
  have "safe I G Q (tryP_raw call (\<lambda>v. bindP (modifyP (store v)) (\<lambda>_. Ret (Inr v))))"
    by (rule safe_tryP_raw [OF call], simp)
      (rule safe_bindP [OF safe_modifyP], auto simp: store)
  with c show "safe I G Q (case c of Some v \<Rightarrow> Ret (Inr v) | None \<Rightarrow>
      tryP_raw call (\<lambda>v. bindP (modifyP (store v)) (\<lambda>_. Ret (Inr v))))"
    by (simp split: option.splits)
qed

end
