(* ===== verification/Quorum.thy ===== *)
theory Quorum
  imports GoBase
begin

text \<open>
  The quorum rule of \<open>QueryIsBlockBabylonFinalizedFromBabylon\<close>: total and voted power are
  64-bit sums, and a block has a quorum unless three times the voted power is below twice the
  total. The locale \<open>two_thirds_quorum\<close> is the contract of such a rule, with the
  intersection and monotonicity facts that make it a finality rule.
\<close>

type_synonym powers = "(string, u64) gomap"

subsection \<open>The sums of the code\<close>

definition sum_powers :: "(string \<times> u64) list \<Rightarrow> u64" where
  "sum_powers es = foldl (\<lambda>acc (_, p). acc + p) 0 es"

definition total_power :: "powers \<Rightarrow> u64" where
  "total_power m = sum_powers (gm_entries m)"

definition voted_power :: "powers \<Rightarrow> string list \<Rightarrow> u64" where
  "voted_power m pks =
     foldl (\<lambda>acc key. case gm_get m key of Some p \<Rightarrow> acc + p | None \<Rightarrow> acc) 0 pks"

definition quorum_reached :: "u64 \<Rightarrow> u64 \<Rightarrow> bool" where
  "quorum_reached votedPower totalPower = (\<not> votedPower * 3 < totalPower * 2)"

subsection \<open>The sums as natural numbers\<close>

definition power_of :: "powers \<Rightarrow> string \<Rightarrow> nat" where
  "power_of m k = (case gm_get m k of Some p \<Rightarrow> unat p | None \<Rightarrow> 0)"

definition total_nat :: "powers \<Rightarrow> nat" where
  "total_nat m = sum_list (map (unat \<circ> snd) (gm_entries m))"

lemma foldl_add_word: "foldl (\<lambda>acc x. acc + f x) a xs = a + sum_list (map f xs)" for a :: u64
  by (induction xs arbitrary: a) (auto simp: add.assoc)

lemma sum_powers_sum_list: "sum_powers es = sum_list (map snd es)"
  using foldl_add_word [of snd 0 es] by (simp add: sum_powers_def case_prod_unfold)

lemma voted_power_sum_list:
  "voted_power m pks = sum_list (map (\<lambda>k. case gm_get m k of Some p \<Rightarrow> p | None \<Rightarrow> 0) pks)"
proof -
  have "voted_power m pks = foldl (\<lambda>acc k. acc + (case gm_get m k of Some p \<Rightarrow> p | None \<Rightarrow> 0)) 0 pks"
    unfolding voted_power_def by (rule foldl_cong) (auto split: option.splits)
  then show ?thesis by (simp add: foldl_add_word)
qed

lemma unat_sum_list:
  "sum_list (map (unat \<circ> f) xs) < 2 ^ 64 \<Longrightarrow> unat (sum_list (map f xs)) = sum_list (map (unat \<circ> f) xs)"
  for f :: "'a \<Rightarrow> u64"
  by (induction xs) (auto simp: unat_word_ariths)

lemma sum_list_distinct: "distinct xs \<Longrightarrow> sum_list (map f xs) = sum f (set xs)"
  for f :: "'a \<Rightarrow> nat"
  by (simp add: sum_list_distinct_conv_sum_set)

lemma unat_total_power: "total_nat m < 2 ^ 64 \<Longrightarrow> unat (total_power m) = total_nat m"
  by (simp add: total_power_def sum_powers_sum_list total_nat_def unat_sum_list)

lemma total_nat_sum: "total_nat m = sum (power_of m) (fst ` set (gm_entries m))"
proof -
  have "map (unat \<circ> snd) (gm_entries m) = map (power_of m \<circ> fst) (gm_entries m)"
    by (rule map_cong) (auto simp: power_of_def gm_get_entries)
  then have "total_nat m = sum_list (map (power_of m) (map fst (gm_entries m)))"
    by (simp only: total_nat_def map_map)
  then show ?thesis by (simp only: sum_list_distinct [OF distinct_gm_entries] set_map)
qed

lemma power_of_outside: "k \<notin> fst ` set (gm_entries m) \<Longrightarrow> power_of m k = 0"
  by (auto simp: power_of_def gm_get_entries split: option.splits dest: map_of_SomeD intro: rev_image_eqI)

lemma sum_power_le_total: "finite A \<Longrightarrow> sum (power_of m) A \<le> total_nat m"
proof -
  assume fin: "finite A"
  let ?M = "fst ` set (gm_entries m)"
  have "sum (power_of m) A = sum (power_of m) (A \<inter> ?M)"
    using fin by (intro sum.mono_neutral_right) (auto simp: power_of_outside)
  also have "\<dots> \<le> sum (power_of m) ?M"
    by (rule sum_mono2) auto
  finally show ?thesis by (simp add: total_nat_sum)
qed

lemma unat_voted_power:
  assumes "distinct pks" "total_nat m < 2 ^ 64"
  shows "unat (voted_power m pks) = sum (power_of m) (set pks)"
proof -
  let ?f = "\<lambda>k. case gm_get m k of Some p \<Rightarrow> p | None \<Rightarrow> (0::u64)"
  have f: "unat \<circ> ?f = power_of m"
    by (auto simp: power_of_def split: option.splits)
  have "sum_list (map (unat \<circ> ?f) pks) = sum (power_of m) (set pks)"
    using assms(1) by (simp add: f sum_list_distinct)
  with assms(2) sum_power_le_total [of "set pks" m] show ?thesis
    by (subst voted_power_sum_list, subst unat_sum_list) simp_all
qed

subsection \<open>The contract of a two-thirds rule\<close>

locale two_thirds_quorum =
  fixes weight :: "'m \<Rightarrow> 'k \<Rightarrow> nat"
    and total_of :: "'m \<Rightarrow> nat"
    and decide :: "'m \<Rightarrow> 'k list \<Rightarrow> bool"
    and ok :: "'m \<Rightarrow> 'k list \<Rightarrow> bool"
  assumes weight_bounded: "finite A \<Longrightarrow> sum (weight m) A \<le> total_of m"
    and decide_iff: "ok m vs \<Longrightarrow> decide m vs \<longleftrightarrow> 2 * total_of m \<le> 3 * sum (weight m) (set vs)"
begin

lemma quorums_intersect:
  assumes "ok m vs" "ok m ws" "decide m vs" "decide m ws"
  shows "total_of m \<le> 3 * sum (weight m) (set vs \<inter> set ws)"
proof -
  have "sum (weight m) (set vs \<union> set ws) + sum (weight m) (set vs \<inter> set ws) =
      sum (weight m) (set vs) + sum (weight m) (set ws)"
    by (rule sum.union_inter) auto
  moreover have "sum (weight m) (set vs \<union> set ws) \<le> total_of m"
    by (rule weight_bounded) auto
  ultimately show ?thesis
    using assms decide_iff [of m vs] decide_iff [of m ws] by linarith
qed

lemma decide_more_votes:
  assumes "ok m vs" "ok m ws" "set vs \<subseteq> set ws" "decide m vs"
  shows "decide m ws"
proof -
  have "sum (weight m) (set vs) \<le> sum (weight m) (set ws)"
    using assms(3) by (intro sum_mono2) auto
  with assms decide_iff [of m vs] decide_iff [of m ws] show ?thesis by linarith
qed

lemma third_blocks:
  assumes "ok m vs" "set vs \<inter> B = {}" "finite B" "total_of m < 3 * sum (weight m) B"
  shows "\<not> decide m vs"
proof -
  have "sum (weight m) (set vs) + sum (weight m) B = sum (weight m) (set vs \<union> B)"
    using assms by (intro sum.union_disjoint [symmetric]) auto
  moreover have "sum (weight m) (set vs \<union> B) \<le> total_of m"
    using assms by (intro weight_bounded) auto
  ultimately show ?thesis using assms decide_iff [of m vs] by linarith
qed

end

text \<open>
  The code's rule meets the contract for a vote list without duplicates while three times the
  total power stays below \<open>2 ^ 64\<close>.
\<close>

definition no_overflow :: "powers \<Rightarrow> bool" where
  "no_overflow m = (3 * total_nat m < 2 ^ 64)"

definition votes_ok :: "powers \<Rightarrow> string list \<Rightarrow> bool" where
  "votes_ok m pks = (distinct pks \<and> no_overflow m)"

lemma quorum_reached_iff:
  assumes "votes_ok m pks"
  shows "quorum_reached (voted_power m pks) (total_power m) \<longleftrightarrow>
         2 * total_nat m \<le> 3 * sum (power_of m) (set pks)"
proof -
  let ?v = "sum (power_of m) (set pks)"
  have t: "3 * total_nat m < 2 ^ 64" and d: "distinct pks"
    using assms by (auto simp: votes_ok_def no_overflow_def)
  have v: "?v \<le> total_nat m" by (rule sum_power_le_total) simp
  have uv: "unat (voted_power m pks) = ?v" and ut: "unat (total_power m) = total_nat m"
    using d t by (simp_all add: unat_voted_power unat_total_power)
  have "unat (voted_power m pks * 3) = 3 * ?v" "unat (total_power m * 2) = 2 * total_nat m"
    using t v by (simp_all add: unat_word_ariths uv ut)
  then show ?thesis
    by (simp add: quorum_reached_def word_less_nat_alt not_less)
qed

interpretation quorum: two_thirds_quorum power_of total_nat
  "\<lambda>m pks. quorum_reached (voted_power m pks) (total_power m)" votes_ok
  by unfold_locales (simp_all add: sum_power_le_total quorum_reached_iff)

end
