(* ===== verification/Provider.thy ===== *)
theory Provider
  imports BoundedCache Quorum "HOL-Library.Multiset"
begin

text \<open>
  \<open>FinalizedStateProvider\<close> (rpc/provider/finality_state_provider.go): its state, the
  external clients it calls, and its queries, each a resumption of the critical sections and
  client calls in the order the code makes them. Log calls are left out.
\<close>

subsection \<open>Blocks and external clients\<close>

text \<open>
  What the provider reads off a go-ethereum block: \<open>Hash().Hex()\<close>, \<open>Time()\<close> and
  \<open>NumberU64()\<close>; and the block it queries Babylon about.
\<close>

record eth_block =
  eth_hash :: string
  eth_time :: u64
  eth_number :: u64

record l2block =
  BlockHash :: string
  BlockTimestamp :: u64
  BlockHeight :: u64

text \<open>
  The clients are outside the repository. Each call takes the outside world, of any type, to an
  answer and a new world; nothing is assumed of them here. A nil slice is \<open>None\<close>, a time
  is its distance in nanoseconds from the zero time.
\<close>

record 'w clients =
  ethBlockNumber :: "'w \<Rightarrow> u64 res \<times> 'w"
  ethBlockByNumber :: "int \<Rightarrow> 'w \<Rightarrow> eth_block res \<times> 'w"
  btcGetBlockHeightByTimestamp :: "u64 \<Rightarrow> 'w \<Rightarrow> u32 res \<times> 'w"
  bbnQueryAllFpBtcPubKeys :: "string \<Rightarrow> 'w \<Rightarrow> string list res \<times> 'w"
  bbnQueryMultiFpPower :: "string list \<Rightarrow> u32 \<Rightarrow> 'w \<Rightarrow> powers res \<times> 'w"
  bbnQueryEarliestActiveDelBtcHeight :: "string list \<Rightarrow> 'w \<Rightarrow> u32 res \<times> 'w"
  cwQueryConsumerId :: "'w \<Rightarrow> string res \<times> 'w"
  cwQueryListOfVotedFinalityProviders :: "l2block \<Rightarrow> 'w \<Rightarrow> string list option res \<times> 'w"
  timeNow :: "'w \<Rightarrow> int \<times> 'w"

subsection \<open>State\<close>

record provider =
  lastFinalizedHeight :: u64
  allFpsCache :: "string list"
  allFpsCacheLastTime :: int
  votedFpPksCache :: "(string, string list option) gomap"
  finalizedCache :: "(u64, bool) gomap"
  btcblockHeightCache :: "(string, u32) gomap"
  earliestActiveDelBtcHeightCache :: "(string, u32) gomap"
  multiFpPowerCache :: "(u32, powers) gomap"
  l2BlockCache :: "(u64, eth_block) gomap"

definition newProvider :: provider where
  "newProvider = \<lparr>lastFinalizedHeight = 0, allFpsCache = [], allFpsCacheLastTime = 0,
     votedFpPksCache = gm_empty, finalizedCache = gm_empty, btcblockHeightCache = gm_empty,
     earliestActiveDelBtcHeightCache = gm_empty, multiFpPowerCache = gm_empty,
     l2BlockCache = gm_empty\<rparr>"

record 'w psys =
  world :: 'w
  prov :: provider

text \<open>A call of an external client, and a critical section on the provider.\<close>

definition extP :: "('w \<Rightarrow> 'a \<times> 'w) \<Rightarrow> ('w psys, 'a) prog" where
  "extP f = actP (\<lambda>s. case f (world s) of (a, w) \<Rightarrow> (a, s\<lparr>world := w\<rparr>))"

definition on_prov :: "(provider \<Rightarrow> provider) \<Rightarrow> 'w psys \<Rightarrow> 'w psys" where
  "on_prov f s = s\<lparr>prov := f (prov s)\<rparr>"

lemma run_extP [simp]: "run (extP f) s = (fst (f (world s)), s\<lparr>world := snd (f (world s))\<rparr>)"
  by (simp add: extP_def split: prod.splits)

lemma on_prov_sel [simp]: "world (on_prov f s) = world s" "prov (on_prov f s) = f (prov s)"
  by (simp_all add: on_prov_def)

subsection \<open>The last finalized height\<close>

definition set_last :: "u64 \<Rightarrow> provider \<Rightarrow> provider" where
  "set_last height p =
     (if lastFinalizedHeight p < height then p\<lparr>lastFinalizedHeight := height\<rparr> else p)"

definition GetLastFinalized :: "('w psys, u64) prog" where
  "GetLastFinalized = readP (\<lambda>s. lastFinalizedHeight (prov s))"

definition SetLastFinalized :: "u64 \<Rightarrow> ('w psys, unit) prog" where
  "SetLastFinalized height = modifyP (on_prov (set_last height))"

text \<open>The contract of a register that only grows.\<close>

locale max_register =
  fixes get :: "'r \<Rightarrow> 'v :: linorder"
    and set_to :: "'v \<Rightarrow> 'r \<Rightarrow> 'r"
  assumes get_set: "get (set_to v r) = max (get r) v"
begin

lemma get_grows: "get r \<le> get (set_to v r)"
  by (simp add: get_set)

lemma get_fold_sets: "get (fold set_to vs r) = fold max vs (get r)"
  by (induction vs arbitrary: r) (simp_all add: get_set max.commute)

lemma get_sets: "get (fold set_to vs r) = Max (insert (get r) (set vs))"
  by (simp add: get_fold_sets Max.set_eq_fold [symmetric])

lemma sets_any_order: "mset vs = mset ws \<Longrightarrow> get (fold set_to vs r) = get (fold set_to ws r)"
  by (simp add: get_sets) (metis set_mset_mset)

end

interpretation last_final: max_register lastFinalizedHeight set_last
  by unfold_locales (auto simp: set_last_def max_def)

subsection \<open>Cached queries\<close>

text \<open>
  \<open>isTimeNotGreaterThan\<close>: the zero time is never fresh; otherwise the clock is read and
  the distance, saturated to a signed 64-bit duration, is compared with 240 seconds.
\<close>

definition duration_sub :: "int \<Rightarrow> int \<Rightarrow> int" where
  "duration_sub t u = max (- (2 ^ 63)) (min (2 ^ 63 - 1) (t - u))"

definition isTimeNotGreaterThan :: "'w clients \<Rightarrow> int \<Rightarrow> 'w \<Rightarrow> bool \<times> 'w" where
  "isTimeNotGreaterThan C inputTime w =
     (if inputTime = 0 then (False, w)
      else case timeNow C w of (currentTime, w') \<Rightarrow>
        (duration_sub currentTime inputTime \<le> 240 * 10 ^ 9, w'))"

definition blockByNumber :: "'w clients \<Rightarrow> u64 \<Rightarrow> ('w psys, eth_block res) prog" where
  "blockByNumber C number = memoP
     (\<lambda>s. gm_get (l2BlockCache (prov s)) number)
     (\<lambda>blk. on_prov (\<lambda>p. p\<lparr>l2BlockCache := cache_put (l2BlockCache p) number blk\<rparr>))
     (tryP (''QueryBlock failed: '' @ show_u64 number)
        (extP (ethBlockByNumber C (sint number))) (\<lambda>blk. Ret (Inr blk)))"

definition fps_lookup :: "'w clients \<Rightarrow> 'w psys \<Rightarrow> string list option \<times> 'w psys" where
  "fps_lookup C s =
     (if allFpsCache (prov s) = [] then (None, s)
      else case isTimeNotGreaterThan C (allFpsCacheLastTime (prov s)) (world s) of (fresh, w) \<Rightarrow>
        (if fresh then Some (allFpsCache (prov s)) else None, s\<lparr>world := w\<rparr>))"

definition fps_store :: "'w clients \<Rightarrow> string list \<Rightarrow> 'w psys \<Rightarrow> unit \<times> 'w psys" where
  "fps_store C pks s = (case timeNow C (world s) of (t, w) \<Rightarrow>
     ((), on_prov (\<lambda>p. p\<lparr>allFpsCache := pks, allFpsCacheLastTime := t\<rparr>) (s\<lparr>world := w\<rparr>)))"

definition queryAllFpBtcPubKeys :: "'w clients \<Rightarrow> ('w psys, string list res) prog" where
  "queryAllFpBtcPubKeys C = bindP (actP (fps_lookup C)) (\<lambda>c. case c of
      Some pks \<Rightarrow> Ret (Inr pks)
    | None \<Rightarrow>
        tryP_raw (extP (cwQueryConsumerId C)) (\<lambda>consumerId.
        tryP_raw (extP (bbnQueryAllFpBtcPubKeys C consumerId)) (\<lambda>pks.
        bindP (actP (fps_store C pks)) (\<lambda>_. Ret (Inr pks)))))"

definition queryListOfVotedFinalityProviders ::
  "'w clients \<Rightarrow> l2block \<Rightarrow> ('w psys, string list option res) prog" where
  "queryListOfVotedFinalityProviders C b = memoP
     (\<lambda>s. gm_get (votedFpPksCache (prov s)) (BlockHash b))
     (\<lambda>pks. on_prov (\<lambda>p. p\<lparr>votedFpPksCache := cache_put (votedFpPksCache p) (BlockHash b) pks\<rparr>))
     (extP (cwQueryListOfVotedFinalityProviders C b))"

definition getBlockHeightByTimestamp :: "'w clients \<Rightarrow> l2block \<Rightarrow> ('w psys, u32 res) prog" where
  "getBlockHeightByTimestamp C b = memoP
     (\<lambda>s. gm_get (btcblockHeightCache (prov s)) (BlockHash b))
     (\<lambda>h. on_prov (\<lambda>p. p\<lparr>btcblockHeightCache := cache_put (btcblockHeightCache p) (BlockHash b) h\<rparr>))
     (tryP ''GetBlockHeightByTimestamp''
        (extP (btcGetBlockHeightByTimestamp C (BlockTimestamp b))) (\<lambda>h. Ret (Inr h)))"

definition QueryEarliestActiveDelBtcHeight :: "'w clients \<Rightarrow> string list \<Rightarrow> ('w psys, u32 res) prog" where
  "QueryEarliestActiveDelBtcHeight C pks = memoP
     (\<lambda>s. gm_get (earliestActiveDelBtcHeightCache (prov s)) (join pks '',''))
     (\<lambda>h. on_prov (\<lambda>p. p\<lparr>earliestActiveDelBtcHeightCache :=
        cache_put (earliestActiveDelBtcHeightCache p) (join pks '','') h\<rparr>))
     (tryP ''QueryEarliestActiveDelBtcHeight''
        (extP (bbnQueryEarliestActiveDelBtcHeight C pks)) (\<lambda>h. Ret (Inr h)))"

definition queryMultiFpPower :: "'w clients \<Rightarrow> string list \<Rightarrow> u32 \<Rightarrow> ('w psys, powers res) prog" where
  "queryMultiFpPower C pks btcHeight = memoP
     (\<lambda>s. gm_get (multiFpPowerCache (prov s)) btcHeight)
     (\<lambda>m. on_prov (\<lambda>p. p\<lparr>multiFpPowerCache := cache_put (multiFpPowerCache p) btcHeight m\<rparr>))
     (tryP ''QueryMultiFpPower''
        (extP (bbnQueryMultiFpPower C pks btcHeight)) (\<lambda>m. Ret (Inr m)))"

definition queryAllPkPower :: "'w clients \<Rightarrow> l2block \<Rightarrow> ('w psys, powers res) prog" where
  "queryAllPkPower C b =
     tryP ''queryAllFpBtcPubKeys'' (queryAllFpBtcPubKeys C) (\<lambda>allFpPks.
     tryP ''GetBlockHeightByTimestamp'' (getBlockHeightByTimestamp C b) (\<lambda>btcblockHeight.
     tryP ''QueryMultiFpPower'' (queryMultiFpPower C allFpPks btcblockHeight) (\<lambda>allFpPower.
     Ret (Inr allFpPower))))"

subsection \<open>Is a block finalized\<close>

text \<open>
  The decision on a block whose hash has lost its \<open>0x\<close> prefix; the exported method trims the
  hash of the caller's block in place, so it returns that block as well.
\<close>

definition decide_block :: "'w clients \<Rightarrow> l2block \<Rightarrow> ('w psys, bool res) prog" where
  "decide_block C b =
     tryP ''QueryMultiFpPower'' (queryAllPkPower C b) (\<lambda>allFpPower.
     if total_power allFpPower = 0 then Ret (Inr True)
     else tryP ''QueryListOfVotedFinalityProviders'' (queryListOfVotedFinalityProviders C b) (\<lambda>votedFpPks.
       case votedFpPks of
         None \<Rightarrow> Ret (Inr False)
       | Some pks \<Rightarrow> Ret (Inr (quorum_reached (voted_power allFpPower pks) (total_power allFpPower)))))"

definition trim_hash :: "l2block \<Rightarrow> l2block" where
  "trim_hash b = b\<lparr>BlockHash := trim_prefix (BlockHash b) ''0x''\<rparr>"

definition QueryIsBlockBabylonFinalizedFromBabylon ::
  "'w clients \<Rightarrow> l2block option \<Rightarrow> ('w psys, bool res \<times> l2block option) prog" where
  "QueryIsBlockBabylonFinalizedFromBabylon C block = (case block of
      None \<Rightarrow> Ret (Inl (EText ''block is nil''), None)
    | Some b \<Rightarrow> bindP (decide_block C (trim_hash b)) (\<lambda>r. Ret (r, Some (trim_hash b))))"

definition block_of :: "eth_block \<Rightarrow> l2block" where
  "block_of blk = \<lparr>BlockHash = eth_hash blk, BlockTimestamp = eth_time blk, BlockHeight = eth_number blk\<rparr>"

definition queryFinalizedBlockInBabylonByNumber :: "'w clients \<Rightarrow> u64 \<Rightarrow> ('w psys, bool res) prog" where
  "queryFinalizedBlockInBabylonByNumber C height =
     bindP (readP (\<lambda>s. gm_get (finalizedCache (prov s)) height \<noteq> None)) (\<lambda>useCache.
     if useCache then Ret (Inr True)
     else tryP (''QueryBlock failed: '' @ show_u64 height) (blockByNumber C height) (\<lambda>blk.
       tryP (''QueryIsBlockBabylonFinalizedFromBabylon failed: '' @ show_u64 height)
         (bindP (QueryIsBlockBabylonFinalizedFromBabylon C (Some (block_of blk))) (\<lambda>rb. Ret (fst rb)))
         (\<lambda>isFinalized.
       if isFinalized then
         bindP (modifyP (on_prov (\<lambda>p. p\<lparr>finalizedCache := cache_put (finalizedCache p) height True\<rparr>)))
           (\<lambda>_. Ret (Inr True))
       else Ret (Inr False))))"

end
