(* ===== verification/FinalitySearch.thy ===== *)
theory FinalitySearch
  imports Provider
begin

text \<open>
  The search for the finalized head: the binary search
  \<open>queryFinalizedBlockInBabylonFromTo\<close> and \<open>QueryFinalizedBlockInBabylon\<close> around it.
  The binary search takes its two callees as arguments, so that its correctness is proved against
  the contract \<open>finality_oracle\<close> of those callees. It may not return when
  \<open>from + to + 1\<close> wraps, so it has fuel, and running out is \<open>None\<close>.
\<close>

definition FastCheckNumberCount :: u64 where
  "FastCheckNumberCount = 256"

text \<open>The message of the wrapped error when a height cannot be queried.\<close>

definition query_failed :: "u64 \<Rightarrow> string" where
  "query_failed number = ''queryFinalizedBlockInBabylonByNumber failed: '' @ show_u64 number"

fun from_to ::
  "(u64 \<Rightarrow> ('s, bool res) prog) \<Rightarrow> (u64 \<Rightarrow> ('s, unit) prog) \<Rightarrow> nat \<Rightarrow> u64 \<Rightarrow> u64 \<Rightarrow> ('s, u64 res option) prog" where
  "from_to byNumber setLast 0 a b = Ret None"
| "from_to byNumber setLast (Suc fuel) a b =
     (let lo = (if a > b then b else a); hi = (if a > b then a else b) in
      if lo = hi then Ret (Some (Inr hi))
      else if lo + 1 = hi then Ret (Some (Inr lo))
      else let check = (lo + hi + 1) div 2 in
        bindP (byNumber check) (\<lambda>r. case r of
          Inl e \<Rightarrow> Ret (Some (Inl (EWrap (query_failed check) e)))
        | Inr isFinalized \<Rightarrow>
            if isFinalized then
              bindP (setLast (check - 1)) (\<lambda>_. from_to byNumber setLast fuel check hi)
            else from_to byNumber setLast fuel lo check))"

declare from_to.simps [simp del]

definition queryFinalizedBlockInBabylonFromTo ::
  "nat \<Rightarrow> 'w clients \<Rightarrow> u64 \<Rightarrow> u64 \<Rightarrow> ('w psys, u64 res option) prog" where
  "queryFinalizedBlockInBabylonFromTo fuel C a b =
     from_to (queryFinalizedBlockInBabylonByNumber C) SetLastFinalized fuel a b"

text \<open>The steps of \<open>QueryFinalizedBlockInBabylon\<close> before the binary search.\<close>

definition try_newest :: "'w clients \<Rightarrow> u64 \<Rightarrow> ('w psys, bool) prog" where
  "try_newest C currentNumber =
     (if currentNumber > 1 then
        bindP (queryFinalizedBlockInBabylonByNumber C (currentNumber - 1)) (\<lambda>r. Ret (r = Inr True))
      else Ret False)"

definition step_query :: "'w clients \<Rightarrow> u64 \<Rightarrow> (bool \<Rightarrow> ('w psys, 'b res) prog) \<Rightarrow> ('w psys, 'b res) prog" where
  "step_query C number k =
     tryP (query_failed number) (queryFinalizedBlockInBabylonByNumber C number) k"

definition try_recent :: "'w clients \<Rightarrow> u64 \<Rightarrow> u64 \<Rightarrow> ('w psys, u64 res) prog" where
  "try_recent C currentNumber fromBlockHeight =
     (if currentNumber > FastCheckNumberCount then
        let checkNumber = currentNumber - FastCheckNumberCount in
        if checkNumber > fromBlockHeight then
          step_query C checkNumber (\<lambda>isFinalized.
            Ret (Inr (if isFinalized then checkNumber else fromBlockHeight)))
        else Ret (Inr fromBlockHeight)
      else Ret (Inr fromBlockHeight))"

definition try_next :: "'w clients \<Rightarrow> u64 \<Rightarrow> u64 \<Rightarrow> ('w psys, u64 res) prog" where
  "try_next C currentNumber fromBlockHeight =
     (let tryEndBlockHeight = fromBlockHeight + 1 in
      if tryEndBlockHeight < currentNumber then
        step_query C tryEndBlockHeight (\<lambda>isFinalized.
          Ret (Inr (if isFinalized then tryEndBlockHeight else fromBlockHeight)))
      else Ret (Inr fromBlockHeight))"

definition search_and_set :: "nat \<Rightarrow> 'w clients \<Rightarrow> u64 \<Rightarrow> u64 \<Rightarrow> ('w psys, u64 res option) prog" where
  "search_and_set fuel C fromBlockHeight currentNumber =
     bindP (queryFinalizedBlockInBabylonFromTo fuel C fromBlockHeight currentNumber) (\<lambda>r. case r of
       Some (Inr res) \<Rightarrow> bindP (SetLastFinalized res) (\<lambda>_. Ret r)
     | _ \<Rightarrow> Ret r)"

definition tryO :: "('s, 'a res) prog \<Rightarrow> ('a \<Rightarrow> ('s, 'b res option) prog) \<Rightarrow> ('s, 'b res option) prog" where
  "tryO p k = bindP p (\<lambda>r. case r of Inl e \<Rightarrow> Ret (Some (Inl e)) | Inr v \<Rightarrow> k v)"

definition search_from :: "nat \<Rightarrow> 'w clients \<Rightarrow> u64 \<Rightarrow> u64 \<Rightarrow> ('w psys, u64 res option) prog" where
  "search_from fuel C currentNumber fromBlockHeight =
     bindP (try_newest C currentNumber) (\<lambda>newest.
     if newest then Ret (Some (Inr (currentNumber - 1)))
     else tryO (try_recent C currentNumber fromBlockHeight) (\<lambda>from1.
       if from1 + 1 = currentNumber then
         tryO (step_query C currentNumber (\<lambda>isFinalized. Ret (Inr isFinalized))) (\<lambda>isFinalized.
           Ret (Some (Inr (if isFinalized then currentNumber else from1))))
       else tryO (try_next C currentNumber from1) (\<lambda>from2.
         search_and_set fuel C from2 currentNumber)))"

definition QueryFinalizedBlockInBabylon :: "nat \<Rightarrow> 'w clients \<Rightarrow> ('w psys, u64 res option) prog" where
  "QueryFinalizedBlockInBabylon fuel C =
     tryO (tryP ''failed to got blockNumber'' (extP (ethBlockNumber C)) (\<lambda>n. Ret (Inr n))) (\<lambda>currentNumber.
     bindP GetLastFinalized (\<lambda>lastFinalized.
       let fromBlockHeight = (if lastFinalized = 0 then 1 else lastFinalized) in
       if currentNumber = fromBlockHeight then Ret (Some (Inr currentNumber))
       else search_from fuel C currentNumber fromBlockHeight))"

end
