(* ===== verification/ProviderInvariants.thy ===== *)
theory ProviderInvariants
  imports FinalitySearch
begin

text \<open>
  What every handler of the provider keeps, whatever the clients answer and however the
  goroutines interleave. The locale \<open>stored_shape\<close> is the contract of a predicate on the
  provider that every write of the code keeps; inside it \<open>tame\<close> is proved of each query, by
  intro steps that follow the code's combinators. Its two interpretations: no cache grows past its
  bound, and the finalized cache holds only true. The last finalized height never goes down.
\<close>

definition caches_bounded :: "provider \<Rightarrow> bool" where
  "caches_bounded p =
     (gm_len (votedFpPksCache p) \<le> Suc CacheMapCount \<and>
      gm_len (finalizedCache p) \<le> Suc CacheMapCount \<and>
      gm_len (btcblockHeightCache p) \<le> Suc CacheMapCount \<and>
      gm_len (earliestActiveDelBtcHeightCache p) \<le> Suc CacheMapCount \<and>
      gm_len (multiFpPowerCache p) \<le> Suc CacheMapCount \<and>
      gm_len (l2BlockCache p) \<le> Suc CacheMapCount)"

definition bounded_inv :: "'w psys \<Rightarrow> bool" where
  "bounded_inv s = caches_bounded (prov s)"

definition grows :: "'w psys \<Rightarrow> 'w psys \<Rightarrow> bool" where
  "grows s t = (lastFinalizedHeight (prov s) \<le> lastFinalizedHeight (prov t))"

lemma grows_refl [simp]: "grows s s"
  by (simp add: grows_def)

lemma grows_reflp: "reflp grows" and grows_transp: "transp grows"
  by (auto simp: grows_def intro!: reflpI transpI)

lemma caches_bounded_new [simp]: "caches_bounded newProvider"
  by (simp add: caches_bounded_def newProvider_def)

text \<open>The finalized cache is read by the presence of a key alone; what it holds is never false.\<close>

definition marks_final :: "provider \<Rightarrow> bool" where
  "marks_final p = cache_ok (\<lambda>_ b. b) (finalizedCache p)"

lemma marks_final_new [simp]: "marks_final newProvider"
  by (simp add: marks_final_def newProvider_def)

lemma grows_world [simp]: "grows s (s\<lparr>world := w\<rparr>)"
  by (simp add: grows_def)

lemma grows_on_prov: "lastFinalizedHeight (prov s) \<le> lastFinalizedHeight (f (prov s)) \<Longrightarrow> grows s (on_prov f s)"
  by (simp add: grows_def)

text \<open>No query writes the last finalized height; only the search around it does.\<close>

definition keeps_last :: "'w psys \<Rightarrow> 'w psys \<Rightarrow> bool" where
  "keeps_last s t = (lastFinalizedHeight (prov t) = lastFinalizedHeight (prov s))"

lemma keeps_last_refl [simp]: "keeps_last s s"
  by (simp add: keeps_last_def)

lemma keeps_last_world [simp]: "keeps_last s (s\<lparr>world := w\<rparr>)"
  by (simp add: keeps_last_def)

named_theorems tame_rules

text \<open>
  \<open>tame ok G p\<close>: \<open>p\<close> keeps \<open>ok\<close> of the provider and each of its sections is related by \<open>G\<close>.
  The queries are tame for any \<open>G\<close> that allows all changes but those of the last finalized
  height, \<open>keeps_last\<close> being the smallest; the search is tame for \<open>grows\<close>.
\<close>

definition allows_frame :: "('w psys \<Rightarrow> 'w psys \<Rightarrow> bool) \<Rightarrow> bool" where
  "allows_frame G = (\<forall>s t. keeps_last s t \<longrightarrow> G s t)"

lemma allows_frame_keeps_last [tame_rules]: "allows_frame keeps_last"
  and allows_frame_grows [tame_rules]: "allows_frame grows"
  by (simp_all add: allows_frame_def keeps_last_def grows_def)

definition tame :: "(provider \<Rightarrow> bool) \<Rightarrow> ('w psys \<Rightarrow> 'w psys \<Rightarrow> bool) \<Rightarrow> ('w psys, 'a) prog \<Rightarrow> bool" where
  "tame ok G p = safe (\<lambda>s. ok (prov s)) G (\<lambda>_. True) p"

lemma tame_Ret [tame_rules]: "tame ok G (Ret a)"
  by (simp add: tame_def)

lemma tame_bindP [tame_rules]: "tame ok G p \<Longrightarrow> (\<And>a. tame ok G (k a)) \<Longrightarrow> tame ok G (bindP p k)"
  unfolding tame_def by (rule safe_bindP)

lemma tame_readP [tame_rules]: "allows_frame G \<Longrightarrow> tame ok G (readP f)"
  by (simp add: tame_def readP_def allows_frame_def)

lemma tame_extP [tame_rules]: "allows_frame G \<Longrightarrow> tame ok G (extP f)"
  unfolding tame_def extP_def
  by (rule safe_actP) (auto simp: allows_frame_def split: prod.splits)

lemma tame_tryP [tame_rules]: "tame ok G p \<Longrightarrow> (\<And>v. tame ok G (k v)) \<Longrightarrow> tame ok G (tryP m p k)"
  unfolding tame_def by (rule safe_tryP) auto

lemma tame_tryP_raw [tame_rules]: "tame ok G p \<Longrightarrow> (\<And>v. tame ok G (k v)) \<Longrightarrow> tame ok G (tryP_raw p k)"
  unfolding tame_def by (rule safe_tryP_raw) auto

lemma tame_tryO [tame_rules]: "tame ok G p \<Longrightarrow> (\<And>v. tame ok G (k v)) \<Longrightarrow> tame ok G (tryO p k)"
  unfolding tryO_def by (intro tame_rules) (auto intro: tame_rules split: sum.splits)

lemma tame_store:
  assumes "allows_frame G" "\<And>p. ok p \<Longrightarrow> ok (f p)"
    and "\<And>p. lastFinalizedHeight (f p) = lastFinalizedHeight p"
  shows "tame ok G (modifyP (on_prov f))"
  unfolding tame_def
  by (rule safe_modifyP) (use assms(1) in \<open>auto simp: allows_frame_def keeps_last_def assms(2,3)\<close>)

lemma tame_memoP:
  assumes "allows_frame G" "tame ok G call"
    and "\<And>v p. ok p \<Longrightarrow> ok (f v p)"
    and "\<And>v p. lastFinalizedHeight (f v p) = lastFinalizedHeight p"
  shows "tame ok G (memoP look (\<lambda>v. on_prov (f v)) call)"
  unfolding memoP_def
  by (intro tame_rules) (auto intro!: tame_rules tame_store assms split: option.splits)

lemma tame_GetLastFinalized [tame_rules]: "tame ok grows GetLastFinalized"
  unfolding GetLastFinalized_def by (intro tame_rules)

subsection \<open>What every write keeps\<close>

locale stored_shape =
  fixes ok :: "provider \<Rightarrow> bool"
  assumes ok_last: "ok p \<Longrightarrow> ok (p\<lparr>lastFinalizedHeight := h\<rparr>)"
    and ok_fps: "ok p \<Longrightarrow> ok (p\<lparr>allFpsCache := pks, allFpsCacheLastTime := t\<rparr>)"
    and ok_voted: "ok p \<Longrightarrow> ok (p\<lparr>votedFpPksCache := cache_put (votedFpPksCache p) k v\<rparr>)"
    and ok_final: "ok p \<Longrightarrow> ok (p\<lparr>finalizedCache := cache_put (finalizedCache p) h True\<rparr>)"
    and ok_btc: "ok p \<Longrightarrow> ok (p\<lparr>btcblockHeightCache := cache_put (btcblockHeightCache p) k b\<rparr>)"
    and ok_earliest: "ok p \<Longrightarrow> ok (p\<lparr>earliestActiveDelBtcHeightCache := cache_put (earliestActiveDelBtcHeightCache p) k b\<rparr>)"
    and ok_power: "ok p \<Longrightarrow> ok (p\<lparr>multiFpPowerCache := cache_put (multiFpPowerCache p) b m\<rparr>)"
    and ok_block: "ok p \<Longrightarrow> ok (p\<lparr>l2BlockCache := cache_put (l2BlockCache p) h blk\<rparr>)"
begin

lemma ok_set_last: "ok p \<Longrightarrow> ok (set_last h p)"
  by (simp add: set_last_def ok_last)

lemma tame_SetLastFinalized [tame_rules]: "tame ok grows (SetLastFinalized h)"
  unfolding tame_def SetLastFinalized_def
  by (rule safe_modifyP) (auto simp: grows_def last_final.get_grows ok_set_last)


lemma tame_blockByNumber [tame_rules]: "allows_frame G \<Longrightarrow> tame ok G (blockByNumber C n)"
  unfolding blockByNumber_def
  by (rule tame_memoP) (auto intro!: tame_rules simp: ok_block)

lemma tame_queryListOfVoted [tame_rules]: "allows_frame G \<Longrightarrow> tame ok G (queryListOfVotedFinalityProviders C b)"
  unfolding queryListOfVotedFinalityProviders_def
  by (rule tame_memoP) (auto intro!: tame_rules simp: ok_voted)

lemma tame_getBlockHeight [tame_rules]: "allows_frame G \<Longrightarrow> tame ok G (getBlockHeightByTimestamp C b)"
  unfolding getBlockHeightByTimestamp_def
  by (rule tame_memoP) (auto intro!: tame_rules simp: ok_btc)

lemma tame_QueryEarliest [tame_rules]: "allows_frame G \<Longrightarrow> tame ok G (QueryEarliestActiveDelBtcHeight C pks)"
  unfolding QueryEarliestActiveDelBtcHeight_def
  by (rule tame_memoP) (auto intro!: tame_rules simp: ok_earliest)

lemma tame_queryMultiFpPower [tame_rules]: "allows_frame G \<Longrightarrow> tame ok G (queryMultiFpPower C pks h)"
  unfolding queryMultiFpPower_def
  by (rule tame_memoP) (auto intro!: tame_rules simp: ok_power)

lemma tame_fps_lookup [tame_rules]: "allows_frame G \<Longrightarrow> tame ok G (actP (fps_lookup C))"
  unfolding tame_def
  by (rule safe_actP) (auto simp: allows_frame_def fps_lookup_def split: prod.splits)

lemma tame_fps_store [tame_rules]: "allows_frame G \<Longrightarrow> tame ok G (actP (fps_store C pks))"
  unfolding tame_def
  by (rule safe_actP)
    (auto simp: allows_frame_def keeps_last_def fps_store_def ok_fps split: prod.splits)

lemma tame_queryAllFps [tame_rules]: "allows_frame G \<Longrightarrow> tame ok G (queryAllFpBtcPubKeys C)"
  unfolding queryAllFpBtcPubKeys_def
  by (intro tame_rules) (auto intro!: tame_rules split: option.splits)

lemma tame_queryAllPkPower [tame_rules]: "allows_frame G \<Longrightarrow> tame ok G (queryAllPkPower C b)"
  unfolding queryAllPkPower_def by (intro tame_rules)

lemma tame_decide_block [tame_rules]: "allows_frame G \<Longrightarrow> tame ok G (decide_block C b)"
  unfolding decide_block_def
  by (intro tame_rules) (auto intro!: tame_rules split: option.splits)

lemma tame_QueryIsBlock [tame_rules]: "allows_frame G \<Longrightarrow> tame ok G (QueryIsBlockBabylonFinalizedFromBabylon C b)"
  unfolding QueryIsBlockBabylonFinalizedFromBabylon_def
  by (auto intro!: tame_rules split: option.splits)

lemma tame_store_final [tame_rules]:
  "allows_frame G \<Longrightarrow> tame ok G (modifyP (on_prov (\<lambda>p. p\<lparr>finalizedCache := cache_put (finalizedCache p) h True\<rparr>)))"
  by (rule tame_store) (auto simp: ok_final)

lemma tame_byNumber [tame_rules]: "allows_frame G \<Longrightarrow> tame ok G (queryFinalizedBlockInBabylonByNumber C h)"
  unfolding queryFinalizedBlockInBabylonByNumber_def
  by (intro tame_rules) (auto intro!: tame_rules)

lemma tame_from_to [tame_rules]:
  "tame ok grows (from_to (queryFinalizedBlockInBabylonByNumber C) SetLastFinalized fuel a b)"
proof (induction fuel arbitrary: a b)
  case 0
  then show ?case by (simp add: from_to.simps tame_rules)
next
  case (Suc fuel)
  then show ?case
    by (auto simp: from_to.simps Let_def intro!: tame_rules split: sum.splits)
qed

lemma tame_step_query [tame_rules]: "(\<And>b. tame ok grows (k b)) \<Longrightarrow> tame ok grows (step_query C n k)"
  unfolding step_query_def by (intro tame_rules)

lemma tame_search [tame_rules]: "tame ok grows (search_from fuel C cur start)"
  unfolding search_from_def try_newest_def try_recent_def try_next_def search_and_set_def
    queryFinalizedBlockInBabylonFromTo_def Let_def
  by (auto intro!: tame_rules split: option.splits sum.splits)

lemma tame_QueryFinalizedBlock: "tame ok grows (QueryFinalizedBlockInBabylon fuel C)"
  unfolding QueryFinalizedBlockInBabylon_def Let_def
  by (intro tame_rules) (auto intro!: tame_rules)

text \<open>A pool of tame goroutines.\<close>

lemma tame_pool:
  assumes "\<forall>p \<in> set ps. tame ok grows p" "ok (prov s)" "pool_steps (s, ps) (t, qs)"
  shows "ok (prov t) \<and> lastFinalizedHeight (prov s) \<le> lastFinalizedHeight (prov t)"
  using pool_steps_safe [OF assms(3) _ grows_reflp grows_transp, where I = "\<lambda>s. ok (prov s)" and Q = "\<lambda>_. True"] assms(1,2)
  by (simp add: pool_safe_def tame_def grows_def)

end

interpretation bounded: stored_shape caches_bounded
  by unfold_locales (auto simp: caches_bounded_def cache.size_put)

interpretation marked: stored_shape marks_final
  by unfold_locales (auto simp: marks_final_def cache_ok_put)

end
