(* ===== verification/ProviderCoherence.thy ===== *)
theory ProviderCoherence
  imports ProviderInvariants
begin

text \<open>
  The specification of a finality query, and the refinement that the cached, interleaved queries
  of the provider meet it. The specification \<open>ref_final\<close> is a function of what the external
  services answer; it has no state, no cache and no clock. \<open>steady C W A\<close> says that in every
  world of \<open>W\<close> the clients \<open>C\<close> answer as \<open>A\<close>, while the head of the chain and the
  clock may move. \<open>coherent W A\<close> says that every cache entry is an answer of \<open>A\<close>.
\<close>

record answers =
  aBlock :: "int \<Rightarrow> eth_block res"
  aHeight :: "u64 \<Rightarrow> u32 res"
  aConsumer :: "string res"
  aKeys :: "string \<Rightarrow> string list res"
  aPower :: "string list \<Rightarrow> u32 \<Rightarrow> powers res"
  aVoted :: "l2block \<Rightarrow> string list option res"

subsection \<open>The reference\<close>

definition block_decision :: "powers \<Rightarrow> string list option \<Rightarrow> bool" where
  "block_decision pow votes = (case votes of
      None \<Rightarrow> False
    | Some pks \<Rightarrow> quorum_reached (voted_power pow pks) (total_power pow))"

definition ref_keys :: "answers \<Rightarrow> string list res" where
  "ref_keys A = rbind (aConsumer A) (aKeys A)"

definition ref_powers :: "answers \<Rightarrow> l2block \<Rightarrow> powers res" where
  "ref_powers A b = rbind (ref_keys A) (\<lambda>pks. rbind (aHeight A (BlockTimestamp b)) (aPower A pks))"

definition ref_block :: "answers \<Rightarrow> l2block \<Rightarrow> bool res" where
  "ref_block A b = rbind (ref_powers A b) (\<lambda>pow.
     if total_power pow = 0 then Inr True
     else rbind (aVoted A b) (\<lambda>votes. Inr (block_decision pow votes)))"

definition ref_final :: "answers \<Rightarrow> u64 \<Rightarrow> bool res" where
  "ref_final A h = rbind (aBlock A (sint h)) (\<lambda>e. ref_block A (trim_hash (block_of e)))"

definition final_at :: "answers \<Rightarrow> u64 \<Rightarrow> bool" where
  "final_at A h = (ref_final A h = Inr True)"

text \<open>A result agrees with the reference: the same value, or both an error.\<close>

definition agrees :: "'a res \<Rightarrow> 'a res \<Rightarrow> bool" where
  "agrees r x = (case r of Inl _ \<Rightarrow> \<not> is_ok x | Inr v \<Rightarrow> x = Inr v)"

lemma agrees_simps [simp]: "agrees (Inl e) x = (\<not> is_ok x)" "agrees (Inr v) x = (x = Inr v)"
  by (simp_all add: agrees_def)

lemma agrees_refl [simp]: "agrees x x"
  by (cases x) auto

subsection \<open>Steady services\<close>

definition answers_as :: "'w clients \<Rightarrow> ('w \<Rightarrow> bool) \<Rightarrow> answers \<Rightarrow> bool" where
  "answers_as C W A = (\<forall>w. W w \<longrightarrow>
     W (snd (ethBlockNumber C w)) \<and> W (snd (timeNow C w)) \<and>
     (\<forall>n. fst (ethBlockByNumber C n w) = aBlock A n \<and> W (snd (ethBlockByNumber C n w))) \<and>
     (\<forall>t. fst (btcGetBlockHeightByTimestamp C t w) = aHeight A t \<and> W (snd (btcGetBlockHeightByTimestamp C t w))) \<and>
     (fst (cwQueryConsumerId C w) = aConsumer A \<and> W (snd (cwQueryConsumerId C w))) \<and>
     (\<forall>i. fst (bbnQueryAllFpBtcPubKeys C i w) = aKeys A i \<and> W (snd (bbnQueryAllFpBtcPubKeys C i w))) \<and>
     (\<forall>ks h. fst (bbnQueryMultiFpPower C ks h w) = aPower A ks h \<and> W (snd (bbnQueryMultiFpPower C ks h w))) \<and>
     (\<forall>b. fst (cwQueryListOfVotedFinalityProviders C b w) = aVoted A b \<and>
          W (snd (cwQueryListOfVotedFinalityProviders C b w))))"

text \<open>A block hash names one block.\<close>

definition chain_block :: "answers \<Rightarrow> l2block \<Rightarrow> bool" where
  "chain_block A b = (\<exists>n e. aBlock A n = Inr e \<and> b = trim_hash (block_of e))"

definition hash_unique :: "answers \<Rightarrow> bool" where
  "hash_unique A = (\<forall>b c. chain_block A b \<longrightarrow> chain_block A c \<longrightarrow> BlockHash b = BlockHash c \<longrightarrow> b = c)"

definition steady :: "'w clients \<Rightarrow> ('w \<Rightarrow> bool) \<Rightarrow> answers \<Rightarrow> bool" where
  "steady C W A = (answers_as C W A \<and> hash_unique A)"

definition last_sound :: "answers \<Rightarrow> provider \<Rightarrow> bool" where
  "last_sound A p = (lastFinalizedHeight p \<le> 1 \<or> final_at A (lastFinalizedHeight p))"

definition caches_agree :: "answers \<Rightarrow> provider \<Rightarrow> bool" where
  "caches_agree A p =
     ((allFpsCache p \<noteq> [] \<longrightarrow> ref_keys A = Inr (allFpsCache p)) \<and>
      cache_ok (\<lambda>n blk. aBlock A (sint n) = Inr blk) (l2BlockCache p) \<and>
      cache_ok (\<lambda>h v. \<forall>b. chain_block A b \<longrightarrow> BlockHash b = h \<longrightarrow> aVoted A b = Inr v) (votedFpPksCache p) \<and>
      cache_ok (\<lambda>h v. \<forall>b. chain_block A b \<longrightarrow> BlockHash b = h \<longrightarrow> aHeight A (BlockTimestamp b) = Inr v)
        (btcblockHeightCache p) \<and>
      cache_ok (\<lambda>h m. \<forall>pks. ref_keys A = Inr pks \<longrightarrow> aPower A pks h = Inr m) (multiFpPowerCache p) \<and>
      cache_ok (\<lambda>h _. final_at A h) (finalizedCache p))"

definition coherent :: "('w \<Rightarrow> bool) \<Rightarrow> answers \<Rightarrow> 'w psys \<Rightarrow> bool" where
  "coherent W A s = (W (world s) \<and> caches_agree A (prov s) \<and> last_sound A (prov s))"

lemma caches_agree_new [simp]: "caches_agree A newProvider"
  by (simp add: caches_agree_def newProvider_def)

lemma last_sound_new [simp]: "last_sound A newProvider"
  by (simp add: last_sound_def newProvider_def)

lemma coherent_world: "coherent W A s \<Longrightarrow> W w \<Longrightarrow> coherent W A (s\<lparr>world := w\<rparr>)"
  by (simp add: coherent_def)

lemma coherent_store:
  assumes "coherent W A s" "\<And>p. last_sound A (f p) = last_sound A p" "caches_agree A (f (prov s))"
  shows "coherent W A (on_prov f s)"
  using assms by (simp add: coherent_def)

subsection \<open>Rules of the refinement\<close>

text \<open>\<open>refines C W A x p\<close>: started coherent, \<open>p\<close> stays coherent and returns what
  agrees with \<open>x\<close>.\<close>

definition refines :: "('w \<Rightarrow> bool) \<Rightarrow> answers \<Rightarrow> 'a res \<Rightarrow> ('w psys, 'a res) prog \<Rightarrow> bool" where
  "refines W A x p = safe (coherent W A) keeps_last (\<lambda>r. agrees r x) p"

named_theorems refine_rules

lemma refines_Ret [refine_rules]: "agrees r x \<Longrightarrow> refines W A x (Ret r)"
  by (simp add: refines_def)

lemma refines_tryP [refine_rules]:
  assumes "refines W A x p" "\<And>v. x = Inr v \<Longrightarrow> refines W A (f v) (k v)"
  shows "refines W A (rbind x f) (tryP m p k)"
  using assms unfolding refines_def
  by (intro safe_tryP [where R = "\<lambda>r. agrees r x"]) (auto simp: is_ok_iff rbind_Inr_iff)

lemma refines_tryP_raw:
  assumes "refines W A x p" "\<And>v. x = Inr v \<Longrightarrow> refines W A (f v) (k v)"
  shows "refines W A (rbind x f) (tryP_raw p k)"
  using assms unfolding refines_def
  by (intro safe_tryP_raw [where R = "\<lambda>r. agrees r x"]) (auto simp: is_ok_iff rbind_Inr_iff)

lemma refines_tryP_last:
  "refines W A x p \<Longrightarrow> (\<And>v. x = Inr v \<Longrightarrow> refines W A x (k v)) \<Longrightarrow> refines W A x (tryP m p k)"
  by (cases x) (auto simp: refines_def intro!: safe_tryP [where R = "\<lambda>r. agrees r x"])

lemma refines_extP:
  assumes "\<And>w. W w \<Longrightarrow> fst (f w) = x \<and> W (snd (f w))"
  shows "refines W A x (extP f)"
  unfolding refines_def extP_def
proof (rule safe_actP)
  fix s :: "'a psys"
  assume s: "coherent W A s"
  then have "fst (f (world s)) = x \<and> W (snd (f (world s)))"
    by (intro assms) (simp add: coherent_def)
  with s show "coherent W A (snd (case f (world s) of (a, w) \<Rightarrow> (a, s\<lparr>world := w\<rparr>))) \<and>
      keeps_last s (snd (case f (world s) of (a, w) \<Rightarrow> (a, s\<lparr>world := w\<rparr>))) \<and>
      agrees (fst (case f (world s) of (a, w) \<Rightarrow> (a, s\<lparr>world := w\<rparr>))) x"
    by (auto simp: coherent_world split: prod.splits)
qed

lemma refines_memoP:
  assumes "\<And>s v. coherent W A s \<Longrightarrow> look s = Some v \<Longrightarrow> x = Inr v"
    and "refines W A x call"
    and "\<And>p v. caches_agree A p \<Longrightarrow> x = Inr v \<Longrightarrow> caches_agree A (f v p)"
    and "\<And>p v. lastFinalizedHeight (f v p) = lastFinalizedHeight p"
  shows "refines W A x (memoP look (\<lambda>v. on_prov (f v)) call)"
  unfolding refines_def
proof (rule safe_memoP)
  show "safe (coherent W A) keeps_last (\<lambda>r. agrees r x) call"
    using assms(2) by (simp add: refines_def)
next
  fix s v assume "coherent W A s" "agrees (Inr v) x"
  then show "coherent W A (on_prov (f v) s) \<and> keeps_last s (on_prov (f v) s)"
    using assms(3,4) by (auto simp: coherent_def last_sound_def keeps_last_def)
qed (use assms(1) in auto)

subsection \<open>The queries refine the reference\<close>

lemma steadyD:
  assumes "steady C W A" "W w"
  shows "W (snd (ethBlockNumber C w))" "W (snd (timeNow C w))"
    "fst (ethBlockByNumber C n w) = aBlock A n \<and> W (snd (ethBlockByNumber C n w))"
    "fst (btcGetBlockHeightByTimestamp C t w) = aHeight A t \<and> W (snd (btcGetBlockHeightByTimestamp C t w))"
    "fst (cwQueryConsumerId C w) = aConsumer A \<and> W (snd (cwQueryConsumerId C w))"
    "fst (bbnQueryAllFpBtcPubKeys C i w) = aKeys A i \<and> W (snd (bbnQueryAllFpBtcPubKeys C i w))"
    "fst (bbnQueryMultiFpPower C ks h w) = aPower A ks h \<and> W (snd (bbnQueryMultiFpPower C ks h w))"
    "fst (cwQueryListOfVotedFinalityProviders C b w) = aVoted A b \<and>
       W (snd (cwQueryListOfVotedFinalityProviders C b w))"
  using assms by (auto simp: steady_def answers_as_def)

lemma hash_uniqueD: "steady C W A \<Longrightarrow> chain_block A b \<Longrightarrow> chain_block A c \<Longrightarrow> BlockHash b = BlockHash c \<Longrightarrow> b = c"
  by (simp add: steady_def hash_unique_def)

lemma refines_blockByNumber:
  assumes "steady C W A"
  shows "refines W A (aBlock A (sint n)) (blockByNumber C n)"
  unfolding blockByNumber_def
proof (rule refines_memoP)
  show "refines W A (aBlock A (sint n))
      (tryP (''QueryBlock failed: '' @ show_u64 n) (extP (ethBlockByNumber C (sint n))) (\<lambda>blk. Ret (Inr blk)))"
    by (rule refines_tryP_last [OF refines_extP]) (auto simp: steadyD [OF assms] intro: refines_Ret)
qed (auto simp: coherent_def caches_agree_def cache_ok_put dest: cache_okD)

lemma refines_queryListOfVoted:
  assumes "steady C W A" "chain_block A b"
  shows "refines W A (aVoted A b) (queryListOfVotedFinalityProviders C b)"
  unfolding queryListOfVotedFinalityProviders_def
proof (rule refines_memoP)
  show "refines W A (aVoted A b) (extP (cwQueryListOfVotedFinalityProviders C b))"
    by (rule refines_extP) (rule steadyD [OF assms(1)])
next
  fix p v assume p: "caches_agree A p" and v: "aVoted A b = Inr v"
  have "\<forall>c. chain_block A c \<longrightarrow> BlockHash c = BlockHash b \<longrightarrow> aVoted A c = Inr v"
    using hash_uniqueD [OF assms(1) _ assms(2)] v by blast
  with p show "caches_agree A (p\<lparr>votedFpPksCache := cache_put (votedFpPksCache p) (BlockHash b) v\<rparr>)"
    by (simp add: caches_agree_def cache_ok_put)
qed (use assms(2) in \<open>auto simp: coherent_def caches_agree_def dest: cache_okD\<close>)

lemma refines_getBlockHeight:
  assumes "steady C W A" "chain_block A b"
  shows "refines W A (aHeight A (BlockTimestamp b)) (getBlockHeightByTimestamp C b)"
  unfolding getBlockHeightByTimestamp_def
proof (rule refines_memoP)
  show "refines W A (aHeight A (BlockTimestamp b)) (tryP ''GetBlockHeightByTimestamp''
      (extP (btcGetBlockHeightByTimestamp C (BlockTimestamp b))) (\<lambda>h. Ret (Inr h)))"
    by (rule refines_tryP_last [OF refines_extP]) (auto simp: steadyD [OF assms(1)] intro: refines_Ret)
next
  fix p v assume p: "caches_agree A p" and v: "aHeight A (BlockTimestamp b) = Inr v"
  have "\<forall>c. chain_block A c \<longrightarrow> BlockHash c = BlockHash b \<longrightarrow> aHeight A (BlockTimestamp c) = Inr v"
    using hash_uniqueD [OF assms(1) _ assms(2)] v by blast
  with p show "caches_agree A (p\<lparr>btcblockHeightCache := cache_put (btcblockHeightCache p) (BlockHash b) v\<rparr>)"
    by (simp add: caches_agree_def cache_ok_put)
qed (use assms(2) in \<open>auto simp: coherent_def caches_agree_def dest: cache_okD\<close>)

lemma refines_queryMultiFpPower:
  assumes "steady C W A" "ref_keys A = Inr pks"
  shows "refines W A (aPower A pks h) (queryMultiFpPower C pks h)"
  unfolding queryMultiFpPower_def
proof (rule refines_memoP)
  show "refines W A (aPower A pks h) (tryP ''QueryMultiFpPower''
      (extP (bbnQueryMultiFpPower C pks h)) (\<lambda>m. Ret (Inr m)))"
    by (rule refines_tryP_last [OF refines_extP]) (auto simp: steadyD [OF assms(1)] intro: refines_Ret)
qed (use assms(2) in \<open>auto simp: coherent_def caches_agree_def cache_ok_put dest: cache_okD\<close>)

text \<open>The list of finality providers: a fresh cache, or the two calls and a store.\<close>

lemma refines_fps_lookup:
  assumes "steady C W A"
  shows "safe (coherent W A) keeps_last (\<lambda>c. \<forall>pks. c = Some pks \<longrightarrow> ref_keys A = Inr pks) (actP (fps_lookup C))"
proof (rule safe_actP)
  fix s :: "'a psys"
  assume s: "coherent W A s"
  then have w: "W (snd (timeNow C (world s)))"
    by (intro steadyD(2) [OF assms]) (simp add: coherent_def)
  from s have "allFpsCache (prov s) \<noteq> [] \<Longrightarrow> ref_keys A = Inr (allFpsCache (prov s))"
    by (simp add: coherent_def caches_agree_def)
  with s w show "coherent W A (snd (fps_lookup C s)) \<and> keeps_last s (snd (fps_lookup C s)) \<and>
      (\<forall>pks. fst (fps_lookup C s) = Some pks \<longrightarrow> ref_keys A = Inr pks)"
    by (auto simp: fps_lookup_def isTimeNotGreaterThan_def coherent_def split: prod.splits)
qed

lemma refines_fps_store:
  assumes "steady C W A" "ref_keys A = Inr pks"
  shows "safe (coherent W A) keeps_last (\<lambda>_. True) (actP (fps_store C pks))"
proof (rule safe_actP)
  fix s :: "'a psys"
  assume s: "coherent W A s"
  then have w: "W (snd (timeNow C (world s)))"
    by (intro steadyD(2) [OF assms(1)]) (simp add: coherent_def)
  with s assms(2) show "coherent W A (snd (fps_store C pks s)) \<and> keeps_last s (snd (fps_store C pks s)) \<and> True"
    by (auto simp: fps_store_def coherent_def caches_agree_def last_sound_def keeps_last_def split: prod.splits)
qed

lemma refines_queryAllFps:
  assumes "steady C W A"
  shows "refines W A (ref_keys A) (queryAllFpBtcPubKeys C)"
proof -
  have store: "refines W A (Inr pks) (bindP (actP (fps_store C pks)) (\<lambda>_. Ret (Inr pks)))"
    if "ref_keys A = Inr pks" for pks
    unfolding refines_def by (rule safe_bindP [OF refines_fps_store [OF assms that]]) simp
  have fetch: "refines W A (rbind (aConsumer A) (\<lambda>i. rbind (aKeys A i) Inr))
      (tryP_raw (extP (cwQueryConsumerId C)) (\<lambda>consumerId.
       tryP_raw (extP (bbnQueryAllFpBtcPubKeys C consumerId)) (\<lambda>pks.
       bindP (actP (fps_store C pks)) (\<lambda>_. Ret (Inr pks)))))"
    by (intro refines_tryP_raw refines_extP store) (auto simp: steadyD [OF assms] ref_keys_def)
  have keys: "rbind (aConsumer A) (\<lambda>i. rbind (aKeys A i) Inr) = ref_keys A"
    unfolding ref_keys_def by (rule arg_cong [where f = "rbind (aConsumer A)"]) (auto simp: rbind_def split: sum.splits)
  show ?thesis
    unfolding queryAllFpBtcPubKeys_def refines_def
    by (rule safe_bindP [OF refines_fps_lookup [OF assms]])
      (use fetch in \<open>auto simp: keys refines_def split: option.splits\<close>)
qed

lemma refines_queryAllPkPower:
  assumes "steady C W A" "chain_block A b"
  shows "refines W A (ref_powers A b) (queryAllPkPower C b)"
  unfolding queryAllPkPower_def ref_powers_def
  by (intro refines_tryP refines_tryP_last refines_queryAllFps refines_getBlockHeight
      refines_queryMultiFpPower refines_Ret assms) auto

lemma refines_decide_block:
  assumes "steady C W A" "chain_block A b"
  shows "refines W A (ref_block A b) (decide_block C b)"
proof -
  have votes: "refines W A (rbind (aVoted A b) (\<lambda>votes. Inr (block_decision pow votes)))
      (tryP m (queryListOfVotedFinalityProviders C b) (\<lambda>votedFpPks.
       case votedFpPks of None \<Rightarrow> Ret (Inr False)
       | Some pks \<Rightarrow> Ret (Inr (quorum_reached (voted_power pow pks) (total_power pow)))))" for m pow
    by (intro refines_tryP refines_queryListOfVoted assms)
      (auto intro!: refines_Ret simp: block_decision_def split: option.splits)
  show ?thesis
    unfolding decide_block_def ref_block_def
    by (intro refines_tryP refines_queryAllPkPower assms) (auto intro: refines_Ret votes)
qed

lemma refines_byNumber:
  assumes "steady C W A"
  shows "refines W A (ref_final A h) (queryFinalizedBlockInBabylonByNumber C h)"
proof -
  have decide: "refines W A (ref_block A (trim_hash (block_of e)))
      (bindP (QueryIsBlockBabylonFinalizedFromBabylon C (Some (block_of e))) (\<lambda>rb. Ret (fst rb)))"
    if "aBlock A (sint h) = Inr e" for e
  proof -
    have "chain_block A (trim_hash (block_of e))"
      using that by (auto simp: chain_block_def)
    from refines_decide_block [OF assms this] show ?thesis
      by (simp add: QueryIsBlockBabylonFinalizedFromBabylon_def bindP_assoc)
  qed
  have store: "refines W A (ref_final A h)
      (bindP (modifyP (on_prov (\<lambda>p. p\<lparr>finalizedCache := cache_put (finalizedCache p) h True\<rparr>)))
        (\<lambda>_. Ret (Inr True)))" if "final_at A h"
    unfolding refines_def
    by (rule safe_bindP [OF safe_modifyP [where Q = "\<lambda>_. True"]])
      (use that in \<open>auto simp: coherent_def caches_agree_def last_sound_def keeps_last_def cache_ok_put final_at_def\<close>)
  have uncached: "refines W A (ref_final A h)
     (tryP m1 (blockByNumber C h) (\<lambda>blk. tryP m2
         (bindP (QueryIsBlockBabylonFinalizedFromBabylon C (Some (block_of blk))) (\<lambda>rb. Ret (fst rb)))
         (\<lambda>isFinalized. if isFinalized then
            bindP (modifyP (on_prov (\<lambda>p. p\<lparr>finalizedCache := cache_put (finalizedCache p) h True\<rparr>)))
              (\<lambda>_. Ret (Inr True))
          else Ret (Inr False))))" for m1 m2
  proof -
    have "refines W A (ref_block A (trim_hash (block_of e))) (tryP m2
        (bindP (QueryIsBlockBabylonFinalizedFromBabylon C (Some (block_of e))) (\<lambda>rb. Ret (fst rb)))
         (\<lambda>isFinalized. if isFinalized then
            bindP (modifyP (on_prov (\<lambda>p. p\<lparr>finalizedCache := cache_put (finalizedCache p) h True\<rparr>)))
              (\<lambda>_. Ret (Inr True))
          else Ret (Inr False)))" if e: "aBlock A (sint h) = Inr e" for e
      using store e
      by (intro refines_tryP_last [OF decide [OF e]])
        (auto simp: final_at_def ref_final_def intro: refines_Ret)
    then show ?thesis
      unfolding ref_final_def by (intro refines_tryP refines_blockByNumber assms)
  qed
  show ?thesis
    unfolding queryFinalizedBlockInBabylonByNumber_def refines_def
    by (rule safe_bindP [OF safe_readP [where Q = "\<lambda>c. c \<longrightarrow> final_at A h"]])
      (use uncached in \<open>auto simp: coherent_def caches_agree_def final_at_def refines_def dest: cache_okD\<close>)
qed

end
