(* ===== verification/SearchCorrect.thy ===== *)
theory SearchCorrect
  imports ProviderCoherence
begin

text \<open>
  The binary search against the contract of its callees, and the search handler as a whole.
  \<open>search_result\<close> is the specification of the binary search: the greatest final height in the
  interval, its lower end if there is none, an error only if a query in between fails.
\<close>

subsection \<open>The midpoint\<close>

definition no_wrap :: "u64 \<Rightarrow> u64 \<Rightarrow> bool" where
  "no_wrap lo hi = (unat lo + unat hi + 1 < 2 ^ 64)"

lemma unat_mid:
  assumes "no_wrap lo hi"
  shows "unat ((lo + hi + 1) div 2) = (unat lo + unat hi + 1) div 2"
proof -
  have "unat (lo + hi + 1) = unat lo + unat hi + 1"
    using assms by (simp add: no_wrap_def unat_word_ariths)
  then show ?thesis by (simp add: unat_div)
qed

lemma unat_succ: "lo < hi \<Longrightarrow> unat (lo + 1) = unat lo + 1" for lo hi :: u64
  using unsigned_less [of hi, where ?'a = nat] by (simp add: word_less_nat_alt unat_word_ariths)

lemma succ_neq_imp_gap: "lo < hi \<Longrightarrow> lo + 1 \<noteq> hi \<Longrightarrow> unat lo + 2 \<le> unat hi" for lo hi :: u64
  using unat_succ [of lo hi] by (metis Suc_eq_plus1 Suc_leI add_2_eq_Suc' le_neq_implies_less word_less_nat_alt word_unat_eq_iff)

lemma nothing_between: "lo < h \<Longrightarrow> \<not> h < lo + 1" for lo h :: u64
  using unat_succ [of lo h] by (simp add: word_less_nat_alt)

lemma unat_pred: "0 < h \<Longrightarrow> unat (h - 1) = unat h - 1" for h :: u64
  by (simp add: unat_minus_one word_gt_0)

lemma mid_between:
  assumes "no_wrap lo hi" "unat lo + 2 \<le> unat hi"
  shows "lo < (lo + hi + 1) div 2" "(lo + hi + 1) div 2 < hi"
  using assms by (simp_all add: word_less_nat_alt unat_mid)

lemma mid_halves:
  assumes "no_wrap lo hi" "lo < hi" "unat hi - unat lo \<le> 2 ^ Suc k"
  shows "unat hi - unat ((lo + hi + 1) div 2) \<le> 2 ^ k" "unat ((lo + hi + 1) div 2) - unat lo \<le> 2 ^ k"
  using assms by (auto simp: unat_mid word_less_nat_alt)

lemma no_wrap_sub: "no_wrap lo hi \<Longrightarrow> lo \<le> a \<Longrightarrow> a \<le> hi \<Longrightarrow> no_wrap lo a"
  by (auto simp: no_wrap_def word_le_nat_alt)

definition small :: "u64 \<Rightarrow> bool" where
  "small h = (unat h < 2 ^ 63)"

lemma small_no_wrap: "small lo \<Longrightarrow> small hi \<Longrightarrow> no_wrap lo hi"
  by (auto simp: small_def no_wrap_def)

lemma small_mono: "small hi \<Longrightarrow> lo \<le> hi \<Longrightarrow> small lo"
  by (auto simp: small_def word_le_nat_alt)

subsection \<open>The binary search over its callees\<close>

definition search_result :: "(u64 \<Rightarrow> bool res) \<Rightarrow> u64 \<Rightarrow> u64 \<Rightarrow> u64 res option \<Rightarrow> bool" where
  "search_result spec lo hi r = (case r of
      None \<Rightarrow> False
    | Some (Inl _) \<Rightarrow> \<exists>h. lo < h \<and> h < hi \<and> \<not> is_ok (spec h)
    | Some (Inr v) \<Rightarrow> lo \<le> v \<and> v < hi \<and> (v = lo \<or> spec v = Inr True) \<and>
        (\<forall>h. v < h \<longrightarrow> h < hi \<longrightarrow> spec h \<noteq> Inr True))"

lemma from_to_mid:
  assumes "lo < hi" "lo + 1 \<noteq> hi"
  shows "from_to q s (Suc n) lo hi = bindP (q ((lo + hi + 1) div 2)) (\<lambda>r. case r of
      Inl e \<Rightarrow> Ret (Some (Inl (EWrap (query_failed ((lo + hi + 1) div 2)) e)))
    | Inr isFinalized \<Rightarrow> if isFinalized
        then bindP (s ((lo + hi + 1) div 2 - 1)) (\<lambda>_. from_to q s n ((lo + hi + 1) div 2) hi)
        else from_to q s n lo ((lo + hi + 1) div 2))"
proof -
  have "\<not> lo > hi" "lo \<noteq> hi" using assms(1) by auto
  then show ?thesis using assms(2) by (simp only: from_to.simps Let_def if_False)
qed

text \<open>
  \<open>spec\<close> is what the query answers, \<open>limit\<close> bounds what may be recorded as finalized, and
  \<open>holds\<close> stands for the assumptions on the services behind the query.
\<close>

locale finality_oracle =
  fixes I :: "'s \<Rightarrow> bool"
    and G :: "'s \<Rightarrow> 's \<Rightarrow> bool"
    and query :: "u64 \<Rightarrow> ('s, bool res) prog"
    and setLast :: "u64 \<Rightarrow> ('s, unit) prog"
    and spec :: "u64 \<Rightarrow> bool res"
    and limit :: u64
    and holds :: bool
  assumes query_safe: "holds \<Longrightarrow> safe I G (\<lambda>r. agrees r (spec h)) (query h)"
    and setLast_safe: "holds \<Longrightarrow> h \<le> limit \<Longrightarrow> h \<le> 1 \<or> spec h = Inr True \<Longrightarrow>
        safe I G (\<lambda>_. True) (setLast h)"
    and prefix_closed: "holds \<Longrightarrow> 1 \<le> h' \<Longrightarrow> h' \<le> h \<Longrightarrow> spec h = Inr True \<Longrightarrow> spec h' = Inr True"
begin

lemma set_pred_safe:
  assumes "holds" "spec check = Inr True" "check \<le> limit" "0 < check"
  shows "safe I G (\<lambda>_. True) (setLast (check - 1))"
proof (rule setLast_safe [OF assms(1)])
  have le: "check - 1 \<le> check"
    using assms(4) by (simp add: word_le_nat_alt unat_pred)
  then show "check - 1 \<le> limit" using assms(3) by order
  show "check - 1 \<le> 1 \<or> spec (check - 1) = Inr True"
    using prefix_closed [OF assms(1) _ le assms(2)] by (cases "1 \<le> check - 1") auto
qed

lemma widen_up:
  assumes "holds" "spec check = Inr True" "lo < check" "check < hi" "search_result spec check hi r"
  shows "search_result spec lo hi r"
proof -
  have "lo < h" if "check < h" for h using that assms(3) by (rule less_trans [rotated])
  moreover have "lo \<le> v" if "check \<le> v" for v using that assms(3) by simp
  ultimately show ?thesis
    using assms(2,5) by (fastforce simp: search_result_def split: option.splits sum.splits)
qed

lemma widen_down:
  assumes "holds" "spec check = Inr False" "lo < check" "check < hi" "1 \<le> check"
    and "search_result spec lo check r"
  shows "search_result spec lo hi r"
proof -
  have above: "spec h \<noteq> Inr True" if "\<not> h < check" for h
    using prefix_closed [OF assms(1,5)] that assms(2) by (metis Inr_inject not_less)
  have lt: "h < hi" if "h < check" for h using that assms(4) by (rule less_trans)
  show ?thesis
  proof (cases r)
    case None
    with assms(6) show ?thesis by (simp add: search_result_def)
  next
    case (Some x)
    with assms(6) lt above show ?thesis
      by (cases x) (auto simp: search_result_def; metis)+
  qed
qed

lemma search_safe:
  assumes "holds" "lo < hi" "hi \<le> limit" "small hi" "unat hi - unat lo \<le> 2 ^ k"
  shows "safe I G (search_result spec lo hi) (from_to query setLast (Suc k) lo hi)"
  using assms(2-5)
proof (induction k arbitrary: lo hi)
  case 0
  have "lo + 1 = hi"
  proof (rule ccontr)
    assume "lo + 1 \<noteq> hi"
    from succ_neq_imp_gap [OF 0(1) this] 0(4) show False by simp
  qed
  with 0 show ?case by (auto simp: from_to.simps search_result_def dest: nothing_between)
next
  case (Suc k)
  show ?case
  proof (cases "lo + 1 = hi")
    case True
    with Suc.prems show ?thesis by (auto simp: from_to.simps search_result_def dest: nothing_between)
  next
    case False
    let ?check = "(lo + hi + 1) div 2"
    have nw: "no_wrap lo hi"
      using Suc.prems(1,3) by (intro small_no_wrap) (auto intro: small_mono)
    have mid: "lo < ?check" "?check < hi"
      using mid_between [OF nw succ_neq_imp_gap [OF Suc.prems(1) False]] .
    have pos: "0 < ?check" "1 \<le> ?check"
      using mid(1) by (auto simp: word_less_nat_alt word_le_nat_alt)
    have le: "?check \<le> limit" using mid(2) Suc.prems(2) by order
    have sm: "small ?check" using Suc.prems(3) mid(2) by (auto intro: small_mono)
    have up: "safe I G (search_result spec lo hi) (from_to query setLast (Suc k) ?check hi)"
      if "spec ?check = Inr True"
      by (rule safe_mono [OF Suc.IH [OF mid(2) Suc.prems(2,3) mid_halves(1) [OF nw Suc.prems(1,4)]]])
        (use widen_up [OF assms(1) that mid] in auto)
    have down: "safe I G (search_result spec lo hi) (from_to query setLast (Suc k) lo ?check)"
      if "spec ?check = Inr False"
      by (rule safe_mono [OF Suc.IH [OF mid(1) le sm mid_halves(2) [OF nw Suc.prems(1,4)]]])
        (use widen_down [OF assms(1) that mid pos(2)] in auto)
    have err: "search_result spec lo hi (Some (Inl e))" if "\<not> is_ok (spec ?check)" for e
      using that mid by (auto simp: search_result_def)
    have step: "safe I G (search_result spec lo hi)
        (bindP (query ?check) (\<lambda>r. case r of Inl e \<Rightarrow> Ret (Some (Inl (EWrap m e)))
        | Inr isFinalized \<Rightarrow> if isFinalized
            then bindP (setLast (?check - 1)) (\<lambda>_. from_to query setLast (Suc k) ?check hi)
            else from_to query setLast (Suc k) lo ?check))" for m
    proof (rule safe_bindP [OF query_safe [OF assms(1)]])
      fix r assume r: "agrees r (spec ?check)"
      show "safe I G (search_result spec lo hi) (case r of Inl e \<Rightarrow> Ret (Some (Inl (EWrap m e)))
        | Inr isFinalized \<Rightarrow> if isFinalized
            then bindP (setLast (?check - 1)) (\<lambda>_. from_to query setLast (Suc k) ?check hi)
            else from_to query setLast (Suc k) lo ?check)"
        by (cases r) (use r in \<open>auto simp: err down
            intro!: safe_bindP [OF set_pred_safe [OF assms(1) _ le pos(1)] up]\<close>)
    qed
    with Suc.prems(1) False show ?thesis by (simp add: from_to_mid)
  qed
qed

end

lemma from_to_swap: "from_to q s (Suc n) a b = from_to q s (Suc n) b a"
  by (cases "a = b") (auto simp: from_to.simps Let_def not_less_iff_gr_or_eq)

subsection \<open>The provider is such an query\<close>

definition prefix_final :: "answers \<Rightarrow> bool" where
  "prefix_final A = (\<forall>h h'. 1 \<le> h' \<longrightarrow> h' \<le> h \<longrightarrow> final_at A h \<longrightarrow> final_at A h')"

definition coherent_below :: "u64 \<Rightarrow> ('w \<Rightarrow> bool) \<Rightarrow> answers \<Rightarrow> 'w psys \<Rightarrow> bool" where
  "coherent_below limit W A s = (coherent W A s \<and> lastFinalizedHeight (prov s) \<le> limit)"

lemma keeps_last_frame:
  "safe (coherent W A) keeps_last Q p \<Longrightarrow> safe (coherent_below limit W A) grows Q p"
  using safe_frame [where J = "\<lambda>s. lastFinalizedHeight (prov s) \<le> limit" and G' = grows]
  by (force simp: coherent_below_def [abs_def] keeps_last_def grows_def)

lemma byNumber_safe:
  "steady C W A \<Longrightarrow> safe (coherent_below limit W A) grows (\<lambda>r. agrees r (ref_final A h))
     (queryFinalizedBlockInBabylonByNumber C h)"
  by (rule keeps_last_frame) (use refines_byNumber in \<open>auto simp: refines_def\<close>)

lemma SetLastFinalized_safe:
  assumes "h \<le> limit" "h \<le> 1 \<or> final_at A h"
  shows "safe (coherent_below limit W A) grows (\<lambda>_. True) (SetLastFinalized h)"
  unfolding SetLastFinalized_def
  by (rule safe_modifyP)
    (use assms in \<open>auto simp: coherent_below_def coherent_def grows_def set_last_def last_sound_def caches_agree_def\<close>)

interpretation search: finality_oracle
  "coherent_below limit W A" grows "queryFinalizedBlockInBabylonByNumber C" SetLastFinalized
  "ref_final A" limit "steady C W A \<and> prefix_final A"
  for limit :: u64 and W :: "'w \<Rightarrow> bool" and A :: answers and C :: "'w clients"
  by unfold_locales
    (auto simp: byNumber_safe final_at_def prefix_final_def intro!: SetLastFinalized_safe)

end
