(* ===== verification/HeadSearch.thy ===== *)
theory HeadSearch
  imports SearchCorrect
begin

text \<open>
  \<open>QueryFinalizedBlockInBabylon\<close> as a whole: what it returns, under any interleaving with
  other handlers, when the services answer steadily, finality is closed under earlier heights and
  heights stay below \<open>2 ^ 63\<close>. 64 units of fuel are enough for every such search, because
  each recursive call halves an interval shorter than \<open>2 ^ 63\<close>.
\<close>

definition search_fuel :: nat where
  "search_fuel = 64"

text \<open>
  \<open>heads\<close> holds of every answer the chain gives about its head; all heads are at most \<open>L\<close>.
\<close>

definition heads_within :: "'w clients \<Rightarrow> ('w \<Rightarrow> bool) \<Rightarrow> (u64 res \<Rightarrow> bool) \<Rightarrow> u64 \<Rightarrow> bool" where
  "heads_within C W heads L =
     (small L \<and> (\<forall>w. W w \<longrightarrow> heads (fst (ethBlockNumber C w))) \<and> (\<forall>n. heads (Inr n) \<longrightarrow> n \<le> L))"

definition services :: "'w clients \<Rightarrow> ('w \<Rightarrow> bool) \<Rightarrow> answers \<Rightarrow> (u64 res \<Rightarrow> bool) \<Rightarrow> u64 \<Rightarrow> bool" where
  "services C W A heads L = (steady C W A \<and> prefix_final A \<and> heads_within C W heads L)"

text \<open>
  The specification: an error only if the head or a height cannot be queried; otherwise a height
  that is final (or at most 1, where the search starts) such that no height between it and the
  head is final.
\<close>

definition sound_height :: "answers \<Rightarrow> u64 \<Rightarrow> u64 \<Rightarrow> bool" where
  "sound_height A L v = (v \<le> L \<and> (v \<le> 1 \<or> final_at A v))"

definition head_result :: "answers \<Rightarrow> (u64 res \<Rightarrow> bool) \<Rightarrow> u64 \<Rightarrow> u64 res option \<Rightarrow> bool" where
  "head_result A heads L r = (case r of
      None \<Rightarrow> False
    | Some (Inl _) \<Rightarrow> (\<exists>e. heads (Inl e)) \<or> (\<exists>h \<le> L. \<not> is_ok (ref_final A h))
    | Some (Inr v) \<Rightarrow> sound_height A L v \<and>
        (\<exists>cur. heads (Inr cur) \<and> (0 < v \<or> cur = 0) \<and>
           (\<forall>h. v < h \<longrightarrow> h < cur \<longrightarrow> \<not> final_at A h)))"

lemma head_result_err: "h \<le> L \<Longrightarrow> \<not> is_ok (ref_final A h) \<Longrightarrow> head_result A heads L (Some (Inl e))"
  by (auto simp: head_result_def)

lemma head_result_val:
  "sound_height A L v \<Longrightarrow> heads (Inr cur) \<Longrightarrow> 0 < v \<or> cur = 0 \<Longrightarrow> (\<And>h. v < h \<Longrightarrow> h < cur \<Longrightarrow> \<not> final_at A h) \<Longrightarrow>
   head_result A heads L (Some (Inr v))"
  by (auto simp: head_result_def)

subsection \<open>The steps before the binary search\<close>

lemma pred_lt: "0 < n \<Longrightarrow> n - 1 < n" for n :: u64
  by (simp add: word_less_nat_alt unat_pred)

lemma nothing_after_pred: "0 < n \<Longrightarrow> n - 1 < h \<Longrightarrow> \<not> h < n" for n h :: u64
  using nothing_between [of "n - 1" h] by simp

lemma step_query_safe:
  assumes "steady C W A" "n \<le> L"
    and "\<And>e. n \<le> L \<Longrightarrow> \<not> is_ok (ref_final A n) \<Longrightarrow> Q (Inl e)"
    and "\<And>b. ref_final A n = Inr b \<Longrightarrow> safe (coherent_below L W A) grows Q (k b)"
  shows "safe (coherent_below L W A) grows Q (step_query C n k)"
  unfolding step_query_def
  by (rule safe_tryP [OF byNumber_safe [OF assms(1)]]) (use assms in auto)

lemma try_newest_safe:
  assumes "steady C W A"
  shows "safe (coherent_below L W A) grows (\<lambda>b. b \<longrightarrow> 1 < cur \<and> final_at A (cur - 1)) (try_newest C cur)"
  unfolding try_newest_def
  by (auto intro!: safe_bindP [OF byNumber_safe [OF assms]] simp: final_at_def)

text \<open>A start height: positive, at most \<open>L\<close>, and sound.\<close>

definition start_ok :: "answers \<Rightarrow> u64 \<Rightarrow> u64 res \<Rightarrow> bool" where
  "start_ok A L r = (case r of
      Inl _ \<Rightarrow> \<exists>h \<le> L. \<not> is_ok (ref_final A h)
    | Inr v \<Rightarrow> 0 < v \<and> sound_height A L v)"

lemma try_recent_safe:
  assumes "steady C W A" "cur \<le> L" "start_ok A L (Inr start)"
  shows "safe (coherent_below L W A) grows (start_ok A L) (try_recent C cur start)"
proof -
  have le: "cur - FastCheckNumberCount \<le> L" if "FastCheckNumberCount < cur"
    using that assms(2) by (metis less_imp_le order_trans word_sub_le)
  have pos: "0 < cur - FastCheckNumberCount" if "start < cur - FastCheckNumberCount"
    using that by (metis word_gt_0 word_not_simps(1))
  show ?thesis
    unfolding try_recent_def Let_def
    using assms le pos
    by (auto intro!: step_query_safe simp: start_ok_def sound_height_def final_at_def)
qed

lemma succ_pos: "start \<le> L \<Longrightarrow> small L \<Longrightarrow> 0 < start + 1"
  by (auto simp: word_less_nat_alt word_le_nat_alt small_def unat_word_ariths)

lemma try_next_safe:
  assumes "steady C W A" "small L" "cur \<le> L" "start_ok A L (Inr start)"
  shows "safe (coherent_below L W A) grows (start_ok A L) (try_next C cur start)"
proof -
  have le: "start + 1 \<le> L" if "start + 1 < cur" using that assms(3) by simp
  have pos: "0 < start + 1"
    using assms(2,4) by (intro succ_pos) (auto simp: start_ok_def sound_height_def)
  show ?thesis
    unfolding try_next_def Let_def
    using assms le pos
    by (auto intro!: step_query_safe simp: start_ok_def sound_height_def final_at_def)
qed

subsection \<open>The binary search and the handler\<close>

lemma from_to_safe:
  assumes "steady C W A" "prefix_final A" "lo < hi" "hi \<le> L" "small L"
  shows "safe (coherent_below L W A) grows (search_result (ref_final A) lo hi)
           (queryFinalizedBlockInBabylonFromTo search_fuel C lo hi)"
proof -
  have hi: "small hi" using assms(4,5) by (auto intro: small_mono)
  have "unat hi - unat lo \<le> 2 ^ 63" using hi by (simp add: small_def)
  from search.search_safe [OF conjI [OF assms(1,2)] assms(3,4) hi this] show ?thesis
    by (simp add: queryFinalizedBlockInBabylonFromTo_def search_fuel_def eval_nat_numeral(3)
        numeral_eq_Suc)
qed

text \<open>The final heights among those the search looks at, whichever end the start is.\<close>

lemma search_result_head:
  assumes "search_result (ref_final A) start cur r" "start \<le> L" "cur \<le> L" "start \<le> 1 \<or> final_at A start"
    and pos: "0 < start"
    and "heads (Inr cur)"
  shows "head_result A heads L r"
proof (cases r)
  case None
  with assms(1) show ?thesis by (simp add: search_result_def)
next
  case (Some x)
  show ?thesis
  proof (cases x)
    case (Inl e)
    with Some assms(1) obtain h where "h < cur" "\<not> is_ok (ref_final A h)"
      by (auto simp: search_result_def)
    with assms(3) have "h \<le> L" "\<not> is_ok (ref_final A h)" by auto
    with Some Inl show ?thesis by (auto intro: head_result_err)
  next
    case (Inr v)
    with Some assms(1) have v: "v < cur" "start \<le> v" "v = start \<or> final_at A v" "\<forall>h. v < h \<longrightarrow> h < cur \<longrightarrow> \<not> final_at A h"
      by (auto simp: search_result_def final_at_def)
    have "sound_height A L v"
      using v assms(3,4) by (auto simp: sound_height_def)
    moreover have "0 < v" using pos v(2) by (rule less_le_trans)
    ultimately show ?thesis using v Some Inr assms(6) by (auto intro: head_result_val)
  qed
qed

lemma search_result_behind:
  assumes "search_result (ref_final A) cur start r" "start \<le> L" "start \<le> 1 \<or> final_at A start" "prefix_final A"
    and "heads (Inr cur)"
  shows "head_result A heads L r"
proof (cases r)
  case None
  with assms(1) show ?thesis by (simp add: search_result_def)
next
  case (Some x)
  show ?thesis
  proof (cases x)
    case (Inl e)
    with Some assms(1) obtain h where "h < start" "\<not> is_ok (ref_final A h)"
      by (auto simp: search_result_def)
    with assms(2) have "h \<le> L" "\<not> is_ok (ref_final A h)" by auto
    with Some Inl show ?thesis by (auto intro: head_result_err)
  next
    case (Inr v)
    with Some assms(1) have v: "cur \<le> v" "v < start" "v = cur \<or> final_at A v"
      by (auto simp: search_result_def final_at_def)
    have "v \<le> 1 \<or> final_at A v"
    proof (cases "start \<le> 1")
      case True
      with v(2) show ?thesis by auto
    next
      case False
      with assms(3) have "final_at A start" by simp
      with v(2) assms(4) have "1 \<le> v \<Longrightarrow> final_at A v"
        unfolding prefix_final_def by (meson less_imp_le)
      then show ?thesis by (cases "1 \<le> v") auto
    qed
    then have "sound_height A L v"
      using v assms(2) by (auto simp: sound_height_def)
    moreover have "\<not> h < cur" if "v < h" for h using that v(1) by auto
    moreover have "0 < v \<or> cur = 0"
      using v(1) by (metis less_le_trans word_gt_0)
    ultimately show ?thesis using Some Inr assms(5) by (auto intro: head_result_val)
  qed
qed

lemma from_to_swapped:
  "queryFinalizedBlockInBabylonFromTo search_fuel C a b = queryFinalizedBlockInBabylonFromTo search_fuel C b a"
proof -
  have fuel: "search_fuel = Suc 63" by (simp add: search_fuel_def)
  show ?thesis
    unfolding queryFinalizedBlockInBabylonFromTo_def fuel by (rule from_to_swap)
qed

lemma search_and_set_safe:
  assumes "services C W A heads L" "heads (Inr cur)" "start_ok A L (Inr start)"
  shows "safe (coherent_below L W A) grows (head_result A heads L) (search_and_set search_fuel C start cur)"
proof -
  have st: "steady C W A" "prefix_final A" "small L" "cur \<le> L"
    using assms(1,2) by (auto simp: services_def heads_within_def)
  have start: "start \<le> L" "start \<le> 1 \<or> final_at A start" "0 < start"
    using assms(3) by (auto simp: start_ok_def sound_height_def)
  have search: "safe (coherent_below L W A) grows (head_result A heads L)
      (queryFinalizedBlockInBabylonFromTo search_fuel C start cur)"
  proof (rule linorder_cases [of start cur])
    assume "start < cur"
    then show ?thesis
      using start st assms(2)
      by (intro safe_mono [OF from_to_safe] search_result_head) auto
  next
    assume eq: "start = cur"
    have "queryFinalizedBlockInBabylonFromTo search_fuel C start start = Ret (Some (Inr start))"
      by (simp add: queryFinalizedBlockInBabylonFromTo_def search_fuel_def numeral_eq_Suc from_to.simps Let_def)
    moreover have "head_result A heads L (Some (Inr cur))"
      using start eq assms(2) by (intro head_result_val [where cur = cur]) (auto simp: sound_height_def)
    ultimately show ?thesis using eq by simp
  next
    assume "cur < start"
    then have "safe (coherent_below L W A) grows (head_result A heads L)
        (queryFinalizedBlockInBabylonFromTo search_fuel C cur start)"
      using start st assms(2)
      by (intro safe_mono [OF from_to_safe] search_result_behind) auto
    then show ?thesis by (simp add: from_to_swapped [of C start])
  qed
  have set_last: "safe (coherent_below L W A) grows (\<lambda>_. True) (SetLastFinalized v)"
    if "head_result A heads L (Some (Inr v))" for v
    using that by (intro SetLastFinalized_safe) (auto simp: head_result_def sound_height_def)
  show ?thesis
    unfolding search_and_set_def
    by (rule safe_bindP [OF search])
      (auto intro!: safe_bindP [OF set_last] split: option.splits sum.splits)
qed

lemma safe_tryO:
  assumes "safe I G R p" "\<And>e. R (Inl e) \<Longrightarrow> Q (Some (Inl e))" "\<And>v. R (Inr v) \<Longrightarrow> safe I G Q (k v)"
  shows "safe I G Q (tryO p k)"
  unfolding tryO_def
  by (rule safe_bindP [OF assms(1)]) (auto simp: assms(2,3) split: sum.splits)

text \<open>The start is just below the head: the head itself is asked about.\<close>

lemma next_is_head_safe:
  assumes st: "steady C W A" "small L" "cur \<le> L" and "heads (Inr cur)" "start_ok A L (Inr f)" "f + 1 = cur"
  shows "safe (coherent_below L W A) grows (head_result A heads L)
      (tryO (step_query C cur (\<lambda>b. Ret (Inr b))) (\<lambda>b. Ret (Some (Inr (if b then cur else f)))))"
proof (rule safe_tryO)
  show "safe (coherent_below L W A) grows
      (\<lambda>r. case r of Inl e \<Rightarrow> \<not> is_ok (ref_final A cur) | Inr b \<Rightarrow> ref_final A cur = Inr b)
      (step_query C cur (\<lambda>b. Ret (Inr b)))"
    by (rule step_query_safe [OF st(1,3)]) auto
  have "head_result A heads L (Some (Inr f))"
    using assms(4-6) nothing_between [of f]
    by (intro head_result_val [where cur = cur]) (auto simp: start_ok_def)
  moreover have "head_result A heads L (Some (Inr cur))" if "ref_final A cur = Inr True"
    using that assms(4-6) st(3) succ_pos [of f L] st(2)
    by (intro head_result_val [where cur = cur]) (auto simp: sound_height_def final_at_def word_gt_0)
  ultimately show "safe (coherent_below L W A) grows (head_result A heads L)
      (Ret (Some (Inr (if b then cur else f))))"
    if "case Inr b of Inl e \<Rightarrow> \<not> is_ok (ref_final A cur) | Inr b \<Rightarrow> ref_final A cur = Inr b" for b
    using that by simp
qed (auto intro: head_result_err st(3))

lemma search_from_safe:
  assumes "services C W A heads L" "heads (Inr cur)" "start_ok A L (Inr start)"
  shows "safe (coherent_below L W A) grows (head_result A heads L) (search_from search_fuel C cur start)"
proof -
  have st: "steady C W A" "small L" "cur \<le> L"
    using assms(1,2) by (auto simp: services_def heads_within_def)
  have err: "head_result A heads L (Some (Inl e))" if "start_ok A L (Inl e)" for e
    using that by (auto simp: start_ok_def intro: head_result_err)
  have newest: "head_result A heads L (Some (Inr (cur - 1)))" if "1 < cur \<and> final_at A (cur - 1)"
  proof (rule head_result_val [where cur = cur])
    have "0 < cur" using that by (auto simp: word_less_nat_alt)
    show "heads (Inr cur)" by (rule assms(2))
    show "0 < cur - 1 \<or> cur = 0" using that by (auto simp: word_gt_0)
    from \<open>0 < cur\<close> show "sound_height A L (cur - 1)"
      using that st(3) pred_lt [of cur] by (auto simp: sound_height_def)
    show "\<not> final_at A h" if "cur - 1 < h" "h < cur" for h
      using nothing_after_pred [of cur h] that \<open>0 < cur\<close> by auto
  qed
  have search: "safe (coherent_below L W A) grows (head_result A heads L)
      (tryO (try_next C cur f) (\<lambda>f2. search_and_set search_fuel C f2 cur))" if "start_ok A L (Inr f)" for f
    by (rule safe_tryO [OF try_next_safe [OF st that]])
      (auto intro: err search_and_set_safe [OF assms(1,2)])
  have older: "safe (coherent_below L W A) grows (head_result A heads L)
      (tryO (try_recent C cur start) (\<lambda>f. if f + 1 = cur
         then tryO (step_query C cur (\<lambda>b. Ret (Inr b))) (\<lambda>b. Ret (Some (Inr (if b then cur else f))))
         else tryO (try_next C cur f) (\<lambda>f2. search_and_set search_fuel C f2 cur)))"
  proof (rule safe_tryO [OF try_recent_safe [OF st(1,3) assms(3)]])
    show "safe (coherent_below L W A) grows (head_result A heads L) (if f + 1 = cur
         then tryO (step_query C cur (\<lambda>b. Ret (Inr b))) (\<lambda>b. Ret (Some (Inr (if b then cur else f))))
         else tryO (try_next C cur f) (\<lambda>f2. search_and_set search_fuel C f2 cur))"
      if "start_ok A L (Inr f)" for f
      using next_is_head_safe [OF st, of heads f] assms(2) that search [OF that] by simp
  qed (rule err)
  show ?thesis
    unfolding search_from_def
    by (rule safe_bindP [OF try_newest_safe [OF st(1)]]) (simp add: newest older)
qed

lemma handler_safe:
  assumes "services C W A heads L" "1 \<le> L"
  shows "safe (coherent_below L W A) grows (head_result A heads L) (QueryFinalizedBlockInBabylon search_fuel C)"
proof -
  have st: "steady C W A" and heads: "\<And>w. W w \<Longrightarrow> heads (fst (ethBlockNumber C w))"
    using assms(1) by (auto simp: services_def heads_within_def)
  have head: "safe (coherent_below L W A) grows heads (extP (ethBlockNumber C))"
    unfolding extP_def
  proof (rule safe_actP)
    fix s :: "'a psys"
    assume s: "coherent_below L W A s"
    then have w: "W (world s)" by (simp add: coherent_below_def coherent_def)
    with s heads [OF w] steadyD(1) [OF st w]
    show "coherent_below L W A (snd (case ethBlockNumber C (world s) of (a, w) \<Rightarrow> (a, s\<lparr>world := w\<rparr>))) \<and>
        grows s (snd (case ethBlockNumber C (world s) of (a, w) \<Rightarrow> (a, s\<lparr>world := w\<rparr>))) \<and>
        heads (fst (case ethBlockNumber C (world s) of (a, w) \<Rightarrow> (a, s\<lparr>world := w\<rparr>)))"
      by (auto simp: coherent_below_def coherent_def split: prod.splits)
  qed
  have get: "safe (coherent_below L W A) grows (\<lambda>v. v = 0 \<or> start_ok A L (Inr v)) GetLastFinalized"
    unfolding GetLastFinalized_def
    by (rule safe_readP)
      (auto simp: coherent_below_def coherent_def last_sound_def start_ok_def sound_height_def word_gt_0)
  have one: "start_ok A L (Inr 1)"
    using assms(2) by (simp add: start_ok_def sound_height_def)
  have at_start: "head_result A heads L (Some (Inr v))" if "start_ok A L (Inr v)" "heads (Inr v)" for v
    using that by (intro head_result_val [where cur = v]) (auto simp: start_ok_def)
  have go: "safe (coherent_below L W A) grows (head_result A heads L)
      (bindP GetLastFinalized (\<lambda>lastFinalized.
         let fromBlockHeight = (if lastFinalized = 0 then 1 else lastFinalized) in
         if cur = fromBlockHeight then Ret (Some (Inr cur))
         else search_from search_fuel C cur fromBlockHeight))" if "heads (Inr cur)" for cur
    unfolding Let_def
    by (rule safe_bindP [OF get])
      (use that one in \<open>auto intro: at_start search_from_safe [OF assms(1)]\<close>)
  have fetch: "safe (coherent_below L W A) grows (\<lambda>r. case r of Inl _ \<Rightarrow> \<exists>e. heads (Inl e) | Inr n \<Rightarrow> heads (Inr n))
      (tryP m (extP (ethBlockNumber C)) (\<lambda>n. Ret (Inr n)))" for m
    by (rule safe_tryP [OF head]) auto
  show ?thesis
    unfolding QueryFinalizedBlockInBabylon_def
    by (rule safe_tryO [OF fetch]) (auto simp: head_result_def intro: go)
qed

end
