(* ===== verification/ProviderDemo.thy ===== *)
theory ProviderDemo
  imports HeadSearch
begin

text \<open>
  A concrete chain on which the theorems about the provider are applied: block \<open>n\<close> has a hash
  of \<open>n\<close> letters, one finality provider \<open>fp\<close> holds all the power, and a function of the
  block says who voted. It shows that the assumptions on the services can hold together.
\<close>

definition demo_block :: "int \<Rightarrow> eth_block res" where
  "demo_block n = (if n < 0 then Inl (EText ''not found'')
     else Inr \<lparr>eth_hash = replicate (nat n) CHR ''a'', eth_time = word_of_int n, eth_number = word_of_int n\<rparr>)"

definition demo_powers :: powers where
  "demo_powers = gm_put gm_empty ''fp'' 3"

definition demo_answers :: "(l2block \<Rightarrow> string list option) \<Rightarrow> answers" where
  "demo_answers votes = \<lparr>aBlock = demo_block, aHeight = (\<lambda>t. Inr 7), aConsumer = Inr ''chain'',
     aKeys = (\<lambda>i. Inr [''fp'']), aPower = (\<lambda>ks h. Inr demo_powers), aVoted = (\<lambda>b. Inr (votes b))\<rparr>"

definition demo_clients :: "(l2block \<Rightarrow> string list option) \<Rightarrow> u64 \<Rightarrow> int clients" where
  "demo_clients votes cur = \<lparr>ethBlockNumber = (\<lambda>w. (Inr cur, w)),
     ethBlockByNumber = (\<lambda>n w. (demo_block n, w)),
     btcGetBlockHeightByTimestamp = (\<lambda>t w. (Inr 7, w)),
     bbnQueryAllFpBtcPubKeys = (\<lambda>i w. (Inr [''fp''], w)),
     bbnQueryMultiFpPower = (\<lambda>ks h w. (Inr demo_powers, w)),
     bbnQueryEarliestActiveDelBtcHeight = (\<lambda>ks w. (Inr 0, w)),
     cwQueryConsumerId = (\<lambda>w. (Inr ''chain'', w)),
     cwQueryListOfVotedFinalityProviders = (\<lambda>b w. (Inr (votes b), w)),
     timeNow = (\<lambda>w. (w, w + 1))\<rparr>"

definition demo_start :: "int psys" where
  "demo_start = \<lparr>world = 1, prov = newProvider\<rparr>"

text \<open>Everybody has voted up to a height, or nobody has.\<close>

definition votes_upto :: "u64 \<Rightarrow> l2block \<Rightarrow> string list option" where
  "votes_upto f b = Some (if BlockHeight b \<le> f then [''fp''] else [])"

lemma demo_trim: "trim_prefix (replicate n CHR ''a'') ''0x'' = replicate n CHR ''a''"
  by (cases n) (auto simp: trim_prefix_def numeral_2_eq_2)

lemma demo_hash_unique: "hash_unique (demo_answers votes)"
  by (auto simp: hash_unique_def chain_block_def demo_answers_def demo_block_def trim_hash_def
      block_of_def demo_trim eq_nat_nat_iff split: if_splits)

lemma demo_steady: "steady (demo_clients votes cur) (\<lambda>w. True) (demo_answers votes)"
  unfolding steady_def using demo_hash_unique
  by (simp add: answers_as_def demo_clients_def demo_answers_def)

lemma demo_total: "total_power demo_powers = 3"
  by (simp add: total_power_def sum_powers_def demo_powers_def gm_entries_put)

lemma demo_voted: "voted_power demo_powers [''fp''] = 3" "voted_power demo_powers [] = 0"
  by (simp_all add: voted_power_def demo_powers_def)

lemma demo_decision: "block_decision demo_powers (votes_upto f b) = (BlockHeight b \<le> f)"
  by (simp add: block_decision_def votes_upto_def demo_total demo_voted quorum_reached_def)

lemma demo_ref:
  "ref_final (demo_answers (votes_upto f)) h = (if small h then Inr (h \<le> f) else Inl (EText ''not found''))"
proof -
  have "ref_block (demo_answers (votes_upto f)) b = Inr (BlockHeight b \<le> f)" for b
    by (simp add: ref_block_def ref_powers_def ref_keys_def demo_answers_def demo_total demo_decision)
  moreover have "aBlock (demo_answers (votes_upto f)) = demo_block"
    by (simp add: demo_answers_def)
  moreover have "uint h < 2 ^ 64" using uint_lt2p [of h] by simp
  ultimately show ?thesis
    by (simp add: ref_final_def demo_block_def small_def sint_u64 trim_hash_def block_of_def)
qed

lemma demo_final: "small f \<Longrightarrow> final_at (demo_answers (votes_upto f)) h \<longleftrightarrow> h \<le> f"
  using small_mono [of f h] by (auto simp: final_at_def demo_ref)

lemma demo_services:
  assumes "small f" "small cur"
  shows "services (demo_clients (votes_upto f) cur) (\<lambda>w. True) (demo_answers (votes_upto f)) ((=) (Inr cur)) cur"
  using assms(2) demo_steady
  by (auto simp: services_def prefix_final_def demo_final [OF assms(1)] heads_within_def demo_clients_def)

lemma demo_start_coherent: "coherent_below L (\<lambda>w. True) A demo_start"
  by (simp add: coherent_below_def coherent_def demo_start_def) (simp add: newProvider_def)

end
