(* ===== verification/ProviderReturns.thy ===== *)
theory ProviderReturns
  imports ProviderDemo
begin

text \<open>
  Facts that hold whatever the services answer: the search returns within its fuel, a finality
  decision does not look at the contract again once votes are cached, and the list of finality
  providers is reused for 240 seconds.
\<close>

subsection \<open>Termination\<close>

lemma safe_trivial: "safe (\<lambda>_. True) (\<lambda>_ _. True) (\<lambda>_. True) p"
  by (induction p) auto

lemma small_pred: "a < h \<Longrightarrow> small h \<Longrightarrow> small (h - 1)" for a h :: u64
  by (subgoal_tac "0 < h") (auto simp: small_def unat_pred word_less_nat_alt)

text \<open>A result is small if it is a height below \<open>2 ^ 63\<close> or an error.\<close>

definition small_res :: "u64 res \<Rightarrow> bool" where
  "small_res r = (case r of Inl _ \<Rightarrow> True | Inr v \<Rightarrow> small v)"

lemma small_res_simps [simp]: "small_res (Inl e)" "small_res (Inr v) = small v"
  by (simp_all add: small_res_def)

definition returned :: "u64 res option \<Rightarrow> bool" where
  "returned r = (\<exists>x. r = Some x \<and> small_res x)"

lemma returned_Some [simp]: "returned (Some x) = small_res x"
  by (simp add: returned_def)

text \<open>With fuel \<open>Suc k\<close> the binary search returns on every interval of at most
  \<open>2 ^ k\<close> heights below \<open>2 ^ 63\<close>, whatever its callees do.\<close>

lemma from_to_returns:
  assumes "\<And>h. safe I G (\<lambda>_. True) (q h)" "\<And>h. small h \<Longrightarrow> safe I G (\<lambda>_. True) (set_h h)"
    and "lo < hi" "small hi" "unat hi - unat lo \<le> 2 ^ k"
  shows "safe I G returned (from_to q set_h (Suc k) lo hi)"
  using assms(3-5)
proof (induction k arbitrary: lo hi)
  case 0
  have "lo + 1 = hi"
  proof (rule ccontr)
    assume "lo + 1 \<noteq> hi"
    from succ_neq_imp_gap [OF 0(1) this] 0(3) show False by simp
  qed
  with 0 show ?case by (auto simp: from_to.simps Let_def intro: small_mono)
next
  case (Suc k)
  show ?case
  proof (cases "lo + 1 = hi")
    case True
    with Suc.prems show ?thesis by (auto simp: from_to.simps Let_def intro: small_mono)
  next
    case False
    let ?check = "(lo + hi + 1) div 2"
    have nw: "no_wrap lo hi"
      using Suc.prems(1,2) by (intro small_no_wrap) (auto intro: small_mono)
    have mid: "lo < ?check" "?check < hi"
      using mid_between [OF nw succ_neq_imp_gap [OF Suc.prems(1) False]] .
    have sm: "small ?check" "small (?check - 1)"
      using small_mono [OF Suc.prems(2) less_imp_le [OF mid(2)]] small_pred [OF mid(1)] by auto
    note halves = mid_halves [OF nw Suc.prems(1,3)]
    have up: "safe I G returned (from_to q set_h (Suc k) ?check hi)"
      by (rule Suc.IH [OF mid(2) Suc.prems(2) halves(1)])
    have down: "safe I G returned (from_to q set_h (Suc k) lo ?check)"
      by (rule Suc.IH [OF mid(1) sm(1) halves(2)])
    show ?thesis
      unfolding from_to_mid [OF Suc.prems(1) False]
      by (rule safe_bindP [OF assms(1)])
        (auto simp: down intro!: safe_bindP [OF assms(2) [OF sm(2)]] up split: sum.splits)
  qed
qed

lemma search_fuel_Suc: "search_fuel = Suc 63"
  by (simp add: search_fuel_def)

lemma from_to_returns_any:
  assumes "\<And>h. safe I G (\<lambda>_. True) (q h)" "\<And>h. small h \<Longrightarrow> safe I G (\<lambda>_. True) (set_h h)"
    and "small a" "small b"
  shows "safe I G returned (from_to q set_h search_fuel a b)"
proof -
  have w: "unat y - unat x \<le> 2 ^ 63" if "small y" for x y :: u64
    using that by (simp add: small_def)
  show ?thesis
    unfolding search_fuel_Suc
  proof (rule linorder_cases [of a b])
    assume "a < b"
    from from_to_returns [OF assms(1,2) this assms(4) w [OF assms(4)]]
    show "safe I G returned (from_to q set_h (Suc 63) a b)" .
  next
    assume "b < a"
    from from_to_returns [OF assms(1,2) this assms(3) w [OF assms(3)]]
    show "safe I G returned (from_to q set_h (Suc 63) a b)"
      by (simp only: from_to_swap)
  next
    assume "a = b"
    with assms(4) show "safe I G returned (from_to q set_h (Suc 63) a b)"
      by (simp only: from_to.simps(2) [of _ _ 63] Let_def if_True if_False less_irrefl refl safe.simps
          returned_Some small_res_simps)
  qed
qed

text \<open>The whole handler, in states whose last finalized height is below \<open>2 ^ 63\<close>.\<close>

definition small_inv :: "'w psys \<Rightarrow> bool" where
  "small_inv s = (bounded_inv s \<and> small (lastFinalizedHeight (prov s)))"

lemma tame_small: "tame caches_bounded keeps_last p \<Longrightarrow> safe small_inv (\<lambda>_ _. True) (\<lambda>_. True) p"
  using safe_frame [where I = "\<lambda>s. caches_bounded (prov s)" and J = "\<lambda>s. small (lastFinalizedHeight (prov s))"
      and G = keeps_last and G' = "\<lambda>_ _. True"]
  by (force simp: tame_def bounded_inv_def small_inv_def [abs_def] keeps_last_def)

lemma byNumber_small: "safe small_inv (\<lambda>_ _. True) (\<lambda>_. True) (queryFinalizedBlockInBabylonByNumber C h)"
  by (rule tame_small) (intro tame_rules)

lemma SetLast_small: "small h \<Longrightarrow> safe small_inv (\<lambda>_ _. True) (\<lambda>_. True) (SetLastFinalized h)"
  unfolding SetLastFinalized_def
  by (rule safe_modifyP)
    (auto simp: small_inv_def bounded_inv_def set_last_def caches_bounded_def)

lemma step_query_small:
  assumes "\<And>e. Q (Inl e)" "\<And>b. safe small_inv (\<lambda>_ _. True) Q (k b)"
  shows "safe small_inv (\<lambda>_ _. True) Q (step_query C n k)"
  unfolding step_query_def by (rule safe_tryP [OF byNumber_small]) (simp_all add: assms)

lemma try_recent_small:
  "small cur \<Longrightarrow> small start \<Longrightarrow> safe small_inv (\<lambda>_ _. True) small_res (try_recent C cur start)"
  unfolding try_recent_def Let_def
  by (auto intro!: step_query_small elim!: small_mono simp: word_sub_le)

lemma try_next_small:
  "small cur \<Longrightarrow> small start \<Longrightarrow> safe small_inv (\<lambda>_ _. True) small_res (try_next C cur start)"
  unfolding try_next_def Let_def
  by (auto intro!: step_query_small intro: small_mono [OF _ less_imp_le])

lemma search_and_set_small:
  assumes "small cur" "small start"
  shows "safe small_inv (\<lambda>_ _. True) returned (search_and_set search_fuel C start cur)"
proof -
  have search: "safe small_inv (\<lambda>_ _. True) returned (queryFinalizedBlockInBabylonFromTo search_fuel C start cur)"
    unfolding queryFinalizedBlockInBabylonFromTo_def
    by (rule from_to_returns_any [OF byNumber_small SetLast_small assms(2,1)])
  show ?thesis
    unfolding search_and_set_def
    by (rule safe_bindP [OF search])
      (auto simp: returned_def intro!: safe_bindP [OF SetLast_small] split: option.splits sum.splits)
qed

lemma search_from_small:
  assumes "small cur" "small start"
  shows "safe small_inv (\<lambda>_ _. True) returned (search_from search_fuel C cur start)"
proof -
  have newest: "safe small_inv (\<lambda>_ _. True) (\<lambda>b. b \<longrightarrow> small (cur - 1)) (try_newest C cur)"
    using assms(1)
    by (auto simp: try_newest_def intro!: safe_bindP [OF byNumber_small] intro: small_pred)
  have ask: "safe small_inv (\<lambda>_ _. True) (\<lambda>_. True) (step_query C n (\<lambda>b. Ret (Inr b)))" for n
    by (rule step_query_small) auto
  show ?thesis
    unfolding search_from_def
    by (rule safe_bindP [OF newest])
      (use assms in \<open>auto intro!: safe_tryO [OF try_recent_small] safe_tryO [OF ask]
        safe_tryO [OF try_next_small] search_and_set_small\<close>)
qed

lemma handler_returns:
  assumes "\<And>w n. fst (ethBlockNumber C w) = Inr n \<Longrightarrow> small n"
  shows "safe small_inv (\<lambda>_ _. True) returned (QueryFinalizedBlockInBabylon search_fuel C)"
proof -
  have head: "safe small_inv (\<lambda>_ _. True) small_res (extP (ethBlockNumber C))"
    unfolding extP_def
    by (rule safe_actP)
      (auto simp: small_inv_def bounded_inv_def small_res_def split: prod.splits sum.splits
        intro: assms [OF arg_cong [where f = fst, THEN trans]])
  have get: "safe small_inv (\<lambda>_ _. True) small GetLastFinalized"
    unfolding GetLastFinalized_def by (rule safe_readP) (simp add: small_inv_def)
  have go: "safe small_inv (\<lambda>_ _. True) returned
      (bindP GetLastFinalized (\<lambda>lastFinalized.
         let fromBlockHeight = (if lastFinalized = 0 then 1 else lastFinalized) in
         if cur = fromBlockHeight then Ret (Some (Inr cur))
         else search_from search_fuel C cur fromBlockHeight))" if "small cur" for cur
    unfolding Let_def
    by (rule safe_bindP [OF get])
      (use that in \<open>auto intro!: search_from_small simp: small_def\<close>)
  have fetch: "safe small_inv (\<lambda>_ _. True) small_res (tryP m (extP (ethBlockNumber C)) (\<lambda>n. Ret (Inr n)))" for m
    by (rule safe_tryP [OF head]) auto
  show ?thesis
    unfolding QueryFinalizedBlockInBabylon_def
    by (rule safe_tryO [OF fetch]) (auto intro: go)
qed

subsection \<open>Votes are read once\<close>

text \<open>Computing the power of a block touches neither the votes nor the blocks cached.\<close>

definition keeps_votes :: "'w psys \<Rightarrow> 'w psys \<Rightarrow> bool" where
  "keeps_votes s t = (votedFpPksCache (prov t) = votedFpPksCache (prov s) \<and>
     l2BlockCache (prov t) = l2BlockCache (prov s))"

lemma keeps_votes_refl [simp]: "keeps_votes s s"
  and keeps_votes_trans: "keeps_votes s t \<Longrightarrow> keeps_votes t u \<Longrightarrow> keeps_votes s u"
  by (simp_all add: keeps_votes_def)

lemma keeps_votes_queryAllFps: "keeps_votes s (snd (run (queryAllFpBtcPubKeys C) s))"
  by (simp add: keeps_votes_def queryAllFpBtcPubKeys_def run_simps fps_lookup_def fps_store_def
      isTimeNotGreaterThan_def split: option.splits prod.splits sum.splits)

lemma keeps_votes_getBlockHeight: "keeps_votes s (snd (run (getBlockHeightByTimestamp C b) s))"
  by (simp add: keeps_votes_def getBlockHeightByTimestamp_def run_memoP run_simps
      split: option.splits prod.splits sum.splits)

lemma keeps_votes_queryMultiFpPower: "keeps_votes s (snd (run (queryMultiFpPower C pks h) s))"
  by (simp add: keeps_votes_def queryMultiFpPower_def run_memoP run_simps
      split: option.splits prod.splits sum.splits)

lemma keeps_votes_tryP:
  assumes "keeps_votes s (snd (run p s))" "\<And>v t. keeps_votes t (snd (run (k v) t))"
  shows "keeps_votes s (snd (run (tryP m p k) s))"
  using assms by (auto simp: run_tryP split: prod.splits sum.splits intro: keeps_votes_trans)

lemma keeps_votes_power: "keeps_votes s (snd (run (queryAllPkPower C b) s))"
  unfolding queryAllPkPower_def
  by (intro keeps_votes_tryP keeps_votes_queryAllFps keeps_votes_getBlockHeight
      keeps_votes_queryMultiFpPower) simp

lemma fps_ignores_votes:
  "fps_lookup (C\<lparr>cwQueryListOfVotedFinalityProviders := f\<rparr>) = fps_lookup C"
  "fps_store (C\<lparr>cwQueryListOfVotedFinalityProviders := f\<rparr>) = fps_store C"
  by ((rule ext)+, simp add: fps_lookup_def fps_store_def isTimeNotGreaterThan_def)+

lemma power_ignores_votes: "queryAllPkPower (C\<lparr>cwQueryListOfVotedFinalityProviders := f\<rparr>) b = queryAllPkPower C b"
  by (simp add: queryAllPkPower_def queryAllFpBtcPubKeys_def getBlockHeightByTimestamp_def
      queryMultiFpPower_def fps_ignores_votes cong: option.case_cong)

lemma run_voted_cached:
  "gm_get (votedFpPksCache (prov s)) (BlockHash b) = Some v \<Longrightarrow>
   run (queryListOfVotedFinalityProviders C b) s = (Inr v, s)"
  by (simp add: queryListOfVotedFinalityProviders_def run_memoP)

lemma voted_cached:
  "run (queryListOfVotedFinalityProviders C b) s = (Inr v, t) \<Longrightarrow>
   gm_get (votedFpPksCache (prov t)) (BlockHash b) = Some v \<and> l2BlockCache (prov t) = l2BlockCache (prov s)"
  by (auto simp: queryListOfVotedFinalityProviders_def run_memoP cache.get_put_same
      split: option.splits prod.splits sum.splits)

lemma decide_ignores_votes:
  assumes "gm_get (votedFpPksCache (prov s)) (BlockHash b) = Some v"
  shows "run (decide_block (C\<lparr>cwQueryListOfVotedFinalityProviders := f\<rparr>) b) s = run (decide_block C b) s"
proof -
  obtain r t where t: "run (queryAllPkPower C b) s = (r, t)" by fastforce
  with keeps_votes_power [of s C b] assms have "gm_get (votedFpPksCache (prov t)) (BlockHash b) = Some v"
    by (simp add: keeps_votes_def)
  then show ?thesis
    by (simp add: decide_block_def run_tryP power_ignores_votes t run_voted_cached split: sum.splits)
qed

text \<open>A negative decision leaves the votes it was based on in the cache.\<close>

lemma decide_False_cached:
  assumes "run (decide_block C b) s = (Inr False, t)"
  shows "(\<exists>v. gm_get (votedFpPksCache (prov t)) (BlockHash b) = Some v) \<and> l2BlockCache (prov t) = l2BlockCache (prov s)"
proof -
  obtain r u where u: "run (queryAllPkPower C b) s = (r, u)" by fastforce
  have k: "l2BlockCache (prov u) = l2BlockCache (prov s)"
    using keeps_votes_power [of s C b] u by (simp add: keeps_votes_def)
  obtain r2 u2 where u2: "run (queryListOfVotedFinalityProviders C b) u = (r2, u2)" by fastforce
  show ?thesis
    using assms voted_cached [of C b u _ u2] u2 k
    by (cases r; cases r2) (auto simp: decide_block_def run_tryP u u2 split: if_splits option.splits)
qed

lemma run_blockByNumber_cached:
  "gm_get (l2BlockCache (prov s)) h = Some blk \<Longrightarrow> run (blockByNumber C h) s = (Inr blk, s)"
  by (simp add: blockByNumber_def run_memoP)

lemma blockByNumber_cached:
  "run (blockByNumber C h) s = (Inr blk, t) \<Longrightarrow> gm_get (l2BlockCache (prov t)) h = Some blk"
  by (auto simp: blockByNumber_def run_memoP run_simps cache.get_put_same
      split: option.splits prod.splits sum.splits)

text \<open>Both caches filled, the decision on a height no longer depends on the contract.\<close>

lemma byNumber_ignores_votes:
  assumes "gm_get (l2BlockCache (prov s)) h = Some blk"
    and "gm_get (votedFpPksCache (prov s)) (BlockHash (trim_hash (block_of blk))) = Some v"
  shows "run (queryFinalizedBlockInBabylonByNumber (C\<lparr>cwQueryListOfVotedFinalityProviders := f\<rparr>) h) s =
         run (queryFinalizedBlockInBabylonByNumber C h) s"
  by (simp add: queryFinalizedBlockInBabylonByNumber_def run_simps run_blockByNumber_cached [OF assms(1)]
      QueryIsBlockBabylonFinalizedFromBabylon_def decide_ignores_votes [OF assms(2)])

lemma byNumber_False_cached:
  assumes "run (queryFinalizedBlockInBabylonByNumber C h) s = (Inr False, t)"
  shows "\<exists>blk v. gm_get (l2BlockCache (prov t)) h = Some blk \<and>
           gm_get (votedFpPksCache (prov t)) (BlockHash (trim_hash (block_of blk))) = Some v"
proof -
  obtain r u where u: "run (blockByNumber C h) s = (r, u)" by fastforce
  show ?thesis
  proof (cases r)
    case (Inl e)
    with assms u show ?thesis
      by (simp add: queryFinalizedBlockInBabylonByNumber_def run_simps split: if_splits)
  next
    case (Inr blk)
    obtain r2 u2 where u2: "run (decide_block C (trim_hash (block_of blk))) u = (r2, u2)" by fastforce
    have "r2 = Inr False" "u2 = t"
      using assms u u2 Inr
      by (auto simp: queryFinalizedBlockInBabylonByNumber_def run_simps
          QueryIsBlockBabylonFinalizedFromBabylon_def split: if_splits sum.splits)
    with decide_False_cached u2 blockByNumber_cached u Inr show ?thesis by metis
  qed
qed

subsection \<open>The list of finality providers\<close>

text \<open>\<open>fps_fresh\<close>: the cached list may be used at this clock reading.\<close>

definition fps_fresh :: "provider \<Rightarrow> int \<Rightarrow> bool" where
  "fps_fresh p t = (allFpsCache p \<noteq> [] \<and> allFpsCacheLastTime p \<noteq> 0 \<and>
     duration_sub t (allFpsCacheLastTime p) \<le> 240 * 10 ^ 9)"

lemma run_fps_fresh:
  assumes "fps_fresh (prov s) (fst (timeNow C (world s)))"
  shows "run (queryAllFpBtcPubKeys C) s =
    (Inr (allFpsCache (prov s)), s\<lparr>world := snd (timeNow C (world s))\<rparr>)"
  using assms
  by (auto simp: queryAllFpBtcPubKeys_def run_simps fps_lookup_def isTimeNotGreaterThan_def fps_fresh_def
      split: prod.splits)

lemma run_fps_stale:
  assumes "\<not> fps_fresh (prov s) (fst (timeNow C (world s)))"
  shows "\<exists>w. fps_lookup C s = (None, s\<lparr>world := w\<rparr>)"
  using assms
  by (auto simp: fps_lookup_def isTimeNotGreaterThan_def fps_fresh_def intro: exI [where x = "world s"]
      split: prod.splits)

lemma run_fps_refetch:
  assumes "\<not> fps_fresh (prov s) (fst (timeNow C (world s)))"
    and "run (queryAllFpBtcPubKeys C) s = (Inr pks, t)"
  shows "\<exists>i w. bbnQueryAllFpBtcPubKeys C i (fst w) = (Inr pks, snd w) \<and> allFpsCache (prov t) = pks \<and>
     allFpsCacheLastTime (prov t) = fst (timeNow C (snd w))"
proof -
  obtain w0 where w0: "fps_lookup C s = (None, s\<lparr>world := w0\<rparr>)"
    using run_fps_stale [OF assms(1)] by blast
  obtain r1 w1 where w1: "cwQueryConsumerId C w0 = (r1, w1)" by fastforce
  show ?thesis
  proof (cases r1)
    case (Inl e)
    with assms(2) w0 w1 show ?thesis by (simp add: queryAllFpBtcPubKeys_def run_simps)
  next
    case (Inr i)
    obtain r2 w2 where w2: "bbnQueryAllFpBtcPubKeys C i w1 = (r2, w2)" by fastforce
    obtain tm w3 where w3: "timeNow C w2 = (tm, w3)" by fastforce
    from assms(2) w0 w1 w2 w3 Inr have "r2 = Inr pks" "allFpsCache (prov t) = pks" "allFpsCacheLastTime (prov t) = tm"
      by (auto simp: queryAllFpBtcPubKeys_def run_simps fps_store_def split: sum.splits)
    with w2 w3 show ?thesis by (intro exI [where x = i] exI [where x = "(w1, w2)"]) simp
  qed
qed

end
