(* ===== verification/ProviderTheorems.thy ===== *)
theory ProviderTheorems
  imports ProviderReturns
begin

text \<open>
  The properties of the finality state provider, each with the concrete case on the chain of
  theory ProviderDemo that shows its hypotheses can hold. \<open>serve\<close> gathers the exported
  operations of the provider, so that a pool may mix them.
\<close>

datatype request = ReqHead | ReqIsFinal "l2block option" | ReqEarliest "string list" | ReqGetLast | ReqSetLast u64

datatype reply = RepHead "u64 res option" | RepIsFinal "bool res \<times> l2block option" | RepEarliest "u32 res"
  | RepLast u64 | RepUnit

fun serve :: "nat \<Rightarrow> 'w clients \<Rightarrow> request \<Rightarrow> ('w psys, reply) prog" where
  "serve fuel C ReqHead = bindP (QueryFinalizedBlockInBabylon fuel C) (\<lambda>r. Ret (RepHead r))"
| "serve fuel C (ReqIsFinal b) = bindP (QueryIsBlockBabylonFinalizedFromBabylon C b) (\<lambda>r. Ret (RepIsFinal r))"
| "serve fuel C (ReqEarliest pks) = bindP (QueryEarliestActiveDelBtcHeight C pks) (\<lambda>r. Ret (RepEarliest r))"
| "serve fuel C ReqGetLast = bindP GetLastFinalized (\<lambda>r. Ret (RepLast r))"
| "serve fuel C (ReqSetLast h) = bindP (SetLastFinalized h) (\<lambda>_. Ret RepUnit)"

text \<open>What every write of the provider keeps, any pool of its operations keeps.\<close>

context stored_shape
begin

lemma tame_serve: "tame ok grows (serve fuel C q)"
  by (cases q) (auto intro!: tame_rules tame_QueryFinalizedBlock)

lemma requests_keep:
  "ok (prov s) \<Longrightarrow> pool_steps (s, map (serve fuel C) reqs) (t, qs) \<Longrightarrow>
   ok (prov t) \<and> lastFinalizedHeight (prov s) \<le> lastFinalizedHeight (prov t)"
  by (rule tame_pool) (auto intro: tame_serve)

end

subsection \<open>The finalized head\<close>

text \<open>
  (C1) Any number of concurrent head requests, under every interleaving of their critical sections
  and client calls: with steady services and heads below \<open>2 ^ 63\<close>, the caches keep agreeing with
  what the services answer, and each handler that returns gives a height that is final (or at most
  1, where the search starts) with no final height between it and the head it saw, or an error that
  the services caused; no handler runs out of fuel.
\<close>

theorem head_search_concurrent:
  assumes "services C W A heads L" "1 \<le> L" "coherent_below L W A s"
    and "pool_steps (s, replicate n (QueryFinalizedBlockInBabylon search_fuel C)) (t, qs)"
  shows "coherent_below L W A t \<and> lastFinalizedHeight (prov s) \<le> lastFinalizedHeight (prov t) \<and>
    (\<forall>r. Ret r \<in> set qs \<longrightarrow> head_result A heads L r)"
proof -
  have "pool_safe (coherent_below L W A) grows (head_result A heads L)
      (s, replicate n (QueryFinalizedBlockInBabylon search_fuel C))"
    using assms(3) handler_safe [OF assms(1,2)] by (simp add: pool_safe_def)
  from pool_steps_safe [OF assms(4) this grows_reflp grows_transp] show ?thesis
    by (auto simp: grows_def pool_safe_def dest: pool_safe_returned)
qed

definition demo_run :: "u64 \<Rightarrow> u64 \<Rightarrow> u64 res option \<times> int psys" where
  "demo_run f cur = run (QueryFinalizedBlockInBabylon search_fuel (demo_clients (votes_upto f) cur)) demo_start"

lemma demo_run_returns: "pool_steps (demo_start, replicate 1 (QueryFinalizedBlockInBabylon search_fuel
    (demo_clients (votes_upto f) cur))) (snd (demo_run f cur), [Ret (fst (demo_run f cur))])"
  using run_is_schedule [of demo_start "QueryFinalizedBlockInBabylon search_fuel (demo_clients (votes_upto f) cur)"]
  by (simp add: demo_run_def)

lemma demo_small: "small 3" "small 5"
  by (simp_all add: small_def)

theorem head_search_concurrent_witness:
  "head_result (demo_answers (votes_upto 3)) ((=) (Inr 5)) 5 (fst (demo_run 3 5))"
  using head_search_concurrent [OF demo_services [OF demo_small] _ demo_start_coherent demo_run_returns] by simp

lemma head_exact:
  assumes "services C W A ((=) (Inr cur)) cur" "1 \<le> cur" "coherent_below cur W A s"
    and "\<forall>h \<le> cur. is_ok (ref_final A h)"
  shows "\<exists>v. fst (run (QueryFinalizedBlockInBabylon search_fuel C) s) = Some (Inr v) \<and> 0 < v \<and> v \<le> cur \<and>
    (v = 1 \<or> final_at A v) \<and> (\<forall>h. v < h \<longrightarrow> h < cur \<longrightarrow> \<not> final_at A h)"
proof -
  let ?r = "fst (run (QueryFinalizedBlockInBabylon search_fuel C) s)"
  have r: "head_result A ((=) (Inr cur)) cur ?r"
    using safe_run [OF handler_safe [OF assms(1,2)] assms(3)] by blast
  have one: "v = 1" if "0 < v" "v \<le> 1" for v :: u64
    using that by (auto simp: word_less_nat_alt word_le_nat_alt word_unat_eq_iff)
  have "0 < cur" using assms(2) by (auto simp: word_less_nat_alt word_le_nat_alt)
  with r assms(4) one show ?thesis
    by (auto simp: head_result_def sound_height_def split: option.splits sum.splits)
qed

text \<open>On the demo chain, from every coherent state.\<close>

lemma demo_heights_ok: "small cur \<Longrightarrow> \<forall>h \<le> cur. is_ok (ref_final (demo_answers (votes_upto f)) h)"
  using small_mono [of cur] by (auto simp: demo_ref)

text \<open>
  (C4) One head request on a fixed head, when every height up to the head can be queried: it returns
  a height, positive and at most the head, which is final unless it is 1, and no height between it
  and the head is final.
\<close>

theorem head_search_exact:
  assumes "services C W A ((=) (Inr cur)) cur" "1 \<le> cur" "coherent_below cur W A s"
    and "\<forall>h \<le> cur. is_ok (ref_final A h)"
  shows "\<exists>v. fst (run (QueryFinalizedBlockInBabylon search_fuel C) s) = Some (Inr v) \<and> 0 < v \<and> v \<le> cur \<and>
    (v = 1 \<or> final_at A v) \<and> (\<forall>h. v < h \<longrightarrow> h < cur \<longrightarrow> \<not> final_at A h)"
  by (rule head_exact [OF assms])

theorem head_search_exact_witness: "fst (demo_run 3 5) = Some (Inr 3)"
proof -
  have ok: "\<forall>h \<le> 5. is_ok (ref_final (demo_answers (votes_upto 3)) h)"
    using small_mono [OF demo_small(2)] by (auto simp: demo_ref)
  have "v = 3" if "v \<le> 5" "v = 1 \<or> v \<le> 3" "\<forall>h. v < h \<longrightarrow> h < 5 \<longrightarrow> \<not> h \<le> (3 :: u64)" for v :: u64
  proof (rule ccontr)
    assume "v \<noteq> 3"
    with that(2) have "v < 3" by auto
    with that(3) show False by auto
  qed
  moreover obtain v where "fst (demo_run 3 5) = Some (Inr v)" "v \<le> 5" "v = 1 \<or> v \<le> 3"
    "\<forall>h. v < h \<longrightarrow> h < 5 \<longrightarrow> \<not> h \<le> 3"
    using head_search_exact [OF demo_services [OF demo_small] _ demo_start_coherent ok]
    by (auto simp: demo_run_def demo_final [OF demo_small(1)])
  ultimately show ?thesis by simp
qed

text \<open>
  (C6) While the services answer steadily, that is as a function of the question alone: any pool of queries for
  single heights, interleaved anyhow, started with caches that agree with those answers. Each query that returns
  agrees with the uncached decision \<open>ref_final\<close> on its height, and the caches still agree; so caching and
  concurrency change no answer as long as the services do not change theirs. Services whose answers change, such
  as votes that come in later, are not steady; what the caches then keep is the subject of the property on negative decisions below.
\<close>

theorem height_queries_refine:
  assumes "steady C W A" "coherent W A s"
    and "pool_steps (s, map (queryFinalizedBlockInBabylonByNumber C) hs) (t, qs)"
    and "i < length qs" "qs ! i = Ret r"
  shows "coherent W A t \<and> agrees r (ref_final A (hs ! i))"
proof -
  have "list_all2 (safe (coherent W A) keeps_last) (map (\<lambda>h r. agrees r (ref_final A h)) hs)
      (map (queryFinalizedBlockInBabylonByNumber C) hs)"
    using refines_byNumber [OF assms(1)] by (simp add: list_all2_conv_all_nth refines_def)
  with pool_steps_each [OF assms(3), where I = "coherent W A"] assms(2)
  have t: "coherent W A t" and
    each: "list_all2 (safe (coherent W A) keeps_last) (map (\<lambda>h r. agrees r (ref_final A h)) hs) qs" by auto
  have "i < length hs" using each assms(4) by (simp add: list_all2_lengthD [symmetric])
  with t each_returned [OF each assms(4,5)] show ?thesis by simp
qed

lemma demo_coherent: "coherent (\<lambda>w. True) A demo_start"
  using demo_start_coherent by (simp add: coherent_below_def)

theorem height_queries_refine_witness:
  "agrees (fst (run (queryFinalizedBlockInBabylonByNumber (demo_clients (votes_upto 3) 5) 4) demo_start))
     (Inr False)"
proof -
  let ?q = "queryFinalizedBlockInBabylonByNumber (demo_clients (votes_upto 3) 5)"
  have "pool_steps (demo_start, map ?q [4]) (snd (run (?q 4) demo_start), [Ret (fst (run (?q 4) demo_start))])"
    using run_is_schedule [of demo_start "?q 4"] by simp
  from height_queries_refine [OF demo_steady demo_coherent this, of 0] show ?thesis
    by (simp add: demo_ref small_def)
qed

text \<open>
  (C11) Whatever the clients answer, in any interleaving of any of the exported operations: no cache
  ever holds more than 4097 entries and the last finalized height never goes down.
\<close>

theorem any_requests_bounded:
  assumes "caches_bounded (prov s)" "pool_steps (s, map (serve fuel C) reqs) (t, qs)"
  shows "caches_bounded (prov t) \<and> lastFinalizedHeight (prov s) \<le> lastFinalizedHeight (prov t)"
  by (rule bounded.requests_keep [OF assms])

theorem any_requests_bounded_witness:
  "caches_bounded (prov (snd (run (serve search_fuel (demo_clients (votes_upto 3) 5) ReqHead) demo_start)))"
proof -
  let ?p = "serve search_fuel (demo_clients (votes_upto 3) 5) ReqHead"
  have "caches_bounded (prov demo_start)" by (simp add: demo_start_def)
  moreover have "pool_steps (demo_start, map (serve search_fuel (demo_clients (votes_upto 3) 5)) [ReqHead])
      (snd (run ?p demo_start), [Ret (fst (run ?p demo_start))])"
    using run_is_schedule [of demo_start ?p] by simp
  ultimately show ?thesis using any_requests_bounded by blast
qed

text \<open>
  (C27) The finalized cache maps heights to true and nothing else, whatever the clients answer and in any
  interleaving of any of the exported operations; so a query that asks only whether a height is present, as the
  code does, gives the value stored under it, and asks no client.
\<close>

theorem finalized_cache_holds_true:
  assumes "marks_final (prov s)" "pool_steps (s, map (serve fuel C) reqs) (t, qs)"
  shows "marks_final (prov t) \<and>
    (\<forall>h b. gm_get (finalizedCache (prov t)) h = Some b \<longrightarrow>
       b \<and> run (queryFinalizedBlockInBabylonByNumber D h) t = (Inr b, t))"
proof -
  have "marks_final (prov t)" using marked.requests_keep [OF assms] by simp
  moreover from this have "b" if "gm_get (finalizedCache (prov t)) h = Some b" for h b
    using cache_okD [of _ _ h b] that by (auto simp: marks_final_def)
  ultimately show ?thesis
    unfolding queryFinalizedBlockInBabylonByNumber_def by (auto simp: run_bindP)
qed

theorem finalized_cache_holds_true_witness:
  "marks_final (prov (snd (run (serve search_fuel (demo_clients (votes_upto 3) 5) ReqHead) demo_start)))"
proof -
  let ?p = "serve search_fuel (demo_clients (votes_upto 3) 5) ReqHead"
  have "marks_final (prov demo_start)" by (simp add: demo_start_def)
  moreover have "pool_steps (demo_start, map (serve search_fuel (demo_clients (votes_upto 3) 5)) [ReqHead])
      (snd (run ?p demo_start), [Ret (fst (run ?p demo_start))])"
    using run_is_schedule [of demo_start ?p] by simp
  ultimately show ?thesis using finalized_cache_holds_true by blast
qed

text \<open>
  (C12) The head request always returns, whatever the clients answer for blocks, votes, keys and
  powers, as long as heads stay below \<open>2 ^ 63\<close>: 64 halvings are enough, and a height it
  returns is below \<open>2 ^ 63\<close> too.
\<close>

theorem head_request_returns:
  assumes "\<And>w n. fst (ethBlockNumber C w) = Inr n \<Longrightarrow> unat n < 2 ^ 63"
    and "caches_bounded (prov s)" "unat (lastFinalizedHeight (prov s)) < 2 ^ 63"
  shows "\<exists>r. fst (run (QueryFinalizedBlockInBabylon search_fuel C) s) = Some r \<and>
    (\<forall>v. r = Inr v \<longrightarrow> unat v < 2 ^ 63)"
proof -
  have "safe small_inv (\<lambda>_ _. True) returned (QueryFinalizedBlockInBabylon search_fuel C)"
    by (rule handler_returns) (use assms(1) in \<open>auto simp: small_def\<close>)
  from safe_run [OF this, of s] assms(2,3) show ?thesis
    by (auto simp: small_inv_def bounded_inv_def small_def returned_def)
qed

theorem head_request_returns_witness:
  "\<exists>r. fst (demo_run 3 5) = Some r \<and> (\<forall>v. r = Inr v \<longrightarrow> unat v < 2 ^ 63)"
  unfolding demo_run_def
  by (rule head_request_returns) (auto simp: demo_clients_def demo_start_def, simp add: newProvider_def)



subsection \<open>The decision on one block\<close>

text \<open>
  (C8) The quorum rule, exactly: when the powers and the list of voters could be had, the list has no
  duplicates and three times the total power stays below \<open>2 ^ 64\<close>, a block with some power
  behind it is decided final if and only if its voters hold at least two thirds of the total power,
  as natural numbers.
\<close>

theorem decision_exact:
  assumes "run (queryAllPkPower C b) s = (Inr pow, t)" "total_power pow \<noteq> 0"
    and "run (queryListOfVotedFinalityProviders C b) t = (Inr (Some pks), u)" "votes_ok pow pks"
  shows "fst (run (decide_block C b) s) = Inr (2 * total_nat pow \<le> 3 * sum (power_of pow) (set pks))"
  using assms by (simp add: decide_block_def run_tryP quorum_reached_iff)

definition demo_l2 :: "u64 \<Rightarrow> l2block" where
  "demo_l2 n = \<lparr>BlockHash = ''a'', BlockTimestamp = 9, BlockHeight = n\<rparr>"

lemma demo_powers_run: "\<exists>t. run (queryAllPkPower (demo_clients votes cur) b) demo_start = (Inr demo_powers, t) \<and>
    votedFpPksCache (prov t) = gm_empty"
  by (simp add: queryAllPkPower_def queryAllFpBtcPubKeys_def getBlockHeightByTimestamp_def queryMultiFpPower_def
      run_simps run_memoP fps_lookup_def fps_store_def demo_clients_def demo_start_def newProvider_def)

lemma demo_votes_run:
  "gm_get (votedFpPksCache (prov t)) (BlockHash b) = None \<Longrightarrow>
   fst (run (queryListOfVotedFinalityProviders (demo_clients votes cur) b) t) = Inr (votes b)"
  by (simp add: queryListOfVotedFinalityProviders_def run_memoP demo_clients_def)

lemma demo_votes_ok: "votes_ok demo_powers [''fp'']" and demo_total_nat: "total_nat demo_powers = 3"
  by (simp_all add: votes_ok_def no_overflow_def total_nat_def demo_powers_def gm_entries_put)

theorem decision_exact_witness:
  "fst (run (decide_block (demo_clients (votes_upto 3) 5) (demo_l2 3)) demo_start) = Inr True"
proof -
  let ?C = "demo_clients (votes_upto 3) 5"
  obtain t where t: "run (queryAllPkPower ?C (demo_l2 3)) demo_start = (Inr demo_powers, t)"
    "votedFpPksCache (prov t) = gm_empty" using demo_powers_run by blast
  obtain u where u: "run (queryListOfVotedFinalityProviders ?C (demo_l2 3)) t = (Inr (Some [''fp'']), u)"
    using demo_votes_run [of t "demo_l2 3" "votes_upto 3" 5] t(2)
    by (cases "run (queryListOfVotedFinalityProviders ?C (demo_l2 3)) t") (simp add: votes_upto_def demo_l2_def)
  have "power_of demo_powers ''fp'' = 3" by (simp add: power_of_def demo_powers_def)
  with decision_exact [OF t(1) _ u demo_votes_ok] show ?thesis by (simp add: demo_total demo_total_nat)
qed

text \<open>
  (C9) Two blocks decided final on the same powers share voters that hold at least a third of the
  power. So if less than a third of the power votes for two blocks of one height, no two are final.
\<close>

theorem final_blocks_share_third:
  assumes "votes_ok pow vs" "votes_ok pow ws"
    and "block_decision pow (Some vs)" "block_decision pow (Some ws)"
  shows "total_nat pow \<le> 3 * sum (power_of pow) (set vs \<inter> set ws)"
  using assms by (intro quorum.quorums_intersect) (simp_all add: block_decision_def)

theorem final_blocks_share_third_witness: "total_nat demo_powers \<le> 3 * sum (power_of demo_powers) {''fp''}"
  using final_blocks_share_third [of demo_powers "[''fp'']" "[''fp'']"]
  by (simp add: demo_votes_ok block_decision_def demo_voted demo_total quorum_reached_def)

text \<open>
  (C18) A set of providers with more than a third of the power blocks finality by not voting, and
  further votes never take finality away.
\<close>

theorem third_blocks_more_votes_help:
  assumes "votes_ok pow vs"
  shows "(finite B \<and> set vs \<inter> B = {} \<and> total_nat pow < 3 * sum (power_of pow) B \<longrightarrow>
      \<not> block_decision pow (Some vs)) \<and>
    (votes_ok pow ws \<and> set vs \<subseteq> set ws \<and> block_decision pow (Some vs) \<longrightarrow> block_decision pow (Some ws))"
  using assms quorum.third_blocks [of pow vs B] quorum.decide_more_votes [of pow vs ws]
  by (auto simp: block_decision_def)

theorem third_blocks_more_votes_help_witness: "\<not> block_decision demo_powers (Some [])"
proof -
  have "votes_ok demo_powers []" using demo_votes_ok by (simp add: votes_ok_def)
  moreover have "total_nat demo_powers < 3 * sum (power_of demo_powers) {''fp''}"
    by (simp add: demo_total_nat) (simp add: power_of_def demo_powers_def)
  ultimately show ?thesis using third_blocks_more_votes_help [of demo_powers "[]" "{''fp''}"] by simp
qed

text \<open>
  (C22) No power behind the chain: the block is final, whatever the votes, and the contract is not
  asked.
\<close>

theorem no_power_is_final:
  assumes "run (queryAllPkPower C b) s = (Inr pow, t)" "\<forall>k. gm_get pow k = None \<or> gm_get pow k = Some 0"
  shows "run (decide_block C b) s = (Inr True, t)"
proof -
  have "\<forall>e \<in> set (gm_entries pow). snd e = 0"
    using assms(2) by (metis gm_get_Some_iff option.distinct(1) option.inject prod.collapse)
  then have "map snd (gm_entries pow) = map (\<lambda>_. 0) (gm_entries pow)"
    by (intro map_cong) auto
  then have "total_power pow = 0"
    by (simp only: total_power_def sum_powers_sum_list sum_list_0)
  with assms(1) show ?thesis by (simp add: decide_block_def run_tryP)
qed

theorem no_power_is_final_witness:
  "\<exists>t. run (decide_block (demo_clients (votes_upto 3) 5) (demo_l2 4))
     (demo_start\<lparr>prov := newProvider\<lparr>multiFpPowerCache := gm_put gm_empty 7 (gm_put gm_empty ''fp'' 0)\<rparr>\<rparr>) = (Inr True, t)"
proof -
  let ?s = "demo_start\<lparr>prov := newProvider\<lparr>multiFpPowerCache := gm_put gm_empty 7 (gm_put gm_empty ''fp'' 0)\<rparr>\<rparr>"
  obtain t where "run (queryAllPkPower (demo_clients (votes_upto 3) 5) (demo_l2 4)) ?s =
      (Inr (gm_put gm_empty ''fp'' 0), t)"
    by (auto simp: queryAllPkPower_def queryAllFpBtcPubKeys_def getBlockHeightByTimestamp_def queryMultiFpPower_def
        run_simps run_memoP fps_lookup_def fps_store_def demo_clients_def demo_start_def newProvider_def)
  from no_power_is_final [OF this] show ?thesis by auto
qed

text \<open>
  The sums and the test are in 64 bits. With a total power of \<open>2 ^ 63\<close> twice the total wraps
  to zero, so a block nobody voted for is decided final; the bound of the exact rule is needed.
\<close>

theorem quorum_overflow:
  "block_decision (gm_put gm_empty k (2 ^ 63)) (Some []) \<and> total_power (gm_put gm_empty k (2 ^ 63)) \<noteq> 0"
  by (simp add: block_decision_def total_power_def voted_power_def sum_powers_def quorum_reached_def gm_entries_put)

text \<open>
  A provider listed \<open>n\<close> times by the contract counts \<open>n\<close> times: the code relies on
  the contract to list each voter once.
\<close>

theorem duplicate_votes_count:
  "voted_power pow (concat (replicate n pks)) = of_nat n * voted_power pow pks"
  by (induction n) (auto simp: voted_power_sum_list algebra_simps)

text \<open>
  (C31) The order in which Go visits the entries of the power map, and the order of the voters, do
  not matter: maps with the same entries have the same total, permuted votes the same voted power, and
  the decision is the same.
\<close>

theorem decision_order_independent:
  assumes "\<forall>k. gm_get pow k = gm_get pow' k" "mset pks = mset pks'"
  shows "total_power pow = total_power pow' \<and> voted_power pow pks = voted_power pow' pks' \<and>
    block_decision pow (Some pks) = block_decision pow' (Some pks')"
proof -
  have "map_of (gm_entries pow) = map_of (gm_entries pow')"
    using assms(1) by (auto simp: gm_get_entries)
  then have "set (gm_entries pow) = set (gm_entries pow')"
    by (simp add: map_of_inject_set)
  then have "mset (gm_entries pow) = mset (gm_entries pow')"
    by (intro set_eq_iff_mset_eq_distinct [THEN iffD1]) (use distinct_gm_entries in \<open>auto simp: distinct_map\<close>)
  then have "mset (map snd (gm_entries pow)) = mset (map snd (gm_entries pow'))"
    by simp
  then have total: "total_power pow = total_power pow'"
    by (simp only: total_power_def sum_powers_sum_list sum_mset_sum_list [symmetric])
  have "mset (map (\<lambda>k. case gm_get pow k of Some p \<Rightarrow> p | None \<Rightarrow> 0) pks) =
      mset (map (\<lambda>k. case gm_get pow' k of Some p \<Rightarrow> p | None \<Rightarrow> 0) pks')"
    using assms by simp
  then have "voted_power pow pks = voted_power pow' pks'"
    by (simp only: voted_power_sum_list sum_mset_sum_list [symmetric])
  with total show ?thesis by (simp add: block_decision_def)
qed

theorem decision_order_independent_witness:
  "block_decision (gm_put (gm_put gm_empty ''x'' 1) ''y'' 2) (Some [''x'', ''y'']) =
   block_decision (gm_put (gm_put gm_empty ''y'' 2) ''x'' 1) (Some [''y'', ''x''])"
  using decision_order_independent
    [of "gm_put (gm_put gm_empty ''x'' 1) ''y'' 2" "gm_put (gm_put gm_empty ''y'' 2) ''x'' 1" "[''x'', ''y'']" "[''y'', ''x'']"]
  by simp

subsection \<open>What the caches remember\<close>

text \<open>
  (C20) A height once found not final keeps that answer: the votes it was based on stay cached, so
  asking again returns not final whatever the contract would now answer, until the cache is thrown
  away.
\<close>

theorem negative_decision_sticks:
  assumes "steady C W A" "coherent W A s" "ref_final A h = Inr False"
  shows "fst (run (queryFinalizedBlockInBabylonByNumber (C\<lparr>cwQueryListOfVotedFinalityProviders := f\<rparr>) h)
    (snd (run (queryFinalizedBlockInBabylonByNumber C h) s))) = Inr False"
proof -
  have ask: "coherent W A (snd (run (queryFinalizedBlockInBabylonByNumber C h) u)) \<and>
      fst (run (queryFinalizedBlockInBabylonByNumber C h) u) = Inr False" if "coherent W A u" for u
    using safe_run [OF refines_byNumber [OF assms(1), unfolded refines_def] that, of h] assms(3)
    by (cases "fst (run (queryFinalizedBlockInBabylonByNumber C h) u)") auto
  obtain t where t: "run (queryFinalizedBlockInBabylonByNumber C h) s = (Inr False, t)" "coherent W A t"
    using ask [OF assms(2)] by (metis prod.collapse)
  obtain blk v where "gm_get (l2BlockCache (prov t)) h = Some blk"
      "gm_get (votedFpPksCache (prov t)) (BlockHash (trim_hash (block_of blk))) = Some v"
    using byNumber_False_cached [OF t(1)] by blast
  from byNumber_ignores_votes [OF this] ask [OF t(2)] t(1) show ?thesis by simp
qed

theorem negative_decision_sticks_witness:
  "fst (run (queryFinalizedBlockInBabylonByNumber (demo_clients (votes_upto 4) 5) 4)
     (snd (run (queryFinalizedBlockInBabylonByNumber (demo_clients (votes_upto 3) 5) 4) demo_start))) = Inr False \<and>
   ref_final (demo_answers (votes_upto 4)) 4 = Inr True"
proof -
  have "demo_clients (votes_upto 4) 5 = demo_clients (votes_upto 3) 5
      \<lparr>cwQueryListOfVotedFinalityProviders := (\<lambda>b w. (Inr (votes_upto 4 b), w))\<rparr>"
    by (simp add: demo_clients_def)
  moreover have "ref_final (demo_answers (votes_upto 3)) 4 = Inr False"
    by (simp add: demo_ref small_def)
  ultimately show ?thesis
    using negative_decision_sticks [OF demo_steady demo_coherent] by (simp add: demo_ref small_def)
qed

text \<open>
  The list of finality providers is reused, and only the clock read, while it is not empty and at
  most 240 seconds old; otherwise a list that is returned was fetched now, and is cached with the time
  read after the fetch.
\<close>

theorem finality_provider_list_ttl:
  "(fps_fresh (prov s) (fst (timeNow C (world s))) \<longrightarrow>
     run (queryAllFpBtcPubKeys C) s = (Inr (allFpsCache (prov s)), s\<lparr>world := snd (timeNow C (world s))\<rparr>)) \<and>
   (\<not> fps_fresh (prov s) (fst (timeNow C (world s))) \<and> run (queryAllFpBtcPubKeys C) s = (Inr pks, t) \<longrightarrow>
     (\<exists>i w. bbnQueryAllFpBtcPubKeys C i (fst w) = (Inr pks, snd w) \<and> allFpsCache (prov t) = pks \<and>
        allFpsCacheLastTime (prov t) = fst (timeNow C (snd w))))"
  using run_fps_fresh run_fps_refetch by blast

theorem finality_provider_list_ttl_witness:
  "run (queryAllFpBtcPubKeys (demo_clients (votes_upto 3) 5))
     \<lparr>world = 240 * 10 ^ 9 + 1, prov = newProvider\<lparr>allFpsCache := [''old''], allFpsCacheLastTime := 1\<rparr>\<rparr> =
   (Inr [''old''], \<lparr>world = 240 * 10 ^ 9 + 2, prov = newProvider\<lparr>allFpsCache := [''old''], allFpsCacheLastTime := 1\<rparr>\<rparr>)"
  using finality_provider_list_ttl
    [of "\<lparr>world = 240 * 10 ^ 9 + 1, prov = newProvider\<lparr>allFpsCache := [''old''], allFpsCacheLastTime := 1\<rparr>\<rparr>"
      "demo_clients (votes_upto 3) 5"]
  by (simp add: fps_fresh_def demo_clients_def duration_sub_def)

text \<open>The heights whose call has returned.\<close>

definition set_heights :: "u64 list \<Rightarrow> ('w psys, unit) prog list \<Rightarrow> u64 set" where
  "set_heights hs qs = {h. \<exists>i < length qs. h = hs ! i \<and> qs ! i = Ret ()}"

lemma finite_set_heights [simp]: "finite (set_heights hs qs)"
proof -
  have "set_heights hs qs \<subseteq> (!) hs ` {..< length qs}" by (auto simp: set_heights_def)
  then show ?thesis by (rule finite_subset) simp
qed

lemma set_heights_update:
  assumes "i < length qs" "qs ! i \<noteq> Ret ()"
  shows "set_heights hs (qs[i := Ret ()]) = insert (hs ! i) (set_heights hs qs)"
  using assms by (auto simp: set_heights_def nth_list_update)

lemma SetLastFinalized_Act: "SetLastFinalized h = Act (on_prov (set_last h)) (\<lambda>s. Ret ())"
  by (simp add: SetLastFinalized_def modifyP_def)

lemma set_heights_step:
  assumes "pool_step cfg cfg'" "length (snd cfg) = length hs"
    and "\<forall>i < length hs. snd cfg ! i = Ret () \<or> snd cfg ! i = SetLastFinalized (hs ! i)"
    and "lastFinalizedHeight (prov (fst cfg)) = Max (insert m (set_heights hs (snd cfg)))"
  shows "length (snd cfg') = length hs \<and>
    (\<forall>i < length hs. snd cfg' ! i = Ret () \<or> snd cfg' ! i = SetLastFinalized (hs ! i)) \<and>
    lastFinalizedHeight (prov (fst cfg')) = Max (insert m (set_heights hs (snd cfg')))"
  using assms
proof (induction rule: pool_step.induct)
  case (pool_act i ps u c s)
  then have "i < length hs" by simp
  with pool_act have "Act u c = SetLastFinalized (hs ! i)" by force
  then have u: "u = on_prov (set_last (hs ! i))" "c s = Ret ()"
    by (simp_all add: SetLastFinalized_Act)
  have "set_heights hs (ps[i := Ret ()]) = insert (hs ! i) (set_heights hs ps)"
    using pool_act by (intro set_heights_update) auto
  then have "Max (insert m (set_heights hs (ps[i := Ret ()]))) = max (hs ! i) (Max (insert m (set_heights hs ps)))"
    by (simp add: insert_commute [of m])
  with u pool_act show ?case
    by (auto simp: nth_list_update last_final.get_set max.commute)
qed

text \<open>
  (C19) Concurrent calls of \<open>SetLastFinalized\<close>, in any order: at every moment the register holds
  the maximum of its first value and the heights whose call has returned, so no update is lost and a
  late lower height changes nothing.
\<close>

theorem set_last_finalized_any_order:
  assumes "pool_steps (s, map SetLastFinalized hs) (t, qs)"
  shows "lastFinalizedHeight (prov t) = Max (insert (lastFinalizedHeight (prov s)) (set_heights hs qs))"
proof -
  have "length (snd cfg') = length hs \<and>
      (\<forall>i < length hs. snd cfg' ! i = Ret () \<or> snd cfg' ! i = SetLastFinalized (hs ! i)) \<and>
      lastFinalizedHeight (prov (fst cfg')) = Max (insert m (set_heights hs (snd cfg')))"
    if "pool_steps cfg cfg'" "cfg = (s, map SetLastFinalized hs)" "m = lastFinalizedHeight (prov s)" for cfg cfg' m
    using that
  proof (induction rule: pool_steps.induct)
    case (pool_refl cfg)
    then have "set_heights hs (snd cfg) = {}"
      by (simp add: set_heights_def SetLastFinalized_Act)
    with pool_refl show ?case by simp
  next
    case (pool_trans cfg cfg' cfg'')
    then show ?case using set_heights_step by blast
  qed
  from this [OF assms] show ?thesis by simp
qed

theorem set_last_finalized_any_order_witness:
  "lastFinalizedHeight (prov (snd (run (SetLastFinalized 7) demo_start))) = 7"
proof -
  have "pool_steps (demo_start, map SetLastFinalized [7]) (snd (run (SetLastFinalized 7) demo_start), [Ret ()])"
    using run_is_schedule [of demo_start "SetLastFinalized 7"] by simp
  from set_last_finalized_any_order [OF this] show ?thesis
    by (simp add: set_heights_def demo_start_def newProvider_def max_def)
qed

end
