(* ===== verification/Rpc.thy ===== *)
theory Rpc
  imports ProviderTheorems
begin

text \<open>
  The JSON-RPC handler (rpc/rpc.go): \<open>eth_getBlockByNumber\<close> goes to the chain as it is, except
  for the tag \<open>finalized\<close>, which is answered with the block of the height Babylon has finalized.
  The chain's \<open>CallContext\<close>, the tag and the printing of block numbers belong to go-ethereum and
  are parameters; a raw answer is a value of any type.
\<close>

record ('w, 'j) rpc_calls =
  callContext :: "string \<Rightarrow> string \<Rightarrow> bool \<Rightarrow> 'w \<Rightarrow> 'j res \<times> 'w"
  blockNumberString :: "i64 \<Rightarrow> string"
  FinalizedBlockNumber :: i64

definition call_block :: "('w, 'j) rpc_calls \<Rightarrow> i64 \<Rightarrow> bool \<Rightarrow> ('w psys, 'j res) prog" where
  "call_block R number fullTx =
     extP (callContext R ''eth_getBlockByNumber'' (blockNumberString R number) fullTx)"

definition handler_init :: "nat \<Rightarrow> 'w clients \<Rightarrow> ('w psys, unit res option) prog" where
  "handler_init fuel C = bindP (QueryFinalizedBlockInBabylon fuel C) (\<lambda>r. Ret (case r of
      None \<Rightarrow> None
    | Some (Inl e) \<Rightarrow> Some (Inl (EWrap ''failed to QueryFinalizedBlockInBabylon'' e))
    | Some (Inr _) \<Rightarrow> Some (Inr ())))"

definition GetBlockByNumber :: "nat \<Rightarrow> 'w clients \<Rightarrow> ('w, 'j) rpc_calls \<Rightarrow> i64 \<Rightarrow> bool \<Rightarrow> ('w psys, 'j res option) prog" where
  "GetBlockByNumber fuel C R number fullTx =
     (if number \<noteq> FinalizedBlockNumber R then bindP (call_block R number fullTx) (\<lambda>r. Ret (Some r))
      else bindP (QueryFinalizedBlockInBabylon fuel C) (\<lambda>r. case r of
          None \<Rightarrow> Ret None
        | Some (Inl e) \<Rightarrow> Ret (Some (Inl (EWrap ''failed to QueryFinalizedBlockInBabylon'' e)))
        | Some (Inr finalized) \<Rightarrow> bindP (call_block R finalized fullTx) (\<lambda>r. Ret (Some r))))"

text \<open>
  \<open>StartServer\<close> initialises the handler, whose error is only logged, and then serves requests
  concurrently: the pool of a server is what its requests are running.
\<close>

datatype rpc_request = GetBlock i64 bool

definition serve_rpc :: "nat \<Rightarrow> 'w clients \<Rightarrow> ('w, 'j) rpc_calls \<Rightarrow> rpc_request \<Rightarrow> ('w psys, 'j res option) prog" where
  "serve_rpc fuel C R req = (case req of GetBlock number fullTx \<Rightarrow> GetBlockByNumber fuel C R number fullTx)"

definition StartServer :: "nat \<Rightarrow> 'w clients \<Rightarrow> ('w, 'j) rpc_calls \<Rightarrow> rpc_request list \<Rightarrow> 'w psys \<Rightarrow>
    'w psys \<times> ('w psys, 'j res option) prog list" where
  "StartServer fuel C R reqs s = (snd (run (handler_init fuel C) s), map (serve_rpc fuel C R) reqs)"

subsection \<open>The handler's contract\<close>

text \<open>A chain that answers every number the same way in all worlds of \<open>W\<close>.\<close>

definition rpc_steady :: "('w, 'j) rpc_calls \<Rightarrow> ('w \<Rightarrow> bool) \<Rightarrow> (string \<Rightarrow> bool \<Rightarrow> 'j res) \<Rightarrow> bool" where
  "rpc_steady R W ans = (\<forall>w n f. W w \<longrightarrow>
     fst (callContext R ''eth_getBlockByNumber'' n f w) = ans n f \<and> W (snd (callContext R ''eth_getBlockByNumber'' n f w)))"

definition block_reply :: "answers \<Rightarrow> (u64 res \<Rightarrow> bool) \<Rightarrow> u64 \<Rightarrow> ('w, 'j) rpc_calls \<Rightarrow>
    (string \<Rightarrow> bool \<Rightarrow> 'j res) \<Rightarrow> rpc_request \<Rightarrow> 'j res option \<Rightarrow> bool" where
  "block_reply A heads L R ans req r = (case req of GetBlock number fullTx \<Rightarrow>
     if number \<noteq> FinalizedBlockNumber R then r = Some (ans (blockNumberString R number) fullTx)
     else (\<exists>e. r = Some (Inl (EWrap ''failed to QueryFinalizedBlockInBabylon'' e)) \<and> head_result A heads L (Some (Inl e))) \<or>
       (\<exists>v. head_result A heads L (Some (Inr v)) \<and> r = Some (ans (blockNumberString R v) fullTx)))"

lemma call_block_safe:
  assumes "rpc_steady R W ans"
  shows "safe (coherent_below L W A) grows (\<lambda>r. r = ans (blockNumberString R n) f) (call_block R n f)"
  unfolding call_block_def extP_def
proof (rule safe_actP)
  fix s :: "'a psys"
  let ?w = "callContext R ''eth_getBlockByNumber'' (blockNumberString R n) f (world s)"
  assume s: "coherent_below L W A s"
  then have "fst ?w = ans (blockNumberString R n) f \<and> W (snd ?w)"
    using assms by (simp add: rpc_steady_def coherent_below_def coherent_def)
  with s show "coherent_below L W A (snd (case ?w of (a, w) \<Rightarrow> (a, s\<lparr>world := w\<rparr>))) \<and>
      grows s (snd (case ?w of (a, w) \<Rightarrow> (a, s\<lparr>world := w\<rparr>))) \<and>
      fst (case ?w of (a, w) \<Rightarrow> (a, s\<lparr>world := w\<rparr>)) = ans (blockNumberString R n) f"
    by (auto simp: coherent_below_def coherent_def split: prod.splits)
qed

lemma serve_rpc_safe:
  assumes "services C W A heads L" "1 \<le> L" "rpc_steady R W ans"
  shows "safe (coherent_below L W A) grows (block_reply A heads L R ans req) (serve_rpc search_fuel C R req)"
proof -
  obtain number fullTx where req: "req = GetBlock number fullTx" by (cases req)
  note call = safe_bindP [OF call_block_safe [OF assms(3)]]
  have head: "safe (coherent_below L W A) grows (head_result A heads L) (QueryFinalizedBlockInBabylon search_fuel C)"
    by (rule handler_safe [OF assms(1,2)])
  have "safe (coherent_below L W A) grows (block_reply A heads L R ans req) (GetBlockByNumber search_fuel C R number fullTx)"
  proof (cases "number = FinalizedBlockNumber R")
    case False
    with req show ?thesis
      by (auto simp: GetBlockByNumber_def block_reply_def intro!: call)
  next
    case True
    have "safe (coherent_below L W A) grows (block_reply A heads L R ans req)
        (case r of None \<Rightarrow> Ret None
         | Some (Inl e) \<Rightarrow> Ret (Some (Inl (EWrap ''failed to QueryFinalizedBlockInBabylon'' e)))
         | Some (Inr finalized) \<Rightarrow> bindP (call_block R finalized fullTx) (\<lambda>r. Ret (Some r)))"
      if "head_result A heads L r" for r
    proof (cases r)
      case None
      with that show ?thesis by (simp add: head_result_def)
    next
      case (Some x)
      with that req True show ?thesis
        by (cases x) (auto simp: block_reply_def intro!: call)
    qed
    with True show ?thesis
      unfolding GetBlockByNumber_def by (simp add: safe_bindP [OF head])
  qed
  with req show ?thesis by (simp add: serve_rpc_def)
qed

lemma handler_init_safe:
  assumes "services C W A heads L" "1 \<le> L"
  shows "safe (coherent_below L W A) grows (\<lambda>_. True) (handler_init search_fuel C)"
  unfolding handler_init_def by (rule safe_bindP [OF handler_safe [OF assms]]) simp

subsection \<open>Properties\<close>

definition demo_rpc :: "(int, string) rpc_calls" where
  "demo_rpc = \<lparr>callContext = (\<lambda>m n f w. (Inr n, w)),
     blockNumberString = (\<lambda>n. if sint n < 0 then ''tag'' else show_u64 n), FinalizedBlockNumber = - 3\<rparr>"

lemma demo_rpc_steady: "rpc_steady demo_rpc (\<lambda>w. True) (\<lambda>n f. Inr n)"
  by (simp add: rpc_steady_def demo_rpc_def)

text \<open>
  A served RPC endpoint, any requests in any interleaving, after an initialisation that may have
  failed: every request that returns is answered as it should be. A plain number gets the chain's own
  answer; \<open>finalized\<close> gets the chain's answer for a height the head search may return (final, or at
  most 1, with no final height between it and the head), or its error, wrapped.
\<close>

theorem rpc_requests_answered:
  assumes "services C W A heads L" "1 \<le> L" "rpc_steady R W ans" "coherent_below L W A s"
    and "pool_steps (StartServer search_fuel C R reqs s) (t, qs)"
    and "i < length qs" "qs ! i = Ret r"
  shows "coherent_below L W A t \<and> block_reply A heads L R ans (reqs ! i) r"
proof -
  have init: "coherent_below L W A (snd (run (handler_init search_fuel C) s))"
    using safe_run [OF handler_init_safe [OF assms(1,2)] assms(4)] by simp
  have "list_all2 (safe (coherent_below L W A) grows) (map (block_reply A heads L R ans) reqs)
      (map (serve_rpc search_fuel C R) reqs)"
    using serve_rpc_safe [OF assms(1-3)] by (simp add: list_all2_conv_all_nth)
  with pool_steps_each [OF assms(5), where I = "coherent_below L W A"] init
  have t: "coherent_below L W A t" and
    each: "list_all2 (safe (coherent_below L W A) grows) (map (block_reply A heads L R ans) reqs) qs"
    by (auto simp: StartServer_def)
  have "i < length reqs" using each assms(6) by (simp add: list_all2_lengthD [symmetric])
  with t each_returned [OF each assms(6,7)] show ?thesis by simp
qed

theorem rpc_requests_answered_witness:
  "block_reply (demo_answers (votes_upto 3)) ((=) (Inr 5)) 5 demo_rpc (\<lambda>n f. Inr n) (GetBlock (- 3) True)
     (fst (run (serve_rpc search_fuel (demo_clients (votes_upto 3) 5) demo_rpc (GetBlock (- 3) True))
        (snd (run (handler_init search_fuel (demo_clients (votes_upto 3) 5)) demo_start))))"
proof -
  let ?C = "demo_clients (votes_upto 3) 5" and ?req = "GetBlock (- 3) True"
  let ?s = "snd (run (handler_init search_fuel ?C) demo_start)"
  let ?p = "serve_rpc search_fuel ?C demo_rpc ?req"
  have "pool_steps (StartServer search_fuel ?C demo_rpc [?req] demo_start) (snd (run ?p ?s), [Ret (fst (run ?p ?s))])"
    using run_is_schedule [of ?s ?p] by (simp add: StartServer_def)
  from rpc_requests_answered [OF demo_services [OF demo_small] _ demo_rpc_steady demo_start_coherent this, of 0]
  show ?thesis by simp
qed

text \<open>
  The branches of \<open>eth_getBlockByNumber\<close>: any other number makes one call of the chain and
  leaves the provider alone; \<open>finalized\<close> with a failing head search returns the error wrapped and
  does not ask the chain for a block; otherwise the block asked for is the one of the height found.
\<close>

theorem get_block_branches:
  assumes "run (QueryFinalizedBlockInBabylon fuel C) s = (Some x, t)"
  shows "run (GetBlockByNumber fuel C R number fullTx) s =
    (if number \<noteq> FinalizedBlockNumber R then
       (let a = callContext R ''eth_getBlockByNumber'' (blockNumberString R number) fullTx (world s)
        in (Some (fst a), s\<lparr>world := snd a\<rparr>))
     else case x of
       Inl e \<Rightarrow> (Some (Inl (EWrap ''failed to QueryFinalizedBlockInBabylon'' e)), t)
     | Inr v \<Rightarrow>
       (let a = callContext R ''eth_getBlockByNumber'' (blockNumberString R v) fullTx (world t)
        in (Some (fst a), t\<lparr>world := snd a\<rparr>)))"
  using assms by (simp add: GetBlockByNumber_def call_block_def run_bindP Let_def split: sum.splits)

definition down_clients :: "int clients" where
  "down_clients = (demo_clients (votes_upto 3) 5)\<lparr>ethBlockNumber := (\<lambda>w. (Inl (EText ''down''), w))\<rparr>"

theorem get_block_branches_witness:
  "run (GetBlockByNumber search_fuel down_clients demo_rpc (- 3) True) demo_start =
    (Some (Inl (EWrap ''failed to QueryFinalizedBlockInBabylon'' (EWrap ''failed to got blockNumber'' (EText ''down'')))),
     demo_start)"
proof -
  have "run (QueryFinalizedBlockInBabylon search_fuel down_clients) demo_start =
      (Some (Inl (EWrap ''failed to got blockNumber'' (EText ''down''))), demo_start)"
    by (simp add: QueryFinalizedBlockInBabylon_def tryO_def run_simps down_clients_def demo_start_def)
  from get_block_branches [OF this, of demo_rpc "- 3" True] show ?thesis by (simp add: demo_rpc_def)
qed

end
