(* ===== verification/Transitions.thy ===== *)
theory Transitions
  imports Main
begin

text \<open>
  State machines given by a step relation: the contracts under which an invariant, a simulation and the
  end of a run carry over from single steps to whole runs. A run is the reflexive transitive closure of
  the steps. The components with goroutines of their own interpret these contracts.
\<close>

subsection \<open>Invariants\<close>

locale machine =
  fixes step :: "'s \<Rightarrow> 's \<Rightarrow> bool"
    and inv :: "'s \<Rightarrow> bool"
  assumes step_inv: "step s t \<Longrightarrow> inv s \<Longrightarrow> inv t"
begin

lemma run_inv: "step\<^sup>*\<^sup>* s t \<Longrightarrow> inv s \<Longrightarrow> inv t"
  by (induction rule: rtranclp_induct) (auto intro: step_inv)

text \<open>A fact that each step keeps under the invariant holds along runs.\<close>

lemma run_keeps:
  assumes "step\<^sup>*\<^sup>* s t" "inv s" "P s" "\<And>s t. step s t \<Longrightarrow> inv s \<Longrightarrow> P s \<Longrightarrow> P t"
  shows "P t"
proof -
  have "inv t \<and> P t"
    using assms(1) by (induction rule: rtranclp_induct) (use assms(2-) in \<open>auto intro: step_inv\<close>)
  then show ?thesis ..
qed

end

subsection \<open>Reaching a goal\<close>

text \<open>
  From every state of interest short of the goal some run leads to a state of interest of lower rank;
  then the goal can be reached.
\<close>

locale progress_machine = machine +
  fixes live :: "'s \<Rightarrow> bool"
    and goal :: "'s \<Rightarrow> bool"
    and rank :: "'s \<Rightarrow> nat"
  assumes progress: "inv s \<Longrightarrow> live s \<Longrightarrow> \<not> goal s \<Longrightarrow> \<exists>t. step\<^sup>*\<^sup>* s t \<and> live t \<and> rank t < rank s"
begin

lemma reaches_goal: "inv s \<Longrightarrow> live s \<Longrightarrow> \<exists>t. step\<^sup>*\<^sup>* s t \<and> live t \<and> goal t"
proof (induction "rank s" arbitrary: s rule: less_induct)
  case less
  show ?case
  proof (cases "goal s")
    case True
    with less.prems show ?thesis by blast
  next
    case False
    then obtain t where t: "step\<^sup>*\<^sup>* s t" "live t" "rank t < rank s"
      using progress less.prems by blast
    from less.hyps [OF t(3) run_inv [OF t(1) less.prems(1)] t(2)]
    obtain u where "step\<^sup>*\<^sup>* t u" "live u" "goal u" by blast
    with t(1) show ?thesis by (blast intro: rtranclp_trans)
  qed
qed

end

subsection \<open>Simulation\<close>

locale simulation = machine +
  fixes astep :: "'a \<Rightarrow> 'a \<Rightarrow> bool"
    and abs :: "'s \<Rightarrow> 'a"
  assumes simulates: "step s t \<Longrightarrow> inv s \<Longrightarrow> astep\<^sup>*\<^sup>* (abs s) (abs t)"
begin

lemma run_simulates: "step\<^sup>*\<^sup>* s t \<Longrightarrow> inv s \<Longrightarrow> astep\<^sup>*\<^sup>* (abs s) (abs t)"
proof (induction rule: rtranclp_induct)
  case (step t u)
  then show ?case by (blast intro: run_inv simulates rtranclp_trans)
qed simp

end

end
