(* ===== verification/HttpServer.thy ===== *)
theory HttpServer
  imports Resumption Transitions
begin

text \<open>
  The part of \<open>net/http.Server\<close> that the RPC server and the metrics server use, and the request logger
  of rpc/rpc.go. A server accepts requests while it listens; each is a goroutine that runs the handler's
  atomic sections, interleaved with all others, and then writes its reply; \<open>Shutdown\<close> closes the
  listener and waits until no request is running.
\<close>

subsection \<open>The server\<close>

datatype ('q, 's, 'a) conn = Active 'q "('s, 'a) prog" | Replied 'q 'a

record ('q, 's, 'a) http_server =
  hsListening :: bool
  hsInShutdown :: bool
  hsConns :: "('q, 's, 'a) conn list"

definition new_http :: "('q, 's, 'a) http_server" where
  "new_http = \<lparr>hsListening = False, hsInShutdown = False, hsConns = []\<rparr>"

inductive http_step :: "('q \<Rightarrow> ('s, 'a) prog) \<Rightarrow> 's \<times> ('q, 's, 'a) http_server \<Rightarrow> 's \<times> ('q, 's, 'a) http_server \<Rightarrow> bool"
  for handle where
  http_accept: "hsListening h \<Longrightarrow> \<not> hsInShutdown h \<Longrightarrow>
     http_step handle (s, h) (s, h\<lparr>hsConns := hsConns h @ [Active q (handle q)]\<rparr>)"
| http_section: "i < length (hsConns h) \<Longrightarrow> hsConns h ! i = Active q (Act u c) \<Longrightarrow>
     http_step handle (s, h) (u s, h\<lparr>hsConns := (hsConns h)[i := Active q (c s)]\<rparr>)"
| http_reply: "i < length (hsConns h) \<Longrightarrow> hsConns h ! i = Active q (Ret a) \<Longrightarrow>
     http_step handle (s, h) (s, h\<lparr>hsConns := (hsConns h)[i := Replied q a]\<rparr>)"

text \<open>The beginning of \<open>Shutdown\<close>, and the condition under which it returns.\<close>

definition close_http :: "('q, 's, 'a) http_server \<Rightarrow> ('q, 's, 'a) http_server" where
  "close_http h = h\<lparr>hsInShutdown := True, hsListening := False\<rparr>"

fun is_replied :: "('q, 's, 'a) conn \<Rightarrow> bool" where
  "is_replied (Active q p) = False"
| "is_replied (Replied q a) = True"

definition drained :: "('q, 's, 'a) http_server \<Rightarrow> bool" where
  "drained h = (\<forall>c \<in> set (hsConns h). is_replied c)"

lemma new_http_simps [simp]:
  "hsListening new_http = False" "hsInShutdown new_http = False" "hsConns new_http = []" "drained new_http"
  by (simp_all add: new_http_def drained_def)

lemma close_http_simps [simp]:
  "hsListening (close_http h) = False" "hsInShutdown (close_http h) = True" "hsConns (close_http h) = hsConns h"
  "drained (close_http h) = drained h"
  by (simp_all add: close_http_def drained_def)

text \<open>Neither flag is changed by the requests.\<close>

lemma http_step_flags:
  "http_step handle cfg cfg' \<Longrightarrow> hsListening (snd cfg') = hsListening (snd cfg) \<and> hsInShutdown (snd cfg') = hsInShutdown (snd cfg)"
  by (induction rule: http_step.induct) auto

subsection \<open>Every reply satisfies its request's postcondition\<close>

definition conn_ok :: "('s \<Rightarrow> bool) \<Rightarrow> ('s \<Rightarrow> 's \<Rightarrow> bool) \<Rightarrow> ('q \<Rightarrow> 'a \<Rightarrow> bool) \<Rightarrow> ('q, 's, 'a) conn \<Rightarrow> bool" where
  "conn_ok I G Q c = (case c of Active q p \<Rightarrow> safe I G (Q q) p | Replied q a \<Rightarrow> Q q a)"

lemma conn_ok_simps [simp]:
  "conn_ok I G Q (Active q p) = safe I G (Q q) p" "conn_ok I G Q (Replied q a) = Q q a"
  by (simp_all add: conn_ok_def)

definition http_ok :: "('s \<Rightarrow> bool) \<Rightarrow> ('s \<Rightarrow> 's \<Rightarrow> bool) \<Rightarrow> ('q \<Rightarrow> 'a \<Rightarrow> bool) \<Rightarrow> 's \<times> ('q, 's, 'a) http_server \<Rightarrow> bool" where
  "http_ok I G Q cfg = (I (fst cfg) \<and> (\<forall>c \<in> set (hsConns (snd cfg)). conn_ok I G Q c))"

lemma http_step_ok:
  assumes "http_step handle cfg cfg'" "\<And>q. safe I G (Q q) (handle q)" "http_ok I G Q cfg"
  shows "http_ok I G Q cfg'"
  using assms(1,3)
proof (induction rule: http_step.induct)
  case (http_accept h s q)
  then show ?case using assms(2) by (auto simp: http_ok_def)
next
  case (http_section i h q u c s)
  then have "conn_ok I G Q (Active q (Act u c))" by (metis http_ok_def nth_mem snd_conv)
  with http_section show ?case by (auto simp: http_ok_def dest!: set_update_subset_insert [THEN subsetD])
next
  case (http_reply i h q a s)
  then have "conn_ok I G Q (Active q (Ret a))" by (metis http_ok_def nth_mem snd_conv)
  with http_reply show ?case by (auto simp: http_ok_def dest!: set_update_subset_insert [THEN subsetD])
qed

subsection \<open>A closed server drains\<close>

lemma conn_replies:
  "i < length (hsConns h) \<Longrightarrow> hsConns h ! i = Active q p \<Longrightarrow>
   \<exists>s' a. (http_step handle)\<^sup>*\<^sup>* (s, h) (s', h\<lparr>hsConns := (hsConns h)[i := Replied q a]\<rparr>)"
proof (induction p arbitrary: s h)
  case (Ret a)
  then show ?case by (blast intro: http_reply)
next
  case (Act u c)
  let ?h = "h\<lparr>hsConns := (hsConns h)[i := Active q (c s)]\<rparr>"
  have "http_step handle (s, h) (u s, ?h)" using Act.prems by (rule http_section)
  moreover obtain s' a where "(http_step handle)\<^sup>*\<^sup>* (u s, ?h) (s', ?h\<lparr>hsConns := (hsConns ?h)[i := Replied q a]\<rparr>)"
    using Act.IH [OF rangeI, of ?h s "u s"] Act.prems by force
  ultimately show ?case by (force intro: converse_rtranclp_into_rtranclp)
qed

definition running :: "('q, 's, 'a) http_server \<Rightarrow> nat" where
  "running h = length (filter (\<lambda>c. \<not> is_replied c) (hsConns h))"

lemma drained_running: "drained h \<longleftrightarrow> running h = 0"
  by (auto simp: drained_def running_def filter_empty_conv)

lemma running_reply:
  assumes "i < length (hsConns h)" "hsConns h ! i = Active q p"
  shows "running (h\<lparr>hsConns := (hsConns h)[i := Replied q a]\<rparr>) < running h"
proof -
  let ?cs = "hsConns h"
  have "?cs = take i ?cs @ Active q p # drop (Suc i) ?cs" using assms by (metis id_take_nth_drop)
  then have "running h = length (filter (\<lambda>c. \<not> is_replied c) (take i ?cs @ Active q p # drop (Suc i) ?cs))"
    by (simp add: running_def)
  with assms(1) show ?thesis by (simp add: running_def upd_conv_take_nth_drop)
qed

lemma some_conn_replies:
  assumes "\<not> drained h"
  shows "\<exists>s' h'. (http_step handle)\<^sup>*\<^sup>* (s, h) (s', h') \<and> running h' < running h \<and>
    hsListening h' = hsListening h \<and> hsInShutdown h' = hsInShutdown h"
proof -
  obtain i where i: "i < length (hsConns h)" "\<not> is_replied (hsConns h ! i)"
    using assms by (auto simp: drained_def in_set_conv_nth)
  then obtain q p where p: "hsConns h ! i = Active q p" by (cases "hsConns h ! i") auto
  from conn_replies [OF i(1) p, of handle s] running_reply [OF i(1) p] show ?thesis by fastforce
qed

subsection \<open>A machine with a server in its state\<close>

text \<open>
  The contract of a machine whose state holds a server: while it is open, each step of the server is one of
  its own. Then the runs of the server are runs of the machine, and the server in it drains.
\<close>

locale http_host =
  fixes step :: "'m \<Rightarrow> 'm \<Rightarrow> bool"
    and handle :: "'q \<Rightarrow> ('s, 'a) prog"
    and view :: "'m \<Rightarrow> 's \<times> ('q, 's, 'a) http_server"
    and put :: "'s \<times> ('q, 's, 'a) http_server \<Rightarrow> 'm \<Rightarrow> 'm"
    and is_open :: "'m \<Rightarrow> bool"
  assumes embeds: "is_open m \<Longrightarrow> http_step handle (view m) c \<Longrightarrow> step m (put c m)"
    and view_put: "view (put c m) = c"
    and put_put: "put c (put d m) = put c m"
    and put_view: "put (view m) m = m"
    and open_put: "is_open (put c m) = is_open m"
begin

lemma http_run: "(http_step handle)\<^sup>*\<^sup>* (view m) c \<Longrightarrow> is_open m \<Longrightarrow> step\<^sup>*\<^sup>* m (put c m)"
proof (induction rule: rtranclp_induct)
  case base
  then show ?case by (simp add: put_view)
next
  case (step c d)
  then have "step (put c m) (put d (put c m))" by (intro embeds) (simp_all add: open_put view_put)
  with step show ?case by (simp add: put_put)
qed

lemma request_finishes:
  assumes "is_open m" "\<not> drained (snd (view m))"
  shows "\<exists>c. step\<^sup>*\<^sup>* m (put c m) \<and> running (snd c) < running (snd (view m))"
proof -
  obtain s h where "(http_step handle)\<^sup>*\<^sup>* (view m) (s, h)" "running h < running (snd (view m))"
    using some_conn_replies [OF assms(2), of handle "fst (view m)"] by auto
  with http_run [OF _ assms(1)] show ?thesis by (intro exI [where x = "(s, h)"]) simp
qed

end

end
