(* ===== verification/RequestLogger.thy ===== *)
theory RequestLogger
  imports HttpServer
begin

text \<open>
  \<open>loggerHandler\<close> (rpc/rpc.go): it numbers the requests with an atomic counter, logs the number, runs the
  next handler and logs the number again. The number is kept beside the reply, since both log lines show
  it.
\<close>

record 's logger_handler =
  lhId :: u64
  lhNext :: 's

text \<open>A resumption of the next handler acts on its own part of the state.\<close>

primrec liftP :: "('s, 'a) prog \<Rightarrow> ('s logger_handler, 'a) prog" where
  "liftP (Ret a) = Ret a"
| "liftP (Act u c) = Act (\<lambda>S. S\<lparr>lhNext := u (lhNext S)\<rparr>) (\<lambda>S. liftP (c (lhNext S)))"

definition numbered :: "u64 \<Rightarrow> ('s, 'a) prog \<Rightarrow> ('s logger_handler, u64 \<times> 'a) prog" where
  "numbered rpcId p = bindP (liftP p) (\<lambda>a. Ret (rpcId, a))"

definition ServeHTTP :: "('q \<Rightarrow> ('s, 'a) prog) \<Rightarrow> 'q \<Rightarrow> ('s logger_handler, u64 \<times> 'a) prog" where
  "ServeHTTP serve_next r = Act (\<lambda>S. S\<lparr>lhId := lhId S + 1\<rparr>) (\<lambda>S. numbered (lhId S + 1) (serve_next r))"

lemma numbered_simps [simp]:
  "numbered n (Ret a) = Ret (n, a)"
  "numbered n (Act u c) = Act (\<lambda>S. S\<lparr>lhNext := u (lhNext S)\<rparr>) (\<lambda>S. numbered n (c (lhNext S)))"
  by (simp_all add: numbered_def)

subsection \<open>What the next handler keeps, the logger keeps\<close>

definition on_next :: "('s \<Rightarrow> bool) \<Rightarrow> 's logger_handler \<Rightarrow> bool" where
  "on_next I S = I (lhNext S)"

definition next_guar :: "('s \<Rightarrow> 's \<Rightarrow> bool) \<Rightarrow> 's logger_handler \<Rightarrow> 's logger_handler \<Rightarrow> bool" where
  "next_guar G S T = G (lhNext S) (lhNext T)"

lemma safe_numbered: "safe I G Q p \<Longrightarrow> safe (on_next I) (next_guar G) (\<lambda>(m, a). Q a) (numbered n p)"
  by (induction p) (auto simp: on_next_def next_guar_def)

lemma safe_ServeHTTP:
  assumes "safe I G Q (serve_next r)" "reflp G"
  shows "safe (on_next I) (next_guar G) (\<lambda>(m, a). Q a) (ServeHTTP serve_next r)"
  using safe_numbered [OF assms(1)] assms(2)
  by (auto simp: ServeHTTP_def on_next_def next_guar_def dest: reflpD)

subsection \<open>The numbers\<close>

text \<open>
  A connection and its number: none before it has been through the counter. Numbers are counted without
  the wrap of the counter, which holds the last one modulo \<open>2 ^ 64\<close>.
\<close>

inductive conn_number :: "('q \<Rightarrow> ('s, 'a) prog) \<Rightarrow> ('q, 's logger_handler, u64 \<times> 'a) conn \<Rightarrow> nat option \<Rightarrow> bool"
  for serve_next where
  cn_fresh: "conn_number serve_next (Active q (ServeHTTP serve_next q)) None"
| cn_running: "conn_number serve_next (Active q (numbered (of_nat n) p)) (Some n)"
| cn_replied: "conn_number serve_next (Replied q (of_nat n, a)) (Some n)"

inductive_cases conn_number_ActE: "conn_number serve_next (Active q (Act u c)) v"
inductive_cases conn_number_RetE: "conn_number serve_next (Active q (Ret a)) v"
inductive_cases conn_number_repliedE: "conn_number serve_next (Replied q a) v"

definition given :: "nat option list \<Rightarrow> nat list" where
  "given ns = concat (map (case_option [] (\<lambda>n. [n])) ns)"

text \<open>The numbers given so far are distinct, and are those from 1 to their count.\<close>

definition numbers_ok :: "nat option list \<Rightarrow> bool" where
  "numbers_ok ns = (distinct (given ns) \<and> set (given ns) \<subseteq> {1..length (given ns)})"

definition numbering :: "('q \<Rightarrow> ('s, 'a) prog) \<Rightarrow> 's logger_handler \<times> ('q, 's logger_handler, u64 \<times> 'a) http_server \<Rightarrow> bool" where
  "numbering serve_next cfg = (\<exists>ns. list_all2 (conn_number serve_next) (hsConns (snd cfg)) ns \<and> numbers_ok ns \<and>
     lhId (fst cfg) = of_nat (length (given ns)))"

lemma given_simps [simp]:
  "given [] = []" "given (None # ns) = given ns" "given (Some n # ns) = n # given ns" "given (ns @ ms) = given ns @ given ms"
  by (simp_all add: given_def)

lemma length_given: "length (given ns) \<le> length ns"
  by (induction ns) (auto simp: given_def split: option.split)

lemma in_given: "i < length ns \<Longrightarrow> ns ! i = Some n \<Longrightarrow> n \<in> set (given ns)"
  by (auto simp: given_def in_set_conv_nth split: option.split)

lemma given_inj:
  "distinct (given ns) \<Longrightarrow> i < length ns \<Longrightarrow> j < length ns \<Longrightarrow> ns ! i = Some n \<Longrightarrow> ns ! j = Some n \<Longrightarrow> i = j"
proof (induction ns arbitrary: i j)
  case (Cons v ns)
  then show ?case
    by (cases v; cases i; cases j) (auto dest: in_given)
qed simp

text \<open>A connection gets its number.\<close>

lemma given_fill:
  assumes "i < length ns" "ns ! i = None"
  obtains xs ys where "given ns = xs @ ys" "given (ns[i := Some n]) = xs @ n # ys"
proof -
  have "given ns = given (take i ns @ None # drop (Suc i) ns)"
    using assms by (metis id_take_nth_drop)
  then show ?thesis
    using that [of "given (take i ns)" "given (drop (Suc i) ns)"] assms by (simp add: upd_conv_take_nth_drop)
qed

lemma numbers_ok_fill:
  assumes "numbers_ok ns" "i < length ns" "ns ! i = None"
  shows "numbers_ok (ns[i := Some (Suc (length (given ns)))]) \<and>
    length (given (ns[i := Some (Suc (length (given ns)))])) = Suc (length (given ns))"
proof -
  obtain xs ys where g: "given ns = xs @ ys"
      "given (ns[i := Some (Suc (length (given ns)))]) = xs @ Suc (length (given ns)) # ys"
    using given_fill [OF assms(2,3)] by blast
  have "set (xs @ ys) \<subseteq> {1..length (xs @ ys)}" "distinct (xs @ ys)"
    using assms(1) g(1) by (simp_all add: numbers_ok_def)
  moreover have "length (given ns) = length xs + length ys" by (simp add: g(1))
  ultimately show ?thesis unfolding numbers_ok_def g(2) by auto
qed

lemma numbers_ok_snoc: "numbers_ok ns \<Longrightarrow> numbers_ok (ns @ [None])"
  by (simp add: numbers_ok_def)

lemma list_all2_update_same:
  "list_all2 P cs ns \<Longrightarrow> P d (ns ! i) \<Longrightarrow> list_all2 P (cs[i := d]) ns"
  using list_all2_update_cong [of P cs ns d "ns ! i" i] by simp

text \<open>A section of a request: the one that takes the number, or a later one of the next handler.\<close>

lemma numbering_section:
  assumes ns: "list_all2 (conn_number serve_next) (hsConns h) ns" "numbers_ok ns" "lhId s = of_nat (length (given ns))"
    and "i < length (hsConns h)" "hsConns h ! i = Active q (Act u c)"
  shows "numbering serve_next (u s, h\<lparr>hsConns := (hsConns h)[i := Active q (c s)]\<rparr>)"
proof -
  have i: "i < length ns" "conn_number serve_next (Active q (Act u c)) (ns ! i)"
    using assms by (auto dest: list_all2_lengthD list_all2_nthD)
  from i(2) consider (fresh) "Act u c = ServeHTTP serve_next q" "ns ! i = None"
    | (handling) n p where "Act u c = numbered (of_nat n) p" "ns ! i = Some n"
    by (elim conn_number_ActE) auto
  then show ?thesis
  proof cases
    case fresh
    let ?n = "Suc (length (given ns))"
    from fresh(1) have u: "u = (\<lambda>S. S\<lparr>lhId := lhId S + 1\<rparr>)" and c: "c = (\<lambda>S. numbered (lhId S + 1) (serve_next q))"
      by (simp_all add: ServeHTTP_def)
    have "c s = numbered (of_nat ?n) (serve_next q)" and id: "lhId (u s) = of_nat ?n"
      using ns(3) by (simp_all add: u c add.commute)
    then have "list_all2 (conn_number serve_next) ((hsConns h)[i := Active q (c s)]) (ns[i := Some ?n])"
      using ns(1) by (auto intro!: list_all2_update_cong cn_running simp del: of_nat_Suc)
    with numbers_ok_fill [OF ns(2) i(1) fresh(2)] id show ?thesis
      by (auto simp: numbering_def simp del: of_nat_Suc intro!: exI [where x = "ns[i := Some ?n]"])
  next
    case (handling n p)
    then obtain u' c' where p: "p = Act u' c'" by (cases p) auto
    from handling(1) p have u: "u = (\<lambda>S. S\<lparr>lhNext := u' (lhNext S)\<rparr>)"
      and c: "c = (\<lambda>S. numbered (of_nat n) (c' (lhNext S)))"
      by simp_all
    have "list_all2 (conn_number serve_next) ((hsConns h)[i := Active q (c s)]) ns"
      using ns(1) handling(2) by (auto simp: c intro!: list_all2_update_same cn_running)
    with ns(2,3) show ?thesis by (auto simp: numbering_def u intro!: exI [where x = ns])
  qed
qed

lemma numbering_step:
  assumes "http_step (ServeHTTP serve_next) cfg cfg'" "numbering serve_next cfg"
  shows "numbering serve_next cfg'"
  using assms
proof (induction rule: http_step.induct)
  case (http_accept h s q)
  then obtain ns where "list_all2 (conn_number serve_next) (hsConns h) ns" "numbers_ok ns" "lhId s = of_nat (length (given ns))"
    by (auto simp: numbering_def)
  then show ?case
    by (auto simp: numbering_def intro!: exI [where x = "ns @ [None]"] list_all2_appendI numbers_ok_snoc cn_fresh)
next
  case (http_section i h q u c s)
  then obtain ns where "list_all2 (conn_number serve_next) (hsConns h) ns" "numbers_ok ns" "lhId s = of_nat (length (given ns))"
    by (auto simp: numbering_def)
  from numbering_section [OF this http_section(1,2)] show ?case .
next
  case (http_reply i h q a s)
  then obtain ns where ns: "list_all2 (conn_number serve_next) (hsConns h) ns" "numbers_ok ns" "lhId s = of_nat (length (given ns))"
    by (auto simp: numbering_def)
  with http_reply have i: "conn_number serve_next (Active q (Ret a)) (ns ! i)"
    by (auto dest: list_all2_nthD)
  obtain n p where n: "hsConns h ! i = Active q (numbered (of_nat n) p)" "ns ! i = Some n"
    using i http_reply(2) by (elim conn_number_RetE) (auto simp: ServeHTTP_def)
  with http_reply(2) obtain b where "a = (of_nat n, b)" by (cases p) auto
  with ns n(2) show ?case
    by (auto simp: numbering_def intro!: exI [where x = ns] list_all2_update_same cn_replied)
qed

lemma numbering_new: "lhId s = 0 \<Longrightarrow> numbering serve_next (s, new_http)"
  by (auto simp: numbering_def numbers_ok_def intro!: exI [where x = "[]"])

text \<open>Fewer than \<open>2 ^ 64\<close> requests have pairwise different numbers, from 1 on.\<close>

lemma numbers_distinct:
  assumes "numbering serve_next (s, h)" "length (hsConns h) < 2 ^ 64"
    and "i < length (hsConns h)" "hsConns h ! i = Replied q (n, a)"
    and "j < length (hsConns h)" "hsConns h ! j = Replied q' (m, b)"
  shows "n \<noteq> 0 \<and> (n = m \<longrightarrow> i = j)"
proof -
  obtain ns where ns: "list_all2 (conn_number serve_next) (hsConns h) ns" "numbers_ok ns"
    using assms(1) by (auto simp: numbering_def)
  have len: "length ns = length (hsConns h)" using ns(1) by (simp add: list_all2_lengthD)
  have number: "\<exists>k'. ns ! k = Some k' \<and> l = of_nat k' \<and> 1 \<le> k' \<and> k' < 2 ^ 64"
    if "k < length (hsConns h)" "hsConns h ! k = Replied q (l, a)" for k q l a
  proof -
    have "conn_number serve_next (Replied q (l, a)) (ns ! k)" using ns(1) that by (metis list_all2_nthD)
    then obtain k' where k': "ns ! k = Some k'" "l = of_nat k'" by (auto elim: conn_number_repliedE)
    with ns(2) that(1) len have "1 \<le> k'" "k' \<le> length (given ns)"
      using in_given [of k ns k'] by (auto simp: numbers_ok_def)
    with k' length_given [of ns] len assms(2) show ?thesis by auto
  qed
  obtain k where k: "ns ! i = Some k" "n = of_nat k" "1 \<le> k" "k < 2 ^ 64" using number [OF assms(3,4)] by blast
  obtain l where l: "ns ! j = Some l" "m = of_nat l" "1 \<le> l" "l < 2 ^ 64" using number [OF assms(5,6)] by blast
  have "unat n = k" "unat m = l" using k l by (simp_all add: unat_of_nat take_bit_nat_eq_self)
  then have "k = l" if "n = m" using k(3) that by auto
  moreover have "n \<noteq> 0" using \<open>unat n = k\<close> k(3) by auto
  moreover have "k = l \<Longrightarrow> i = j"
    using ns(2) k(1) l(1) len assms(3,5) by (intro given_inj [of ns i j k]) (simp_all add: numbers_ok_def)
  ultimately show ?thesis by blast
qed

end
