(* ===== verification/RpcServer.thy ===== *)
theory RpcServer
  imports Rpc RequestLogger
begin

text \<open>
  The life of the JSON-RPC server (\<open>StartServer\<close> and \<open>Wait\<close> of rpc/rpc.go): it initialises the handler,
  registers the API with go-ethereum, opens the HTTP endpoint behind the request logger, joins its wait group,
  serves until its context ends, and shuts the endpoint down; each of these is a step. go-ethereum's registration, its handler stack and the opening
  of the endpoint are parameters: \<open>rhRoute\<close> says, for the CORS and virtual host lists it was given,
  which HTTP requests it refuses itself and which call a method of the registered service. A batch of
  several calls in one HTTP request is not modelled.
\<close>

subsection \<open>State and parameters\<close>

datatype ('r, 'j) rpc_reply = Refused 'r | Answered "'j res option"

record ('w, 'q, 'r) rpc_http =
  rhRegisterApis :: "string list \<Rightarrow> string list \<Rightarrow> err option"
  rhStartHTTPEndpoint :: "string \<Rightarrow> 'w \<Rightarrow> string res \<times> 'w"
  rhRoute :: "string list \<Rightarrow> string list \<Rightarrow> 'q \<Rightarrow> 'r + rpc_request"

text \<open>
  What a server is started with: its handler's clients, the fuel of the search, go-ethereum, the CORS and
  virtual host lists and the address.
\<close>

record ('w, 'q, 'r, 'j) rpc_config =
  rcFuel :: nat
  rcClients :: "'w clients"
  rcCalls :: "('w, 'j) rpc_calls"
  rcHttp :: "('w, 'q, 'r) rpc_http"
  rcCors :: "string list"
  rcVhosts :: "string list"
  rcAddr :: string

datatype rpc_phase = RpcFresh | RpcOpened | RpcServing | RpcStopping | RpcReturned "err option" | RpcFatal string

text \<open>
  \<open>rsInit\<close> says that the handler has been initialised; \<open>rsErr\<close> is the variable \<open>err\<close> of \<open>StartServer\<close>;
  \<open>rsServerErr\<close> is the channel of serve errors; \<open>rsWg\<close> the wait group; \<open>rsDone\<close> says that the
  context has ended. \<open>RpcReturned\<close> keeps the error the last log line of \<open>StartServer\<close> reports.
\<close>

record ('w, 'q, 'r, 'j) rpc_server =
  rsSys :: "'w psys logger_handler"
  rsHttp :: "('q, 'w psys logger_handler, u64 \<times> ('r, 'j) rpc_reply) http_server"
  rsPhase :: rpc_phase
  rsInit :: bool
  rsErr :: "err option"
  rsWg :: nat
  rsDone :: bool
  rsServerErr :: "err list"

definition new_rpc_server :: "'w psys \<Rightarrow> ('w, 'q, 'r, 'j) rpc_server" where
  "new_rpc_server s = \<lparr>rsSys = \<lparr>lhId = 0, lhNext = s\<rparr>, rsHttp = new_http, rsPhase = RpcFresh, rsInit = False, rsErr = None, rsWg = 0, rsDone = False,
     rsServerErr = []\<rparr>"

subsection \<open>The operations\<close>

text \<open>The namespace of \<open>GetAPI\<close>, which is also the only module registered.\<close>

definition GetAPI :: string where
  "GetAPI = ''eth''"

definition route :: "('w, 'q, 'r, 'j) rpc_config \<Rightarrow> 'q \<Rightarrow> ('w psys, ('r, 'j) rpc_reply) prog" where
  "route K q = (case rhRoute (rcHttp K) (rcCors K) (rcVhosts K) q of
      Inl r \<Rightarrow> Ret (Refused r)
    | Inr req \<Rightarrow> bindP (serve_rpc (rcFuel K) (rcClients K) (rcCalls K) req) (\<lambda>a. Ret (Answered a)))"

text \<open>
  The sections before the \<open>select\<close>. The error of the initialisation is only logged; that of the registration or of
  the opening ends the process. The server listens on the endpoint when \<open>StartHTTPEndpoint\<close> returns; it joins the
  wait group only after that.
\<close>

definition init_server :: "('w, 'q, 'r, 'j) rpc_config \<Rightarrow> ('w, 'q, 'r, 'j) rpc_server \<Rightarrow> ('w, 'q, 'r, 'j) rpc_server" where
  "init_server K s = s\<lparr>rsSys := (rsSys s)\<lparr>lhNext := snd (run (handler_init (rcFuel K) (rcClients K)) (lhNext (rsSys s)))\<rparr>,
     rsInit := True\<rparr>"

definition open_server :: "('w, 'q, 'r, 'j) rpc_config \<Rightarrow> ('w, 'q, 'r, 'j) rpc_server \<Rightarrow> ('w, 'q, 'r, 'j) rpc_server" where
  "open_server K s = (case rhRegisterApis (rcHttp K) [GetAPI] [''eth''] of
      Some e \<Rightarrow> s\<lparr>rsErr := Some e, rsPhase := RpcFatal ''Could not register API''\<rparr>
    | None \<Rightarrow> (case rhStartHTTPEndpoint (rcHttp K) (rcAddr K) (world (lhNext (rsSys s))) of
          (Inl e, w) \<Rightarrow> s\<lparr>rsSys := (rsSys s)\<lparr>lhNext := (lhNext (rsSys s))\<lparr>world := w\<rparr>\<rparr>, rsErr := Some e,
            rsPhase := RpcFatal (''Could not start RPC api: '' @ err_string e)\<rparr>
        | (Inr addr, w) \<Rightarrow> s\<lparr>rsSys := (rsSys s)\<lparr>lhNext := (lhNext (rsSys s))\<lparr>world := w\<rparr>\<rparr>, rsErr := None,
            rsHttp := (rsHttp s)\<lparr>hsListening := True\<rparr>, rsPhase := RpcOpened\<rparr>))"

definition join_group :: "('w, 'q, 'r, 'j) rpc_server \<Rightarrow> ('w, 'q, 'r, 'j) rpc_server" where
  "join_group s = s\<lparr>rsPhase := RpcServing, rsWg := Suc (rsWg s)\<rparr>"

text \<open>
  The return after the \<open>select\<close>, with the deferred \<open>Done\<close>. In the branch of the ended context the error of
  \<open>Shutdown\<close> is a variable of its own, which is only logged; in the other the error is that of the channel.
\<close>

definition return_server :: "('w, 'q, 'r, 'j) rpc_server \<Rightarrow> ('w, 'q, 'r, 'j) rpc_server" where
  "return_server s = s\<lparr>rsPhase := RpcReturned (rsErr s), rsWg := rsWg s - 1\<rparr>"

definition finish_shutdown :: "err option \<Rightarrow> ('w, 'q, 'r, 'j) rpc_server \<Rightarrow> ('w, 'q, 'r, 'j) rpc_server" where
  "finish_shutdown shutdownErr s = return_server s"

text \<open>
  The steps. Requests run as soon as the endpoint is open, and until it has stopped; the context may end at any time. The
  \<open>select\<close> may take an error from the channel, whenever there is one. \<open>Shutdown\<close> may answer anything.
\<close>

inductive rpc_step :: "('w, 'q, 'r, 'j) rpc_config \<Rightarrow> ('w, 'q, 'r, 'j) rpc_server \<Rightarrow> ('w, 'q, 'r, 'j) rpc_server \<Rightarrow> bool"
  for K where
  rpc_init: "rsPhase s = RpcFresh \<Longrightarrow> \<not> rsInit s \<Longrightarrow>
     fst (run (handler_init (rcFuel K) (rcClients K)) (lhNext (rsSys s))) \<noteq> None \<Longrightarrow> rpc_step K s (init_server K s)"
| rpc_open: "rsPhase s = RpcFresh \<Longrightarrow> rsInit s \<Longrightarrow> rpc_step K s (open_server K s)"
| rpc_join: "rsPhase s = RpcOpened \<Longrightarrow> rpc_step K s (join_group s)"
| rpc_request: "rsPhase s \<in> {RpcOpened, RpcServing, RpcStopping} \<Longrightarrow>
     http_step (ServeHTTP (route K)) (rsSys s, rsHttp s) (sys, h) \<Longrightarrow> rpc_step K s (s\<lparr>rsSys := sys, rsHttp := h\<rparr>)"
| rpc_cancel: "rpc_step K s (s\<lparr>rsDone := True\<rparr>)"
| rpc_done: "rsPhase s = RpcServing \<Longrightarrow> rsDone s \<Longrightarrow>
     rpc_step K s (s\<lparr>rsPhase := RpcStopping, rsHttp := close_http (rsHttp s)\<rparr>)"
| rpc_serve_error: "rsPhase s = RpcServing \<Longrightarrow> rsServerErr s = e # es \<Longrightarrow>
     rpc_step K s (return_server (s\<lparr>rsErr := Some e, rsServerErr := es\<rparr>))"
| rpc_shutdown: "rsPhase s = RpcStopping \<Longrightarrow> drained (rsHttp s) \<Longrightarrow> rpc_step K s (finish_shutdown r s)"

text \<open>\<open>Wait\<close> returns when the wait group is zero.\<close>

definition wait_returns :: "('w, 'q, 'r, 'j) rpc_server \<Rightarrow> bool" where
  "wait_returns s = (rsWg s = 0)"

inductive_cases rpc_stepE: "rpc_step K s t"

subsection \<open>The invariant\<close>

definition rpc_inv :: "('w, 'q, 'r, 'j) rpc_config \<Rightarrow> ('w, 'q, 'r, 'j) rpc_server \<Rightarrow> bool" where
  "rpc_inv K s = (rsServerErr s = [] \<and> numbering (route K) (rsSys s, rsHttp s) \<and>
     (case rsPhase s of
        RpcFresh \<Rightarrow> rsHttp s = new_http \<and> rsWg s = 0
      | RpcOpened \<Rightarrow> hsListening (rsHttp s) \<and> \<not> hsInShutdown (rsHttp s) \<and> rsWg s = 0 \<and> rsErr s = None
      | RpcServing \<Rightarrow> hsListening (rsHttp s) \<and> \<not> hsInShutdown (rsHttp s) \<and> rsWg s = 1 \<and> rsErr s = None
      | RpcStopping \<Rightarrow> \<not> hsListening (rsHttp s) \<and> hsInShutdown (rsHttp s) \<and> rsWg s = 1 \<and> rsDone s \<and> rsErr s = None
      | RpcReturned err \<Rightarrow> err = None \<and> \<not> hsListening (rsHttp s) \<and> drained (rsHttp s) \<and> rsWg s = 0 \<and> rsDone s
      | RpcFatal m \<Rightarrow> rsHttp s = new_http \<and> rsWg s = 0))"

lemma numbering_same:
  "numbering f (S, h) \<Longrightarrow> lhId S' = lhId S \<Longrightarrow> hsConns h' = hsConns h \<Longrightarrow> numbering f (S', h')"
  by (simp add: numbering_def)

lemma open_server_cases:
  "(\<exists>m sys e. open_server K s = s\<lparr>rsSys := (rsSys s)\<lparr>lhNext := sys\<rparr>, rsErr := Some e, rsPhase := RpcFatal m\<rparr>) \<or>
   (\<exists>sys. open_server K s = s\<lparr>rsSys := (rsSys s)\<lparr>lhNext := sys\<rparr>, rsErr := None, rsHttp := (rsHttp s)\<lparr>hsListening := True\<rparr>,
      rsPhase := RpcOpened\<rparr>)"
proof (cases "rhRegisterApis (rcHttp K) [GetAPI] [''eth'']")
  case (Some e)
  then have "open_server K s = s\<lparr>rsSys := (rsSys s)\<lparr>lhNext := lhNext (rsSys s)\<rparr>, rsErr := Some e,
      rsPhase := RpcFatal ''Could not register API''\<rparr>" by (simp add: open_server_def)
  then show ?thesis by blast
next
  case None
  then show ?thesis by (auto simp: open_server_def split: sum.splits prod.splits)
qed

lemma rpc_inv_init: "rpc_inv K s \<Longrightarrow> rsPhase s = RpcFresh \<Longrightarrow> rpc_inv K (init_server K s)"
  by (auto simp: rpc_inv_def init_server_def elim: numbering_same)

lemma rpc_inv_open: "rpc_inv K s \<Longrightarrow> rsPhase s = RpcFresh \<Longrightarrow> rpc_inv K (open_server K s)"
  using open_server_cases [of K s] by (auto simp: rpc_inv_def elim: numbering_same)

lemma rpc_inv_request:
  assumes "rpc_inv K s" "rsPhase s \<in> {RpcOpened, RpcServing, RpcStopping}"
    and "http_step (ServeHTTP (route K)) (rsSys s, rsHttp s) (sys, h)"
  shows "rpc_inv K (s\<lparr>rsSys := sys, rsHttp := h\<rparr>)"
  using numbering_step [OF assms(3)] http_step_flags [OF assms(3)] assms(1,2) by (auto simp: rpc_inv_def)

lemma rpc_step_inv: "rpc_step K s t \<Longrightarrow> rpc_inv K s \<Longrightarrow> rpc_inv K t"
proof (induction rule: rpc_step.induct)
  case (rpc_init s)
  then show ?case by (simp add: rpc_inv_init)
next
  case (rpc_open s)
  then show ?case by (simp add: rpc_inv_open)
next
  case (rpc_request s sys h)
  then show ?case by (simp add: rpc_inv_request)
next
  case (rpc_cancel s)
  then show ?case by (auto simp: rpc_inv_def split: rpc_phase.splits)
qed (auto simp: rpc_inv_def join_group_def return_server_def finish_shutdown_def elim: numbering_same)

interpretation rpc_machine: machine "rpc_step K" "rpc_inv K"
  by unfold_locales (rule rpc_step_inv)

lemma rpc_inv_new [simp]: "rpc_inv K (new_rpc_server s)"
  by (simp add: rpc_inv_def new_rpc_server_def numbering_new)

subsection \<open>What the requests are answered\<close>

definition reply_ok :: "('w, 'q, 'r, 'j) rpc_config \<Rightarrow> answers \<Rightarrow> (u64 res \<Rightarrow> bool) \<Rightarrow> u64 \<Rightarrow> (string \<Rightarrow> bool \<Rightarrow> 'j res) \<Rightarrow>
    'q \<Rightarrow> ('r, 'j) rpc_reply \<Rightarrow> bool" where
  "reply_ok K A heads L ans q a = (case rhRoute (rcHttp K) (rcCors K) (rcVhosts K) q of
      Inl r \<Rightarrow> a = Refused r
    | Inr req \<Rightarrow> \<exists>b. a = Answered b \<and> block_reply A heads L (rcCalls K) ans req b)"

text \<open>Steady services, the search's fuel, and an endpoint whose opening does not disturb them.\<close>

definition rpc_services :: "('w, 'q, 'r, 'j) rpc_config \<Rightarrow> ('w \<Rightarrow> bool) \<Rightarrow> answers \<Rightarrow> (u64 res \<Rightarrow> bool) \<Rightarrow> u64 \<Rightarrow>
    (string \<Rightarrow> bool \<Rightarrow> 'j res) \<Rightarrow> bool" where
  "rpc_services K W A heads L ans = (services (rcClients K) W A heads L \<and> 1 \<le> L \<and> rpc_steady (rcCalls K) W ans \<and>
     rcFuel K = search_fuel \<and> (\<forall>w. W w \<longrightarrow> W (snd (rhStartHTTPEndpoint (rcHttp K) (rcAddr K) w))))"

text \<open>
  The server and its handler: \<open>I\<close> is what the handler keeps of the provider and \<open>P\<close> what it replies;
  \<open>holds\<close> stands for what is assumed of the services behind it.
\<close>

definition replies_ok :: "('w psys \<Rightarrow> bool) \<Rightarrow> ('w psys \<Rightarrow> 'w psys \<Rightarrow> bool) \<Rightarrow> ('q \<Rightarrow> ('r, 'j) rpc_reply \<Rightarrow> bool) \<Rightarrow>
    ('w, 'q, 'r, 'j) rpc_server \<Rightarrow> bool" where
  "replies_ok I G P s = http_ok (on_next I) (next_guar G) (\<lambda>q (n, a). P q a) (rsSys s, rsHttp s)"

lemma replies_okD: "replies_ok I G P s \<Longrightarrow> I (lhNext (rsSys s))"
  "replies_ok I G P s \<Longrightarrow> Replied q (n, a) \<in> set (hsConns (rsHttp s)) \<Longrightarrow> P q a"
  by (force simp: replies_ok_def http_ok_def on_next_def)+

locale rpc_replies =
  fixes K :: "('w, 'q, 'r, 'j) rpc_config"
    and I :: "'w psys \<Rightarrow> bool"
    and G :: "'w psys \<Rightarrow> 'w psys \<Rightarrow> bool"
    and P :: "'q \<Rightarrow> ('r, 'j) rpc_reply \<Rightarrow> bool"
    and holds :: bool
  assumes route_keeps: "holds \<Longrightarrow> safe I G (P q) (route K q)"
    and init_keeps: "holds \<Longrightarrow> I (lhNext (rsSys s)) \<Longrightarrow> I (lhNext (rsSys (init_server K s)))"
    and open_keeps: "holds \<Longrightarrow> I (lhNext (rsSys s)) \<Longrightarrow> I (lhNext (rsSys (open_server K s)))"
    and guar_refl: "reflp G"
begin

lemma replies_step:
  assumes "holds"
  shows "rpc_step K s t \<Longrightarrow> rpc_inv K s \<Longrightarrow> replies_ok I G P s \<Longrightarrow> replies_ok I G P t"
proof (induction rule: rpc_step.induct)
  case (rpc_init s)
  then have "hsConns (rsHttp (init_server K s)) = []" by (simp add: rpc_inv_def init_server_def)
  with rpc_init init_keeps [OF assms, of s] show ?case
    by (simp add: replies_ok_def http_ok_def on_next_def)
next
  case (rpc_open s)
  then have "hsConns (rsHttp (open_server K s)) = []"
    using open_server_cases [of K s] by (auto simp: rpc_inv_def)
  with rpc_open open_keeps [OF assms, of s] show ?case
    by (simp add: replies_ok_def http_ok_def on_next_def)
next
  case (rpc_request s sys h)
  have "safe (on_next I) (next_guar G) (\<lambda>(n, a). P q a) (ServeHTTP (route K) q)" for q
    using safe_ServeHTTP [of I G "P q" "route K" q] route_keeps [OF assms, of q] guar_refl by blast
  from http_step_ok [OF rpc_request(2), of "on_next I" "next_guar G" "\<lambda>q (n, a). P q a", OF this] rpc_request(4)
  show ?case by (simp add: replies_ok_def)
qed (simp_all add: replies_ok_def http_ok_def join_group_def return_server_def finish_shutdown_def)

lemma replies_run:
  assumes "holds" "I s" "(rpc_step K)\<^sup>*\<^sup>* (new_rpc_server s) t"
  shows "replies_ok I G P t"
proof (rule rpc_machine.run_keeps [OF assms(3)])
  show "replies_ok I G P (new_rpc_server s)"
    using assms(2) by (simp add: replies_ok_def http_ok_def new_rpc_server_def on_next_def)
qed (auto intro: replies_step [OF assms(1)])

end

definition answering :: "('w, 'q, 'r, 'j) rpc_config \<Rightarrow> ('w \<Rightarrow> bool) \<Rightarrow> answers \<Rightarrow> (u64 res \<Rightarrow> bool) \<Rightarrow> u64 \<Rightarrow>
    (string \<Rightarrow> bool \<Rightarrow> 'j res) \<Rightarrow> ('w, 'q, 'r, 'j) rpc_server \<Rightarrow> bool" where
  "answering K W A heads L ans = replies_ok (coherent_below L W A) grows (reply_ok K A heads L ans)"

lemma route_safe:
  assumes "rpc_services K W A heads L ans"
  shows "safe (coherent_below L W A) grows (reply_ok K A heads L ans q) (route K q)"
proof (cases "rhRoute (rcHttp K) (rcCors K) (rcVhosts K) q")
  case (Inr req)
  have "safe (coherent_below L W A) grows (block_reply A heads L (rcCalls K) ans req)
      (serve_rpc (rcFuel K) (rcClients K) (rcCalls K) req)"
    using assms serve_rpc_safe by (auto simp: rpc_services_def)
  then have "safe (coherent_below L W A) grows (reply_ok K A heads L ans q)
      (bindP (serve_rpc (rcFuel K) (rcClients K) (rcCalls K) req) (\<lambda>a. Ret (Answered a)))"
    using Inr by (elim safe_bindP) (simp add: reply_ok_def)
  with Inr show ?thesis by (simp add: route_def)
qed (simp add: route_def reply_ok_def)

lemma init_server_coherent:
  assumes "rpc_services K W A heads L ans" "coherent_below L W A (lhNext (rsSys s))"
  shows "coherent_below L W A (lhNext (rsSys (init_server K s)))"
  using safe_run [OF handler_init_safe assms(2)] assms(1) by (auto simp: init_server_def rpc_services_def)

lemma open_server_coherent:
  assumes "rpc_services K W A heads L ans" "coherent_below L W A (lhNext (rsSys s))"
  shows "coherent_below L W A (lhNext (rsSys (open_server K s)))"
proof -
  let ?sys = "lhNext (rsSys s)"
  have "W (snd (rhStartHTTPEndpoint (rcHttp K) (rcAddr K) (world ?sys)))"
    using assms by (simp add: rpc_services_def coherent_below_def coherent_def)
  with assms(2) have "coherent_below L W A (?sys\<lparr>world := snd (rhStartHTTPEndpoint (rcHttp K) (rcAddr K) (world ?sys))\<rparr>)"
    by (simp add: coherent_below_def coherent_def)
  with assms(2) show ?thesis
    by (auto simp: open_server_def split: option.splits sum.splits prod.splits)
qed

interpretation steady: rpc_replies K "coherent_below L W A" grows "reply_ok K A heads L ans" "rpc_services K W A heads L ans"
  by unfold_locales (auto intro: route_safe init_server_coherent open_server_coherent grows_reflp)

subsection \<open>The end of a run\<close>

text \<open>
  A server whose context has ended and whose initialisation returns reaches its end: it starts, sees the
  end of the context, and its requests finish one after the other.
\<close>

definition rpc_live :: "('w, 'q, 'r, 'j) rpc_config \<Rightarrow> ('w, 'q, 'r, 'j) rpc_server \<Rightarrow> bool" where
  "rpc_live K s = (rsDone s \<and>
     (rsPhase s = RpcFresh \<and> \<not> rsInit s \<longrightarrow> fst (run (handler_init (rcFuel K) (rcClients K)) (lhNext (rsSys s))) \<noteq> None))"

definition rpc_ended :: "('w, 'q, 'r, 'j) rpc_server \<Rightarrow> bool" where
  "rpc_ended s = (case rsPhase s of RpcReturned _ \<Rightarrow> True | RpcFatal _ \<Rightarrow> True | _ \<Rightarrow> False)"

definition rpc_rank :: "('w, 'q, 'r, 'j) rpc_server \<Rightarrow> nat" where
  "rpc_rank s = (case rsPhase s of RpcFresh \<Rightarrow> if rsInit s then 4 else 5
     | RpcOpened \<Rightarrow> 3 + running (rsHttp s) | RpcServing \<Rightarrow> 2 + running (rsHttp s)
     | RpcStopping \<Rightarrow> 1 + running (rsHttp s) | _ \<Rightarrow> 0)"

interpretation rpc_host: http_host "rpc_step K" "ServeHTTP (route K)" "\<lambda>s. (rsSys s, rsHttp s)"
    "\<lambda>c s. s\<lparr>rsSys := fst c, rsHttp := snd c\<rparr>" "\<lambda>s. rsPhase s \<in> {RpcOpened, RpcServing, RpcStopping}"
  by unfold_locales (auto intro: rpc_request)

lemma open_server_rank: "rpc_inv K s \<Longrightarrow> rsPhase s = RpcFresh \<Longrightarrow>
    rpc_rank (open_server K s) \<le> 3 \<and> rsDone (open_server K s) = rsDone s \<and> rsPhase (open_server K s) \<noteq> RpcFresh"
  using open_server_cases [of K s] by (auto simp: rpc_inv_def rpc_rank_def running_def)

lemma rpc_progress_step:
  assumes "rpc_inv K s" "rpc_live K s" "\<not> rpc_ended s"
  shows "\<exists>t. (rpc_step K)\<^sup>*\<^sup>* s t \<and> rpc_live K t \<and> rpc_rank t < rpc_rank s"
proof (cases "rsPhase s")
  case RpcFresh
  show ?thesis
  proof (cases "rsInit s")
    case True
    then have "rpc_step K s (open_server K s)" using RpcFresh by (intro rpc_open)
    moreover have "rpc_rank s = 4" using RpcFresh True by (simp add: rpc_rank_def)
    ultimately show ?thesis
      using open_server_rank [OF assms(1) RpcFresh] assms(2) by (intro exI [where x = "open_server K s"]) (auto simp: rpc_live_def)
  next
    case False
    then have "rpc_step K s (init_server K s)" using RpcFresh assms(2) by (intro rpc_init) (auto simp: rpc_live_def)
    moreover have "rpc_rank (init_server K s) < rpc_rank s" "rpc_live K (init_server K s)"
      using RpcFresh False assms(2) by (simp_all add: rpc_rank_def rpc_live_def init_server_def)
    ultimately show ?thesis by blast
  qed
next
  case RpcOpened
  then have "rpc_step K s (join_group s)" by (rule rpc_join)
  moreover have "rpc_rank (join_group s) < rpc_rank s" "rpc_live K (join_group s)"
    using RpcOpened assms(2) by (simp_all add: rpc_rank_def rpc_live_def join_group_def)
  ultimately show ?thesis by blast
next
  case RpcServing
  let ?t = "s\<lparr>rsPhase := RpcStopping, rsHttp := close_http (rsHttp s)\<rparr>"
  have "rpc_step K s ?t" using RpcServing assms(2) by (intro rpc_done) (auto simp: rpc_live_def)
  moreover have "rpc_rank ?t < rpc_rank s" using RpcServing by (simp add: rpc_rank_def running_def)
  moreover have "rpc_live K ?t" using assms(2) by (simp add: rpc_live_def)
  ultimately show ?thesis by blast
next
  case RpcStopping
  show ?thesis
  proof (cases "drained (rsHttp s)")
    case True
    then have "rpc_step K s (finish_shutdown None s)" using RpcStopping by (intro rpc_shutdown)
    moreover have "rpc_rank (finish_shutdown None s) < rpc_rank s" "rpc_live K (finish_shutdown None s)"
      using RpcStopping assms(2) by (simp_all add: finish_shutdown_def return_server_def rpc_rank_def rpc_live_def)
    ultimately show ?thesis by blast
  next
    case False
    then obtain sys h where "(rpc_step K)\<^sup>*\<^sup>* s (s\<lparr>rsSys := sys, rsHttp := h\<rparr>)" and less: "running h < running (rsHttp s)"
      using rpc_host.request_finishes [of s K] RpcStopping by auto
    moreover from less have "rpc_rank (s\<lparr>rsSys := sys, rsHttp := h\<rparr>) < rpc_rank s" using RpcStopping by (simp add: rpc_rank_def)
    moreover have "rpc_live K (s\<lparr>rsSys := sys, rsHttp := h\<rparr>)" using assms(2) RpcStopping by (simp add: rpc_live_def)
    ultimately show ?thesis by blast
  qed
qed (use assms(3) in \<open>simp_all add: rpc_ended_def\<close>)

interpretation rpc_progress: progress_machine "rpc_step K" "rpc_inv K" "rpc_live K" rpc_ended rpc_rank
  by unfold_locales (rule rpc_progress_step)

lemma init_returns:
  assumes "rpc_services K W A heads L ans" "coherent_below L W A s"
  shows "fst (run (handler_init (rcFuel K) (rcClients K)) s) \<noteq> None"
proof -
  have serv: "services (rcClients K) W A heads L" "1 \<le> L" "rcFuel K = search_fuel"
    using assms(1) by (simp_all add: rpc_services_def)
  have "head_result A heads L (fst (run (QueryFinalizedBlockInBabylon search_fuel (rcClients K)) s))"
    using safe_run [OF handler_safe [OF serv(1,2)] assms(2)] by simp
  then show ?thesis
    by (auto simp: handler_init_def run_bindP serv(3) head_result_def split: prod.splits option.splits sum.splits)
qed

lemma answering_run:
  "rpc_services K W A heads L ans \<Longrightarrow> coherent_below L W A s \<Longrightarrow> (rpc_step K)\<^sup>*\<^sup>* (new_rpc_server s) t \<Longrightarrow>
   answering K W A heads L ans t"
  unfolding answering_def by (rule steady.replies_run)

lemma rpc_run_live:
  assumes "rpc_services K W A heads L ans" "answering K W A heads L ans t" "rsDone t"
  shows "rpc_live K t"
  using init_returns [OF assms(1)] assms(2,3) by (auto simp: rpc_live_def answering_def dest: replies_okD)

subsection \<open>Properties\<close>

definition demo_rpc_config :: "(int, rpc_request, unit, string) rpc_config" where
  "demo_rpc_config = \<lparr>rcFuel = search_fuel, rcClients = demo_clients (votes_upto 3) 5, rcCalls = demo_rpc,
     rcHttp = \<lparr>rhRegisterApis = (\<lambda>a m. None), rhStartHTTPEndpoint = (\<lambda>a w. (Inr a, w)),
       rhRoute = (\<lambda>c v q. if v = [] then Inl () else Inr q)\<rparr>,
     rcCors = [], rcVhosts = [''*''], rcAddr = ''127.0.0.1:8545''\<rparr>"

lemma demo_rpc_services:
  "rpc_services demo_rpc_config (\<lambda>w. True) (demo_answers (votes_upto 3)) ((=) (Inr 5)) 5 (\<lambda>n f. Inr n)"
  using demo_services [OF demo_small] demo_rpc_steady by (simp add: rpc_services_def demo_rpc_config_def)

text \<open>A new server whose endpoint can be opened opens it; an open server answers a request.\<close>

lemma server_opens:
  assumes "fst (run (handler_init (rcFuel K) (rcClients K)) s) \<noteq> None"
  shows "(rpc_step K)\<^sup>*\<^sup>* (new_rpc_server s) (open_server K (init_server K (new_rpc_server s)))"
proof -
  have "rpc_step K (new_rpc_server s) (init_server K (new_rpc_server s))"
    by (rule rpc_init) (simp_all add: new_rpc_server_def assms)
  moreover have "rpc_step K (init_server K (new_rpc_server s)) (open_server K (init_server K (new_rpc_server s)))"
    by (rule rpc_open) (simp_all add: new_rpc_server_def init_server_def)
  ultimately show ?thesis by (blast intro: rtranclp_trans)
qed

lemma open_server_answers:
  assumes "rsPhase s \<in> {RpcOpened, RpcServing}" "hsListening (rsHttp s)" "\<not> hsInShutdown (rsHttp s)" "hsConns (rsHttp s) = []"
  shows "\<exists>sys n a. (rpc_step K)\<^sup>*\<^sup>* s (s\<lparr>rsSys := sys, rsHttp := (rsHttp s)\<lparr>hsConns := [Replied q (n, a)]\<rparr>\<rparr>)"
proof -
  let ?h = "(rsHttp s)\<lparr>hsConns := [Active q (ServeHTTP (route K) q)]\<rparr>"
  have "http_step (ServeHTTP (route K)) (rsSys s, rsHttp s) (rsSys s, ?h)"
    using http_accept [OF assms(2,3), of "ServeHTTP (route K)" "rsSys s" q] assms(4) by simp
  moreover obtain sys a where
    "(http_step (ServeHTTP (route K)))\<^sup>*\<^sup>* (rsSys s, ?h) (sys, ?h\<lparr>hsConns := [Replied q a]\<rparr>)"
    using conn_replies [of 0 ?h q] by fastforce
  ultimately have "(http_step (ServeHTTP (route K)))\<^sup>*\<^sup>* (rsSys s, rsHttp s) (sys, ?h\<lparr>hsConns := [Replied q a]\<rparr>)"
    by (rule converse_rtranclp_into_rtranclp)
  from rpc_host.http_run [OF this] assms(1) have "(rpc_step K)\<^sup>*\<^sup>* s
      (s\<lparr>rsSys := sys, rsHttp := ?h\<lparr>hsConns := [Replied q a]\<rparr>\<rparr>)" by auto
  then show ?thesis by (cases a) auto
qed

text \<open>A run of the server on the concrete chain: it opens its endpoint and serves.\<close>

definition demo_opened :: "(int, rpc_request, unit, string) rpc_server" where
  "demo_opened = open_server demo_rpc_config (init_server demo_rpc_config (new_rpc_server demo_start))"

definition demo_serving :: "(int, rpc_request, unit, string) rpc_server" where
  "demo_serving = join_group demo_opened"

lemma demo_opened_simps:
  "rsPhase demo_opened = RpcOpened" "hsListening (rsHttp demo_opened)" "\<not> hsInShutdown (rsHttp demo_opened)"
  "hsConns (rsHttp demo_opened) = []" "rsDone demo_opened = False" "rsWg demo_opened = 0"
  by (simp_all add: demo_opened_def open_server_def init_server_def demo_rpc_config_def new_rpc_server_def)

lemma demo_serving_simps:
  "rsPhase demo_serving = RpcServing" "hsListening (rsHttp demo_serving)" "\<not> hsInShutdown (rsHttp demo_serving)"
  "hsConns (rsHttp demo_serving) = []" "rsDone demo_serving = False"
  by (simp_all add: demo_serving_def join_group_def demo_opened_simps)

lemma demo_opened_reach: "(rpc_step demo_rpc_config)\<^sup>*\<^sup>* (new_rpc_server demo_start) demo_opened"
proof -
  have "fst (run (handler_init (rcFuel demo_rpc_config) (rcClients demo_rpc_config)) demo_start) \<noteq> None"
    by (rule init_returns [OF demo_rpc_services demo_start_coherent])
  then show ?thesis unfolding demo_opened_def by (rule server_opens)
qed

lemma demo_serving_reach: "(rpc_step demo_rpc_config)\<^sup>*\<^sup>* (new_rpc_server demo_start) demo_serving"
  using demo_opened_reach rpc_join [OF demo_opened_simps(1)] unfolding demo_serving_def by (rule rtranclp.rtrancl_into_rtrancl)

lemma demo_request_reach:
  "\<exists>t n a. (rpc_step demo_rpc_config)\<^sup>*\<^sup>* (new_rpc_server demo_start) t \<and> rsPhase t = RpcServing \<and>
     hsConns (rsHttp t) = [Replied (GetBlock (- 3) True) (n, a)]"
proof -
  obtain sys n a where "(rpc_step demo_rpc_config)\<^sup>*\<^sup>* demo_serving
      (demo_serving\<lparr>rsSys := sys, rsHttp := (rsHttp demo_serving)\<lparr>hsConns := [Replied (GetBlock (- 3) True) (n, a)]\<rparr>\<rparr>)"
    using open_server_answers [of demo_serving demo_rpc_config "GetBlock (- 3) True"] demo_serving_simps by auto
  from rtranclp_trans [OF demo_serving_reach this] show ?thesis
    by (intro exI conjI, assumption) (simp_all add: demo_serving_simps)
qed

text \<open>
  (C7) The served RPC endpoint, from the start of the server to its end, with any requests in any
  interleaving: every request that has been answered was answered as it should be. What go-ethereum refuses
  is refused; a plain number gets the chain's own answer; \<open>finalized\<close> gets the chain's answer for a
  height the head search may return (final, or at most 1, with no final height between it and the head),
  or its error, wrapped. Meanwhile the caches keep agreeing with the services.
\<close>

theorem server_answers_requests:
  assumes "rpc_services K W A heads L ans" "coherent_below L W A s"
    and "(rpc_step K)\<^sup>*\<^sup>* (new_rpc_server s) t"
    and "Replied q (n, a) \<in> set (hsConns (rsHttp t))"
  shows "reply_ok K A heads L ans q a \<and> coherent_below L W A (lhNext (rsSys t))"
  using answering_run [OF assms(1-3)] assms(4) by (auto simp: answering_def dest: replies_okD)

theorem server_answers_requests_witness:
  "\<exists>(t :: (int, rpc_request, unit, string) rpc_server) n a. Replied (GetBlock (- 3) True) (n, a) \<in> set (hsConns (rsHttp t)) \<and>
     reply_ok demo_rpc_config (demo_answers (votes_upto 3)) ((=) (Inr 5)) 5 (\<lambda>n f. Inr n) (GetBlock (- 3) True) a"
proof -
  obtain t n a where t: "(rpc_step demo_rpc_config)\<^sup>*\<^sup>* (new_rpc_server demo_start) t"
      "Replied (GetBlock (- 3) True) (n, a) \<in> set (hsConns (rsHttp t))"
    using demo_request_reach by force
  from server_answers_requests [OF demo_rpc_services demo_start_coherent t] t(2) show ?thesis by blast
qed

text \<open>
  (C28) The request logger numbers the requests of a server from 1 on without repetition, whatever their
  interleaving, as long as there are fewer than \<open>2 ^ 64\<close> of them.
\<close>

theorem request_numbers_unique:
  assumes "(rpc_step K)\<^sup>*\<^sup>* (new_rpc_server s) t" "length (hsConns (rsHttp t)) < 2 ^ 64"
    and "i < length (hsConns (rsHttp t))" "hsConns (rsHttp t) ! i = Replied q (n, a)"
    and "j < length (hsConns (rsHttp t))" "hsConns (rsHttp t) ! j = Replied q' (m, b)"
  shows "n \<noteq> 0 \<and> (n = m \<longrightarrow> i = j)"
proof -
  have "rpc_inv K t" using rpc_machine.run_inv [OF assms(1)] by simp
  then have "numbering (route K) (rsSys t, rsHttp t)" by (simp add: rpc_inv_def)
  from numbers_distinct [OF this assms(2-6)] show ?thesis .
qed

theorem request_numbers_unique_witness:
  "\<exists>(t :: (int, rpc_request, unit, string) rpc_server) n a. hsConns (rsHttp t) = [Replied (GetBlock (- 3) True) (n, a)] \<and> n \<noteq> 0"
proof -
  obtain t n a where t: "(rpc_step demo_rpc_config)\<^sup>*\<^sup>* (new_rpc_server demo_start) t"
      "hsConns (rsHttp t) = [Replied (GetBlock (- 3) True) (n, a)]"
    using demo_request_reach by blast
  then have "n \<noteq> 0"
    using request_numbers_unique [OF t(1), of 0 "GetBlock (- 3) True" n a 0 "GetBlock (- 3) True" n a] by simp
  with t(2) show ?thesis by blast
qed

text \<open>
  (C23) When \<open>StartServer\<close> returns, its context has ended, the endpoint is closed, and every request that was
  ever accepted has been answered; the error its last log line reports is the one the variable \<open>err\<close> carried from
  the opening of the endpoint, which is nil, whatever \<open>Shutdown\<close> answered. \<open>Wait\<close> does not return while the server
  serves or stops; it returns before and after that, and also between the opening of the endpoint, when requests are
  accepted already, and the server's joining of the wait group.
\<close>

theorem shutdown_completes:
  assumes "(rpc_step K)\<^sup>*\<^sup>* (new_rpc_server s) t"
  shows "case rsPhase t of
      RpcReturned err \<Rightarrow> rsDone t \<and> \<not> hsListening (rsHttp t) \<and> drained (rsHttp t) \<and> err = None \<and> wait_returns t
    | RpcOpened \<Rightarrow> hsListening (rsHttp t) \<and> wait_returns t
    | RpcServing \<Rightarrow> hsListening (rsHttp t) \<and> \<not> wait_returns t
    | RpcStopping \<Rightarrow> rsDone t \<and> \<not> wait_returns t \<and> \<not> hsListening (rsHttp t)
    | _ \<Rightarrow> wait_returns t \<and> hsConns (rsHttp t) = [] \<and> \<not> hsListening (rsHttp t)"
proof -
  have "rpc_inv K t" using rpc_machine.run_inv [OF assms] by simp
  then show ?thesis by (auto simp: rpc_inv_def wait_returns_def split: rpc_phase.splits)
qed

theorem shutdown_completes_witness: "wait_returns demo_opened \<and> \<not> wait_returns demo_serving"
  using shutdown_completes [OF demo_opened_reach] shutdown_completes [OF demo_serving_reach] demo_serving_simps demo_opened_simps
  by simp

text \<open>
  (C24) \<open>Wait\<close> can miss a server that is open: whenever the initialisation returns and the endpoint opens, there is a
  run in which the endpoint listens and a request, any request, has been accepted and answered, while the wait group
  is still zero, so that a concurrent \<open>Wait\<close> returns.
\<close>

theorem wait_misses_open_server:
  assumes "fst (run (handler_init (rcFuel K) (rcClients K)) s) \<noteq> None"
    and "rhRegisterApis (rcHttp K) [''eth''] [''eth''] = None" "\<And>w. is_ok (fst (rhStartHTTPEndpoint (rcHttp K) (rcAddr K) w))"
  shows "\<exists>t n a. (rpc_step K)\<^sup>*\<^sup>* (new_rpc_server s) t \<and> hsListening (rsHttp t) \<and> \<not> hsInShutdown (rsHttp t) \<and>
    hsConns (rsHttp t) = [Replied q (n, a)] \<and> wait_returns t"
proof -
  let ?o = "open_server K (init_server K (new_rpc_server s))"
  have o: "rsPhase ?o = RpcOpened" "hsListening (rsHttp ?o)" "\<not> hsInShutdown (rsHttp ?o)" "hsConns (rsHttp ?o) = []" "rsWg ?o = 0"
    using assms(2) assms(3) [of "world (snd (run (handler_init (rcFuel K) (rcClients K)) s))"]
    by (auto simp: open_server_def init_server_def new_rpc_server_def GetAPI_def is_ok_iff split: prod.splits sum.splits)
  obtain sys n a where "(rpc_step K)\<^sup>*\<^sup>* ?o (?o\<lparr>rsSys := sys, rsHttp := (rsHttp ?o)\<lparr>hsConns := [Replied q (n, a)]\<rparr>\<rparr>)"
    using open_server_answers [of ?o K q] o by auto
  from rtranclp_trans [OF server_opens [OF assms(1)] this] show ?thesis
    by (intro exI conjI, assumption) (simp_all add: o wait_returns_def)
qed

theorem wait_misses_open_server_witness:
  "\<exists>(t :: (int, rpc_request, unit, string) rpc_server) n a. (rpc_step demo_rpc_config)\<^sup>*\<^sup>* (new_rpc_server demo_start) t \<and>
     hsListening (rsHttp t) \<and> hsConns (rsHttp t) = [Replied (GetBlock 2 False) (n, a)] \<and> wait_returns t"
proof -
  have "fst (run (handler_init (rcFuel demo_rpc_config) (rcClients demo_rpc_config)) demo_start) \<noteq> None"
    by (rule init_returns [OF demo_rpc_services demo_start_coherent])
  from wait_misses_open_server [OF this, of "GetBlock 2 False"] show ?thesis
    by (auto simp: demo_rpc_config_def)
qed

lemma served_run: "(rpc_step K)\<^sup>*\<^sup>* s t \<Longrightarrow> rpc_inv K s \<Longrightarrow> rsPhase s \<in> {RpcOpened, RpcServing, RpcStopping} \<Longrightarrow>
    rsPhase t \<in> {RpcOpened, RpcServing, RpcStopping} \<or> rsPhase t = RpcReturned None"
  by (rule rpc_machine.run_keeps, assumption, assumption, simp)
    (auto elim!: rpc_stepE simp: join_group_def return_server_def finish_shutdown_def rpc_inv_def)

text \<open>
  (C26) A server that serves and whose context ends comes to its end: from every such state a schedule leads
  to the return of \<open>StartServer\<close>, with all its requests answered.
\<close>

theorem cancelled_server_returns:
  assumes "rpc_services K W A heads L ans" "coherent_below L W A s"
    and "(rpc_step K)\<^sup>*\<^sup>* (new_rpc_server s) t" "rsPhase t \<in> {RpcOpened, RpcServing, RpcStopping}" "rsDone t"
  shows "\<exists>u. (rpc_step K)\<^sup>*\<^sup>* t u \<and> rsPhase u = RpcReturned None \<and> drained (rsHttp u)"
proof -
  have t: "rpc_inv K t" using rpc_machine.run_inv [OF assms(3)] by simp
  have "rpc_live K t" by (rule rpc_run_live [OF assms(1) answering_run [OF assms(1-3)] assms(5)])
  then obtain u where u: "(rpc_step K)\<^sup>*\<^sup>* t u" "rpc_ended u"
    using rpc_progress.reaches_goal [OF t] by blast
  then have "rsPhase u = RpcReturned None"
    using served_run [OF u(1) t assms(4)] by (auto simp: rpc_ended_def)
  moreover have "rpc_inv K u" by (rule rpc_machine.run_inv [OF u(1) t])
  ultimately show ?thesis using u(1) by (auto simp: rpc_inv_def)
qed

theorem cancelled_server_returns_witness:
  "\<exists>u. (rpc_step demo_rpc_config)\<^sup>*\<^sup>* (demo_serving\<lparr>rsDone := True\<rparr>) u \<and> rsPhase u = RpcReturned None \<and> drained (rsHttp u)"
proof (rule cancelled_server_returns [OF demo_rpc_services demo_start_coherent])
  show "(rpc_step demo_rpc_config)\<^sup>*\<^sup>* (new_rpc_server demo_start) (demo_serving\<lparr>rsDone := True\<rparr>)"
    using demo_serving_reach rpc_cancel by (rule rtranclp.rtrancl_into_rtrancl)
qed (simp_all add: demo_serving_simps)

end
