(* ===== verification/OperatorRun.thy ===== *)
theory OperatorRun
  imports FpApp RpcServer
begin

text \<open>
  The operator's application together with the RPC server it runs in a goroutine (operator/fp/app.go and
  rpc/rpc.go): one context, a wait group that \<open>stopImpl\<close> waits for, and a process that ends when the server
  cannot open its endpoint. The application's machine and the server's machine step in any interleaving;
  each is refined by the other's steps, so what is proved of one alone holds of the whole.
\<close>

subsection \<open>The composed machine\<close>

record ('w, 'v, 'q, 'r, 'j) operator_run =
  orApp :: "'w fp_app"
  orSrv :: "('v, 'q, 'r, 'j) rpc_server"
  orJoined :: bool

text \<open>The goroutine of the server exists, and the process has not been ended by it.\<close>

definition spawned :: "('w, 'v, 'q, 'r, 'j) operator_run \<Rightarrow> bool" where
  "spawned o' = (RpcSpawned \<in> set (effects (orApp o')))"

definition alive :: "('w, 'v, 'q, 'r, 'j) operator_run \<Rightarrow> bool" where
  "alive o' = (case rsPhase (orSrv o') of RpcFatal _ \<Rightarrow> False | _ \<Rightarrow> True)"

definition new_operator_run :: "'w fp_app \<Rightarrow> 'v psys \<Rightarrow> ('w, 'v, 'q, 'r, 'j) operator_run" where
  "new_operator_run a s = \<lparr>orApp = a, orSrv = new_rpc_server s, orJoined = False\<rparr>"

text \<open>
  The RPC goroutine runs from its spawning on, also while \<open>Start\<close> still starts an instance.
  \<open>op_join\<close> is the deferred \<open>wg.Done\<close> of the goroutine, after \<open>StartServer\<close> has returned.
\<close>

inductive op_step :: "'w app_calls \<Rightarrow> string \<Rightarrow> ('v, 'q, 'r, 'j) rpc_config \<Rightarrow>
    ('w, 'v, 'q, 'r, 'j) operator_run \<Rightarrow> ('w, 'v, 'q, 'r, 'j) operator_run \<Rightarrow> bool" for A key K where
  op_daemon: "alive s \<Longrightarrow> phase (orApp s) = Fresh \<Longrightarrow> op_step A key K s (s\<lparr>orApp := start_daemon A (orApp s)\<rparr>)"
| op_spawn: "alive s \<Longrightarrow> phase (orApp s) = DaemonUp \<Longrightarrow> op_step A key K s (s\<lparr>orApp := spawn_rpc (orApp s)\<rparr>)"
| op_instance: "alive s \<Longrightarrow> phase (orApp s) = RpcUp \<Longrightarrow> op_step A key K s (s\<lparr>orApp := start_fp A key (orApp s)\<rparr>)"
| op_cancel: "alive s \<Longrightarrow>
     op_step A key K s (s\<lparr>orApp := (orApp s)\<lparr>cancelled := True\<rparr>, orSrv := (orSrv s)\<lparr>rsDone := True\<rparr>\<rparr>)"
| op_rpc: "alive s \<Longrightarrow> spawned s \<Longrightarrow> rpc_step K (orSrv s) srv \<Longrightarrow> rsDone srv = rsDone (orSrv s) \<Longrightarrow>
     op_step A key K s (s\<lparr>orSrv := srv\<rparr>)"
| op_join: "alive s \<Longrightarrow> spawned s \<Longrightarrow> \<not> orJoined s \<Longrightarrow> rsPhase (orSrv s) = RpcReturned e \<Longrightarrow> wg (orApp s) = Suc n \<Longrightarrow>
     op_step A key K s (s\<lparr>orApp := (orApp s)\<lparr>wg := n\<rparr>, orJoined := True\<rparr>)"
| op_done: "alive s \<Longrightarrow> phase (orApp s) = Running \<Longrightarrow> cancelled (orApp s) \<Longrightarrow>
     op_step A key K s (s\<lparr>orApp := stop_begin (orApp s)\<rparr>)"
| op_stop: "alive s \<Longrightarrow> phase (orApp s) = Waiting \<Longrightarrow> wg (orApp s) = 0 \<Longrightarrow>
     op_step A key K s (s\<lparr>orApp := stop_end A (orApp s)\<rparr>)"

subsection \<open>The invariant\<close>

definition op_inv :: "('v, 'q, 'r, 'j) rpc_config \<Rightarrow> ('w, 'v, 'q, 'r, 'j) operator_run \<Rightarrow> bool" where
  "op_inv K s = (app_inv (orApp s) \<and> rpc_inv K (orSrv s) \<and> cancelled (orApp s) = rsDone (orSrv s) \<and>
     wg (orApp s) = (if spawned s \<and> \<not> orJoined s then 1 else 0) \<and>
     (orJoined s \<longrightarrow> rsPhase (orSrv s) = RpcReturned None) \<and> (orJoined s \<longrightarrow> spawned s) \<and>
     (\<not> spawned s \<longrightarrow> rsPhase (orSrv s) = RpcFresh))"

text \<open>What the operations of the application do to the wait group and to the goroutine.\<close>

lemma start_instance_keeps:
  "wg (start_instance A pk m a) = wg a" "cancelled (start_instance A pk m a) = cancelled a"
  "RpcSpawned \<in> set (effects (start_instance A pk m a)) \<longleftrightarrow> RpcSpawned \<in> set (effects a)"
  by (auto simp: start_instance_def fail_def mark_def split: prod.splits sum.splits)

lemma start_fp_keeps:
  "wg (start_fp A key a) = wg a" "cancelled (start_fp A key a) = cancelled a"
  "RpcSpawned \<in> set (effects (start_fp A key a)) \<longleftrightarrow> RpcSpawned \<in> set (effects a)"
  by (auto simp: start_fp_def start_by_key_def start_by_store_def start_instance_keeps fail_def Let_def
      split: sum.splits prod.splits)

lemma start_daemon_keeps:
  "wg (start_daemon A a) = wg a" "cancelled (start_daemon A a) = cancelled a"
  "RpcSpawned \<in> set (effects (start_daemon A a)) \<longleftrightarrow> RpcSpawned \<in> set (effects a)"
  by (auto simp: start_daemon_def fail_def mark_def split: prod.splits sum.splits)

lemma spawn_rpc_spawns:
  assumes "effects a = [DaemonStarted]" "wg a = 0"
  shows "wg (spawn_rpc a) = (if RpcSpawned \<in> set (effects (spawn_rpc a)) then 1 else 0)"
    "cancelled (spawn_rpc a) = cancelled a"
  using assms by (auto simp: spawn_rpc_def start_rpc_def mark_def)

lemma stop_begin_keeps:
  "wg (stop_begin a) = wg a" "cancelled (stop_begin a) = cancelled a" "effects (stop_begin a) = effects a"
  "phase (stop_begin a) \<noteq> Fresh"
  by (simp_all add: stop_begin_def)

lemma stop_end_keeps:
  "wg (stop_end A a) = wg a" "cancelled (stop_end A a) = cancelled a"
  "RpcSpawned \<in> set (effects (stop_end A a)) \<longleftrightarrow> RpcSpawned \<in> set (effects a)"
  "phase (stop_end A a) \<noteq> Fresh"
  by (auto simp: stop_end_def fail_def mark_def split: prod.splits sum.splits)

text \<open>Each step of the whole is a step of the application or leaves it, and the same for the server.\<close>

lemma op_app_sim: "op_step A key K s t \<Longrightarrow> op_inv K s \<Longrightarrow> (app_step A key)\<^sup>*\<^sup>* (orApp s) (orApp t)"
proof (induction rule: op_step.induct)
  case (op_join s e n)
  then have "cancelled (orApp s)" by (auto simp: op_inv_def rpc_inv_def)
  with op_join show ?case by (auto intro: app_rpc_returns)
qed (auto intro: app_step.intros)

lemma op_rpc_sim: "op_step A key K s t \<Longrightarrow> op_inv K s \<Longrightarrow> (rpc_step K)\<^sup>*\<^sup>* (orSrv s) (orSrv t)"
  by (induction rule: op_step.induct) (auto intro: rpc_cancel)

lemma app_steps_inv: "(app_step A key)\<^sup>*\<^sup>* a b \<Longrightarrow> app_inv a \<Longrightarrow> app_inv b"
  by (induction rule: rtranclp_induct) (auto intro: app_step_inv)

lemma op_step_inv: "op_step A key K s t \<Longrightarrow> op_inv K s \<Longrightarrow> op_inv K t"
proof -
  assume st: "op_step A key K s t" and s: "op_inv K s"
  have app: "app_inv (orApp t)" using app_steps_inv [OF op_app_sim [OF st s]] s by (simp add: op_inv_def)
  have srv: "rpc_inv K (orSrv t)" using rpc_machine.run_inv [OF op_rpc_sim [OF st s]] s by (simp add: op_inv_def)
  from st s app srv show ?thesis
  proof (induction rule: op_step.induct)
    case (op_spawn s)
    then have "effects (orApp s) = [DaemonStarted]" "wg (orApp s) = 0" by (auto simp: op_inv_def app_inv_def)
    from spawn_rpc_spawns [OF this] this op_spawn show ?case
      by (auto simp: op_inv_def spawned_def)
  next
    case (op_rpc s srv)
    then have "\<not> orJoined s \<or> srv = orSrv s" 
      by (auto simp: op_inv_def elim!: rpc_stepE)
    with op_rpc show ?case by (auto simp: op_inv_def spawned_def)
  next
    case (op_join s e n)
    then show ?case by (auto simp: op_inv_def spawned_def rpc_inv_def app_inv_def)
  qed (auto simp: op_inv_def spawned_def stop_begin_keeps stop_end_keeps start_daemon_keeps start_fp_keeps)
qed

text \<open>The whole refines each of its two machines.\<close>

interpretation op_app: simulation "op_step A key K" "op_inv K" "app_step A key" orApp
  by unfold_locales (auto intro: op_step_inv op_app_sim)

interpretation op_srv: simulation "op_step A key K" "op_inv K" "rpc_step K" orSrv
  by unfold_locales (auto intro: op_rpc_sim)

lemma app_reach_rtranclp: "(app_step A key)\<^sup>*\<^sup>* a b \<Longrightarrow> app_reach A key a b"
  by (induction rule: rtranclp_induct) (auto intro: app_reach.intros)

lemma op_inv_new [simp]: "op_inv K (new_operator_run (newApp w rpc addr) s)"
proof -
  have "rpc_inv K (new_rpc_server s)" by simp
  then show ?thesis
    by (simp add: op_inv_def new_operator_run_def app_inv_new spawned_def) (simp add: newApp_def new_rpc_server_def)
qed

subsection \<open>The end of the run\<close>

lemma rpc_done_stays: "rpc_step K s t \<Longrightarrow> rsDone s \<Longrightarrow> rsDone t"
proof (induction rule: rpc_step.induct)
  case (rpc_open s)
  then show ?case using open_server_cases [of K s] by auto
qed (simp_all add: init_server_def join_group_def return_server_def finish_shutdown_def)

text \<open>A run of the server alone is a run of the whole, unless it ends the process on the way.\<close>

lemma op_rpc_run:
  assumes "(rpc_step K)\<^sup>*\<^sup>* (orSrv s) srv" "rsDone (orSrv s)" "spawned s"
  shows "rsDone srv \<and> (\<exists>u. (op_step A key K)\<^sup>*\<^sup>* s u \<and> (u = s\<lparr>orSrv := srv\<rparr> \<or> \<not> alive u))"
  using assms(1)
proof (induction rule: rtranclp_induct)
  case base
  then show ?case using assms(2) by auto
next
  case (step srv1 srv2)
  then obtain u where u: "(op_step A key K)\<^sup>*\<^sup>* s u" "u = s\<lparr>orSrv := srv1\<rparr> \<or> \<not> alive u" by blast
  have done2: "rsDone srv2" using step rpc_done_stays by blast
  show ?case
  proof (cases "alive u")
    case True
    with u(2) have u1: "u = s\<lparr>orSrv := srv1\<rparr>" by blast
    with True step done2 assms(3) have "op_step A key K u (u\<lparr>orSrv := srv2\<rparr>)"
      by (intro op_rpc) (simp_all add: spawned_def)
    with u(1) u1 have "(op_step A key K)\<^sup>*\<^sup>* s (s\<lparr>orSrv := srv2\<rparr>)" by simp
    with done2 show ?thesis by blast
  next
    case False
    with u(1) done2 show ?thesis by blast
  qed
qed

text \<open>First the server's goroutine ends, then the application stops.\<close>

lemma op_server_ends:
  assumes "op_inv K s" "alive s" "rpc_live K (orSrv s)"
  shows "\<exists>u. (op_step A key K)\<^sup>*\<^sup>* s u \<and> (\<not> alive u \<or> (wg (orApp u) = 0 \<and> phase (orApp u) = phase (orApp s)))"
proof (cases "wg (orApp s) = 0")
  case False
  then have s: "spawned s" "\<not> orJoined s" "wg (orApp s) = 1"
    using assms(1) by (auto simp: op_inv_def split: if_splits)
  obtain srv where srv: "(rpc_step K)\<^sup>*\<^sup>* (orSrv s) srv" "rpc_ended srv"
    using rpc_progress.reaches_goal [of K "orSrv s"] assms by (auto simp: op_inv_def)
  obtain u where u: "(op_step A key K)\<^sup>*\<^sup>* s u" "u = s\<lparr>orSrv := srv\<rparr> \<or> \<not> alive u"
    using op_rpc_run [OF srv(1) _ s(1)] assms(3) by (auto simp: rpc_live_def)
  show ?thesis
  proof (cases "alive u")
    case True
    with u(2) have u1: "u = s\<lparr>orSrv := srv\<rparr>" by blast
    with True srv(2) obtain e where "rsPhase (orSrv u) = RpcReturned e"
      by (auto simp: rpc_ended_def alive_def split: rpc_phase.splits)
    with True s u1 have "op_step A key K u (u\<lparr>orApp := (orApp u)\<lparr>wg := 0\<rparr>, orJoined := True\<rparr>)"
      by (intro op_join) (simp_all add: spawned_def)
    with u(1) have "(op_step A key K)\<^sup>*\<^sup>* s (u\<lparr>orApp := (orApp u)\<lparr>wg := 0\<rparr>, orJoined := True\<rparr>)" by simp
    with u1 show ?thesis by (intro exI) auto
  next
    case False
    with u(1) show ?thesis by blast
  qed
qed blast

lemma op_waiting_stops:
  assumes "alive v" "wg (orApp v) = 0" "phase (orApp v) = Waiting"
  shows "\<exists>u r. (op_step A key K)\<^sup>*\<^sup>* v u \<and> phase (orApp u) = Finished r \<and> DaemonStopped \<in> set (effects (orApp u))"
proof -
  have "op_step A key K v (v\<lparr>orApp := stop_end A (orApp v)\<rparr>)" using assms by (intro op_stop)
  moreover obtain r where "phase (stop_end A (orApp v)) = Finished r" using stop_end_finishes by blast
  moreover have "DaemonStopped \<in> set (effects (stop_end A (orApp v)))"
    by (simp add: stop_end_def fail_def mark_def split: prod.splits sum.splits)
  ultimately show ?thesis by (intro exI conjI) (rule r_into_rtranclp, assumption, simp_all)
qed

lemma op_app_stops:
  assumes "op_inv K s" "alive s" "wg (orApp s) = 0" "phase (orApp s) = Waiting \<or> phase (orApp s) = Running \<and> cancelled (orApp s)"
  shows "\<exists>u r. (op_step A key K)\<^sup>*\<^sup>* s u \<and> phase (orApp u) = Finished r \<and> DaemonStopped \<in> set (effects (orApp u))"
proof -
  show ?thesis
  proof (cases "phase (orApp s) = Waiting")
    case False
    let ?t = "s\<lparr>orApp := stop_begin (orApp s)\<rparr>"
    have run: "phase (orApp s) = Running" "cancelled (orApp s)" using assms(4) False by auto
    then have "op_step A key K s ?t" using assms(2) by (intro op_done)
    moreover have "phase (orApp ?t) = Waiting" "alive ?t" "wg (orApp ?t) = 0"
      using assms run by (auto simp: stop_begin_def op_inv_def app_inv_def alive_def)
    ultimately show ?thesis using op_waiting_stops [of ?t] by (blast intro: converse_rtranclp_into_rtranclp)
  qed (use op_waiting_stops assms in blast)
qed

text \<open>Once the endpoint is open, the server cannot end the process.\<close>

lemma op_serving_alive:
  assumes "(op_step A key K)\<^sup>*\<^sup>* s t" "op_inv K s" "rsPhase (orSrv s) \<notin> {RpcFresh}" "alive s"
  shows "alive t"
proof (cases "rsPhase (orSrv s)")
  case (RpcReturned e)
  have "rsPhase (orSrv t) = RpcReturned e"
    using op_srv.run_simulates [OF assms(1,2)] RpcReturned
    by (induction rule: rtranclp_induct) (auto elim!: rpc_stepE)
  then show ?thesis by (simp add: alive_def)
next
  case (RpcFatal m)
  with assms(4) show ?thesis by (simp add: alive_def)
qed (use served_run [OF op_srv.run_simulates [OF assms(1,2)]] assms(2,3) in \<open>auto simp: op_inv_def alive_def\<close>)

lemma op_cancelled_stays:
  assumes "(op_step A key K)\<^sup>*\<^sup>* s t" "op_inv K s" "cancelled (orApp s)"
  shows "cancelled (orApp t)"
proof -
  have "rsDone (orSrv t)"
    using op_srv.run_simulates [OF assms(1,2)] assms(2,3) unfolding op_inv_def
    by (induction rule: rtranclp_induct) (auto intro: rpc_done_stays)
  with op_app.run_inv [OF assms(1,2)] show ?thesis by (simp add: op_inv_def)
qed

subsection \<open>Properties\<close>

text \<open>
  In every interleaving of the two, what the application and what the server does is a run of its own machine. So the
  end of the server's goroutine, which the application's machine takes to happen only after the cancellation, does
  happen only then.
\<close>

lemma operator_refines_app_and_server:
  assumes "(op_step A key K)\<^sup>*\<^sup>* (new_operator_run (newApp w rpc addr) s) t"
  shows "app_reach A key (newApp w rpc addr) (orApp t) \<and> (rpc_step K)\<^sup>*\<^sup>* (new_rpc_server s) (orSrv t)"
  using op_app.run_simulates [OF assms op_inv_new] op_srv.run_simulates [OF assms op_inv_new] app_reach_rtranclp
  by (simp add: new_operator_run_def) blast

text \<open>
  (C14) An orderly stop drops no request: when the operator has stopped its daemon, \<open>Wait\<close> returns, and either no RPC server was
  started, or \<open>StartServer\<close> has returned, the endpoint is closed, and every request it ever accepted
  has been answered, and answered as it should be.
\<close>

theorem daemon_stops_after_requests:
  assumes "rpc_services K W A' heads L ans" "coherent_below L W A' s"
    and "(op_step A key K)\<^sup>*\<^sup>* (new_operator_run (newApp w rpc addr) s) t" "DaemonStopped \<in> set (effects (orApp t))"
  shows "Wait_app (orApp t) \<and> (\<not> spawned t \<or> rsPhase (orSrv t) = RpcReturned None \<and> \<not> hsListening (rsHttp (orSrv t)) \<and>
    (\<forall>c \<in> set (hsConns (rsHttp (orSrv t))). \<exists>q n a. c = Replied q (n, a) \<and> reply_ok K A' heads L ans q a))"
proof -
  have t: "op_inv K t" by (rule op_app.run_inv [OF assms(3) op_inv_new])
  have "(rpc_step K)\<^sup>*\<^sup>* (new_rpc_server s) (orSrv t)"
    using op_srv.run_simulates [OF assms(3) op_inv_new] by (simp add: new_operator_run_def)
  from answering_run [OF assms(1,2) this]
  have ok: "conn_ok (on_next (coherent_below L W A')) (next_guar grows) (\<lambda>q (n, a). reply_ok K A' heads L ans q a) c"
    if "c \<in> set (hsConns (rsHttp (orSrv t)))" for c
    using that by (simp add: answering_def replies_ok_def http_ok_def)
  have "wg (orApp t) = 0"
    using t assms(4) by (auto simp: op_inv_def app_inv_def started_effects_def split: app_phase.splits if_splits)
  with t have "\<not> spawned t \<or> rsPhase (orSrv t) = RpcReturned None" "rpc_inv K (orSrv t)"
    by (auto simp: op_inv_def split: if_splits)
  moreover have "\<exists>q n a. c = Replied q (n, a) \<and> reply_ok K A' heads L ans q a"
    if "drained (rsHttp (orSrv t))" "c \<in> set (hsConns (rsHttp (orSrv t)))" for c
    using ok [OF that(2)] that by (cases c) (auto simp: drained_def)
  ultimately show ?thesis using \<open>wg (orApp t) = 0\<close> by (auto simp: rpc_inv_def Wait_app_def)
qed


subsection \<open>A concrete operator\<close>

definition demo_app_start :: "(nat, int, rpc_request, unit, string) operator_run" where
  "demo_app_start = new_operator_run (newApp 0 True ''addr'') demo_start"

text \<open>It has started, its server serves, and its context has ended.\<close>

definition demo_app_cancelled :: "(nat, int, rpc_request, unit, string) operator_run" where
  "demo_app_cancelled = \<lparr>orApp = (Start_app (demo_app_calls [''a''] (Inr ())) [] (newApp 0 True ''addr''))\<lparr>cancelled := True\<rparr>,
     orSrv = demo_serving\<lparr>rsDone := True\<rparr>, orJoined = False\<rparr>"

lemma demo_app_simps:
  "phase (orApp demo_app_cancelled) = Running" "cancelled (orApp demo_app_cancelled)" "spawned demo_app_cancelled"
  "alive demo_app_cancelled" "effects (orApp demo_app_cancelled) = [DaemonStarted, RpcSpawned, InstanceStarted ''a'']"
  by (simp_all add: demo_app_cancelled_def spawned_def alive_def demo_serving_simps Start_app_seq start_rpc_def
      start_by_store_def start_instance_def demo_app_calls_def newApp_def mark_def Let_def)

lemma demo_app_reach: "(op_step (demo_app_calls [''a''] (Inr ())) [] demo_rpc_config)\<^sup>*\<^sup>* demo_app_start demo_app_cancelled"
proof -
  let ?A = "demo_app_calls [''a''] (Inr ())" and ?K = demo_rpc_config
  let ?R = "\<lambda>a v. \<lparr>orApp = a, orSrv = v, orJoined = False\<rparr> :: (nat, int, rpc_request, unit, string) operator_run"
  let ?step = "op_step ?A [] ?K"
  let ?a0 = "newApp (0 :: nat) True ''addr''" and ?v0 = "new_rpc_server demo_start :: (int, rpc_request, unit, string) rpc_server"
  let ?a1 = "start_daemon ?A ?a0" let ?a2 = "spawn_rpc ?a1" let ?a3 = "start_fp ?A [] ?a2"
  let ?v1 = "init_server ?K ?v0"
  have init: "fst (run (handler_init (rcFuel ?K) (rcClients ?K)) demo_start) \<noteq> None"
    by (rule init_returns [OF demo_rpc_services demo_start_coherent])
  have v: "rsPhase ?v0 = RpcFresh" "\<not> rsInit ?v0" "lhNext (rsSys ?v0) = demo_start" "\<not> rsDone ?v0"
    "rsPhase ?v1 = RpcFresh" "rsInit ?v1" "\<not> rsDone ?v1"
    by (simp_all add: new_rpc_server_def init_server_def)
  have a: "phase ?a0 = Fresh" "phase ?a1 = DaemonUp" "phase ?a2 = RpcUp" "RpcSpawned \<in> set (effects ?a3)"
    "?a3 = Start_app ?A [] ?a0"
    by (simp_all add: newApp_def start_daemon_def demo_app_calls_def mark_def spawn_rpc_def start_rpc_def start_fp_def
        start_by_store_def start_instance_def Start_app_def Let_def)
  have alive: "alive (?R x y)" if "rsPhase y \<in> {RpcFresh, RpcOpened, RpcServing}" for x y
    using that by (auto simp: alive_def)
  have srv: "?step (?R ?a3 y) (?R ?a3 z)" if "rpc_step ?K y z" "rsPhase y \<in> {RpcFresh, RpcOpened, RpcServing}" "rsDone z = rsDone y" for y z
    using op_rpc [of "?R ?a3 y" ?K z ?A "[]"] that a(4) by (simp add: spawned_def alive)
  have "?step (?R ?a0 ?v0) (?R ?a1 ?v0)" using op_daemon [of "?R ?a0 ?v0" ?A "[]" ?K] a(1) v(1) by (simp add: alive)
  moreover have "?step (?R ?a1 ?v0) (?R ?a2 ?v0)" using op_spawn [of "?R ?a1 ?v0" ?A "[]" ?K] a(2) v(1) by (simp add: alive)
  moreover have "?step (?R ?a2 ?v0) (?R ?a3 ?v0)" using op_instance [of "?R ?a2 ?v0" ?A "[]" ?K] a(3) v(1) by (simp add: alive)
  moreover have "?step (?R ?a3 ?v0) (?R ?a3 ?v1)"
    by (rule srv [OF rpc_init [OF v(1,2)]]) (use init v in \<open>simp_all\<close>)
  moreover have "?step (?R ?a3 ?v1) (?R ?a3 demo_opened)"
    by (rule srv) (use rpc_open [OF v(5,6), of ?K] v demo_opened_simps in \<open>simp_all add: demo_opened_def\<close>)
  moreover have "?step (?R ?a3 demo_opened) (?R ?a3 demo_serving)"
    by (rule srv) (use rpc_join [OF demo_opened_simps(1), of ?K] demo_opened_simps demo_serving_simps in \<open>simp_all add: demo_serving_def\<close>)
  moreover have "?step (?R ?a3 demo_serving) demo_app_cancelled"
    using op_cancel [of "?R ?a3 demo_serving" ?A "[]" ?K] demo_serving_simps a(5) by (simp add: demo_app_cancelled_def alive)
  ultimately show ?thesis
    by (simp add: demo_app_start_def new_operator_run_def)
qed


lemma demo_app_inv: "op_inv demo_rpc_config demo_app_cancelled"
  using op_app.run_inv [OF demo_app_reach] op_inv_new by (simp add: demo_app_start_def)

lemma demo_app_stops:
  "\<exists>u. (op_step (demo_app_calls [''a''] (Inr ())) [] demo_rpc_config)\<^sup>*\<^sup>* demo_app_start u \<and>
     DaemonStopped \<in> set (effects (orApp u))"
proof -
  let ?A = "demo_app_calls [''a''] (Inr ())" and ?K = demo_rpc_config
  have fresh: "rsPhase (orSrv demo_app_cancelled) \<notin> {RpcFresh}" "rpc_live ?K (orSrv demo_app_cancelled)"
    by (simp_all add: demo_app_cancelled_def demo_serving_simps rpc_live_def)
  obtain u where u: "(op_step ?A [] ?K)\<^sup>*\<^sup>* demo_app_cancelled u" "\<not> alive u \<or> (wg (orApp u) = 0 \<and> phase (orApp u) = Running)"
    using op_server_ends [OF demo_app_inv demo_app_simps(4) fresh(2)] demo_app_simps(1) by auto
  have alive: "alive u" by (rule op_serving_alive [OF u(1) demo_app_inv fresh(1) demo_app_simps(4)])
  have inv: "op_inv ?K u" by (rule op_app.run_inv [OF u(1) demo_app_inv])
  have "cancelled (orApp u)" by (rule op_cancelled_stays [OF u(1) demo_app_inv demo_app_simps(2)])
  with op_app_stops [OF inv alive, of ?A "[]"] u(2) alive obtain v where
    v: "(op_step ?A [] ?K)\<^sup>*\<^sup>* u v" "DaemonStopped \<in> set (effects (orApp v))" by auto
  from rtranclp_trans [OF demo_app_reach rtranclp_trans [OF u(1) v(1)]] v(2) show ?thesis by blast
qed

theorem daemon_stops_after_requests_witness:
  "\<exists>u :: (nat, int, rpc_request, unit, string) operator_run. DaemonStopped \<in> set (effects (orApp u)) \<and>
     (\<not> spawned u \<or> rsPhase (orSrv u) = RpcReturned None)"
proof -
  obtain u where u: "(op_step (demo_app_calls [''a''] (Inr ())) [] demo_rpc_config)\<^sup>*\<^sup>* demo_app_start u"
    "DaemonStopped \<in> set (effects (orApp u))" using demo_app_stops by blast
  from daemon_stops_after_requests [OF demo_rpc_services demo_start_coherent u(1) [unfolded demo_app_start_def] u(2)] u(2)
  show ?thesis by blast
qed

end
