(* ===== verification/ProviderProvenance.thy ===== *)
theory ProviderProvenance
  imports ProviderTheorems
begin

text \<open>
  Where the provider's answers come from, with nothing assumed of the services: they may change their answers at
  any time, contradict themselves and fail. Every cached value was given by a service, and a height that is
  reported final, or lies below the last finalized one, was decided final on answers that were given.
\<close>

subsection \<open>What services may give\<close>

definition may_answer :: "('w \<Rightarrow> 'a res \<times> 'w) \<Rightarrow> 'a \<Rightarrow> bool" where
  "may_answer f a = (\<exists>w. fst (f w) = Inr a)"

definition given_block :: "'w clients \<Rightarrow> u64 \<Rightarrow> eth_block \<Rightarrow> bool" where
  "given_block C h blk = may_answer (ethBlockByNumber C (sint h)) blk"

text \<open>The blocks Babylon is asked about: those the chain gives, with the trimmed hash.\<close>

definition asked_block :: "'w clients \<Rightarrow> l2block \<Rightarrow> bool" where
  "asked_block C b = (\<exists>h blk. given_block C h blk \<and> b = trim_hash (block_of blk))"

definition given_keys :: "'w clients \<Rightarrow> string list \<Rightarrow> bool" where
  "given_keys C pks = (\<exists>consumerId. may_answer (cwQueryConsumerId C) consumerId \<and>
     may_answer (bbnQueryAllFpBtcPubKeys C consumerId) pks)"

definition given_btc_height :: "'w clients \<Rightarrow> string \<Rightarrow> u32 \<Rightarrow> bool" where
  "given_btc_height C hash n = (\<exists>b. asked_block C b \<and> BlockHash b = hash \<and>
     may_answer (btcGetBlockHeightByTimestamp C (BlockTimestamp b)) n)"

definition given_powers :: "'w clients \<Rightarrow> u32 \<Rightarrow> powers \<Rightarrow> bool" where
  "given_powers C n powers = (\<exists>pks. given_keys C pks \<and> may_answer (bbnQueryMultiFpPower C pks n) powers)"

definition given_votes :: "'w clients \<Rightarrow> string \<Rightarrow> string list option \<Rightarrow> bool" where
  "given_votes C hash votes = (\<exists>b. asked_block C b \<and> BlockHash b = hash \<and>
     may_answer (cwQueryListOfVotedFinalityProviders C b) votes)"

text \<open>
  A block hash is decided final: there is no power behind the chain at a Bitcoin height given for it, or votes given
  for it carry two thirds of that power. A height is justified when the chain gave a block for it that is.
\<close>

definition decided_final :: "'w clients \<Rightarrow> string \<Rightarrow> bool" where
  "decided_final C hash = (\<exists>n powers. given_btc_height C hash n \<and> given_powers C n powers \<and>
     (total_power powers = 0 \<or>
      (\<exists>pks. given_votes C hash (Some pks) \<and> quorum_reached (voted_power powers pks) (total_power powers))))"

definition justified :: "'w clients \<Rightarrow> u64 \<Rightarrow> bool" where
  "justified C h = (\<exists>blk. given_block C h blk \<and> decided_final C (BlockHash (trim_hash (block_of blk))))"

lemma decided_finalI:
  "given_btc_height C hash n \<Longrightarrow> given_powers C n m \<Longrightarrow>
   total_power m = 0 \<or> given_votes C hash (Some pks) \<and> quorum_reached (voted_power m pks) (total_power m) \<Longrightarrow>
   decided_final C hash"
  unfolding decided_final_def by blast

text \<open>At most 1, where the search starts, or at most a justified height.\<close>

definition covered :: "'w clients \<Rightarrow> u64 \<Rightarrow> bool" where
  "covered C v = (v \<le> 1 \<or> (\<exists>h. v \<le> h \<and> justified C h))"

lemma covered_mono: "covered C v \<Longrightarrow> u \<le> v \<Longrightarrow> covered C u"
  unfolding covered_def by (meson order_trans)

lemma justified_covered: "justified C h \<Longrightarrow> covered C h"
  by (auto simp: covered_def)

definition sourced :: "'w clients \<Rightarrow> provider \<Rightarrow> bool" where
  "sourced C p =
     (cache_ok (given_block C) (l2BlockCache p) \<and> cache_ok (given_btc_height C) (btcblockHeightCache p) \<and>
      cache_ok (given_votes C) (votedFpPksCache p) \<and> cache_ok (given_powers C) (multiFpPowerCache p) \<and>
      cache_ok (\<lambda>h _. justified C h) (finalizedCache p) \<and> (allFpsCache p = [] \<or> given_keys C (allFpsCache p)) \<and>
      small (lastFinalizedHeight p) \<and> covered C (lastFinalizedHeight p))"

lemma sourced_new: "sourced C newProvider"
  by (simp add: sourced_def newProvider_def small_def covered_def)

lemma sourced_set_last: "sourced C p \<Longrightarrow> small h \<Longrightarrow> covered C h \<Longrightarrow> sourced C (set_last h p)"
  by (simp add: sourced_def set_last_def)

subsection \<open>The queries\<close>

text \<open>\<open>honest C Q p\<close>: \<open>p\<close> keeps the provider sourced and what it returns satisfies \<open>Q\<close>.\<close>

definition honest :: "'w clients \<Rightarrow> ('a \<Rightarrow> bool) \<Rightarrow> ('w psys, 'a) prog \<Rightarrow> bool" where
  "honest C Q p = safe (\<lambda>s. sourced C (prov s)) (\<lambda>_ _. True) Q p"

definition on_ok :: "('a \<Rightarrow> bool) \<Rightarrow> 'a res \<Rightarrow> bool" where
  "on_ok P r = (\<forall>v. r = Inr v \<longrightarrow> P v)"

lemma on_ok_simps [simp]: "on_ok P (Inl e)" "on_ok P (Inr v) = P v"
  by (simp_all add: on_ok_def)

lemma honest_Ret: "Q a \<Longrightarrow> honest C Q (Ret a)"
  by (simp add: honest_def)

lemma honest_bindP: "honest C R p \<Longrightarrow> (\<And>a. R a \<Longrightarrow> honest C Q (k a)) \<Longrightarrow> honest C Q (bindP p k)"
  unfolding honest_def by (rule safe_bindP)

lemma honest_mono: "honest C Q p \<Longrightarrow> (\<And>a. Q a \<Longrightarrow> Q' a) \<Longrightarrow> honest C Q' p"
  unfolding honest_def by (rule safe_mono)

lemma honest_tryP: "honest C (on_ok R) p \<Longrightarrow> (\<And>v. R v \<Longrightarrow> honest C (on_ok Q) (k v)) \<Longrightarrow> honest C (on_ok Q) (tryP m p k)"
  unfolding honest_def by (rule safe_tryP, assumption) auto

lemma honest_tryP_raw:
  "honest C (on_ok R) p \<Longrightarrow> (\<And>v. R v \<Longrightarrow> honest C (on_ok Q) (k v)) \<Longrightarrow> honest C (on_ok Q) (tryP_raw p k)"
  unfolding honest_def by (rule safe_tryP_raw, assumption) auto

lemma honest_extP: "honest C (on_ok (may_answer f)) (extP f)"
  unfolding honest_def extP_def
  by (rule safe_actP) (auto simp: on_ok_def may_answer_def case_prod_beta)

lemma honest_ext_then: "(\<And>v. may_answer f v \<Longrightarrow> P v) \<Longrightarrow> honest C (on_ok P) (tryP m (extP f) (\<lambda>v. Ret (Inr v)))"
  by (rule honest_tryP [OF honest_extP]) (simp add: honest_Ret)

lemma honest_memoP:
  assumes "honest C (on_ok R) call"
    and "\<And>p. sourced C p \<Longrightarrow> look p \<noteq> None \<Longrightarrow> R (the (look p))"
    and "\<And>v p. sourced C p \<Longrightarrow> R v \<Longrightarrow> sourced C (f v p)"
  shows "honest C (on_ok R) (memoP (\<lambda>s. look (prov s)) (\<lambda>v. on_prov (f v)) call)"
  unfolding honest_def
  by (rule safe_memoP [OF _ assms(1) [unfolded honest_def]]) (use assms(2,3) in \<open>force+\<close>)

lemma honest_blockByNumber: "honest C (on_ok (given_block C h)) (blockByNumber C h)"
  unfolding blockByNumber_def
  by (rule honest_memoP [OF honest_ext_then]) (auto simp: given_block_def sourced_def cache_ok_put dest: cache_okD)

lemma honest_getBlockHeight:
  assumes "asked_block C b"
  shows "honest C (on_ok (given_btc_height C (BlockHash b))) (getBlockHeightByTimestamp C b)"
proof -
  have "given_btc_height C (BlockHash b) n" if "may_answer (btcGetBlockHeightByTimestamp C (BlockTimestamp b)) n" for n
    using assms that by (auto simp: given_btc_height_def)
  then show ?thesis
    unfolding getBlockHeightByTimestamp_def
    by (rule honest_memoP [OF honest_ext_then]) (auto simp: sourced_def cache_ok_put dest: cache_okD)
qed

lemma honest_queryMultiFpPower:
  assumes "given_keys C pks"
  shows "honest C (on_ok (given_powers C n)) (queryMultiFpPower C pks n)"
proof -
  have "given_powers C n m" if "may_answer (bbnQueryMultiFpPower C pks n) m" for m
    using assms that by (auto simp: given_powers_def)
  then show ?thesis
    unfolding queryMultiFpPower_def
    by (rule honest_memoP [OF honest_ext_then]) (auto simp: sourced_def cache_ok_put dest: cache_okD)
qed

lemma honest_queryListOfVoted:
  assumes "asked_block C b"
  shows "honest C (on_ok (given_votes C (BlockHash b))) (queryListOfVotedFinalityProviders C b)"
proof -
  have "honest C (on_ok (given_votes C (BlockHash b))) (extP (cwQueryListOfVotedFinalityProviders C b))"
    by (rule honest_mono [OF honest_extP]) (use assms in \<open>auto simp: on_ok_def given_votes_def\<close>)
  then show ?thesis
    unfolding queryListOfVotedFinalityProviders_def
    by (rule honest_memoP) (auto simp: sourced_def cache_ok_put dest: cache_okD)
qed

lemma honest_QueryEarliest: "honest C (\<lambda>_. True) (QueryEarliestActiveDelBtcHeight C pks)"
proof -
  have "honest C (on_ok (\<lambda>_. True)) (QueryEarliestActiveDelBtcHeight C pks)"
    unfolding QueryEarliestActiveDelBtcHeight_def
    by (rule honest_memoP [OF honest_ext_then]) (auto simp: sourced_def)
  then show ?thesis by (rule honest_mono) simp
qed

lemma honest_queryAllFps: "honest C (on_ok (given_keys C)) (queryAllFpBtcPubKeys C)"
proof -
  have look: "honest C (\<lambda>c. \<forall>pks. c = Some pks \<longrightarrow> given_keys C pks) (actP (fps_lookup C))"
    unfolding honest_def
    by (rule safe_actP) (auto simp: fps_lookup_def sourced_def split: prod.splits)
  have store: "honest C (\<lambda>_. True) (actP (fps_store C pks))" if "given_keys C pks" for pks
    unfolding honest_def
    by (rule safe_actP) (use that in \<open>auto simp: fps_store_def sourced_def split: prod.splits\<close>)
  have ask: "honest C (on_ok (given_keys C)) (tryP_raw (extP (cwQueryConsumerId C)) (\<lambda>consumerId.
      tryP_raw (extP (bbnQueryAllFpBtcPubKeys C consumerId)) (\<lambda>pks. bindP (actP (fps_store C pks)) (\<lambda>_. Ret (Inr pks)))))"
    by (intro honest_tryP_raw [OF honest_extP] honest_bindP [OF store] honest_Ret) (auto simp: given_keys_def)
  show ?thesis
    unfolding queryAllFpBtcPubKeys_def
    by (rule honest_bindP [OF look]) (auto intro: ask honest_Ret split: option.split)
qed

lemma honest_queryAllPkPower:
  assumes "asked_block C b"
  shows "honest C (on_ok (\<lambda>m. \<exists>n. given_btc_height C (BlockHash b) n \<and> given_powers C n m)) (queryAllPkPower C b)"
  unfolding queryAllPkPower_def
  by (intro honest_tryP [OF honest_queryAllFps] honest_tryP [OF honest_getBlockHeight [OF assms]]
      honest_tryP [OF honest_queryMultiFpPower] honest_Ret) auto

lemma honest_decide_block:
  assumes "asked_block C b"
  shows "honest C (on_ok (\<lambda>final. final \<longrightarrow> decided_final C (BlockHash b))) (decide_block C b)"
  unfolding decide_block_def
proof (rule honest_tryP [OF honest_queryAllPkPower [OF assms]])
  fix m
  assume m: "\<exists>n. given_btc_height C (BlockHash b) n \<and> given_powers C n m"
  have votes: "honest C (on_ok (\<lambda>final. final \<longrightarrow> decided_final C (BlockHash b)))
      (tryP ''QueryListOfVotedFinalityProviders'' (queryListOfVotedFinalityProviders C b) (\<lambda>votedFpPks.
         case votedFpPks of None \<Rightarrow> Ret (Inr False)
         | Some pks \<Rightarrow> Ret (Inr (quorum_reached (voted_power m pks) (total_power m)))))"
    by (rule honest_tryP [OF honest_queryListOfVoted [OF assms]])
      (use m in \<open>auto intro!: honest_Ret intro: decided_finalI split: option.split\<close>)
  show "honest C (on_ok (\<lambda>final. final \<longrightarrow> decided_final C (BlockHash b)))
      (if total_power m = 0 then Ret (Inr True)
       else tryP ''QueryListOfVotedFinalityProviders'' (queryListOfVotedFinalityProviders C b) (\<lambda>votedFpPks.
         case votedFpPks of None \<Rightarrow> Ret (Inr False)
         | Some pks \<Rightarrow> Ret (Inr (quorum_reached (voted_power m pks) (total_power m)))))"
    using votes m by (auto intro!: honest_Ret intro: decided_finalI)
qed

lemma honest_byNumber: "honest C (on_ok (\<lambda>final. final \<longrightarrow> justified C h)) (queryFinalizedBlockInBabylonByNumber C h)"
proof -
  have look: "honest C (\<lambda>useCache. useCache \<longrightarrow> justified C h) (readP (\<lambda>s. gm_get (finalizedCache (prov s)) h \<noteq> None))"
    unfolding honest_def by (rule safe_readP) (auto simp: sourced_def dest: cache_okD)
  have store: "honest C (\<lambda>_. True) (modifyP (on_prov (\<lambda>p. p\<lparr>finalizedCache := cache_put (finalizedCache p) h True\<rparr>)))"
    if "justified C h"
    unfolding honest_def by (rule safe_modifyP) (use that in \<open>auto simp: sourced_def cache_ok_put\<close>)
  have decide: "honest C (on_ok (\<lambda>final. final \<longrightarrow> justified C h))
      (bindP (QueryIsBlockBabylonFinalizedFromBabylon C (Some (block_of blk))) (\<lambda>rb. Ret (fst rb)))"
    if blk: "given_block C h blk" for blk
  proof -
    have "honest C (on_ok (\<lambda>final. final \<longrightarrow> decided_final C (BlockHash (trim_hash (block_of blk)))))
        (decide_block C (trim_hash (block_of blk)))"
      by (rule honest_decide_block) (use blk in \<open>auto simp: asked_block_def\<close>)
    then have "honest C (on_ok (\<lambda>final. final \<longrightarrow> justified C h)) (decide_block C (trim_hash (block_of blk)))"
      by (rule honest_mono) (use blk in \<open>auto simp: on_ok_def justified_def\<close>)
    then show ?thesis
      by (simp add: QueryIsBlockBabylonFinalizedFromBabylon_def bindP_assoc)
  qed
  have finish: "honest C (on_ok (\<lambda>final. final \<longrightarrow> justified C h)) (if f then
      bindP (modifyP (on_prov (\<lambda>p. p\<lparr>finalizedCache := cache_put (finalizedCache p) h True\<rparr>))) (\<lambda>_. Ret (Inr True))
      else Ret (Inr False))" if "f \<longrightarrow> justified C h" for f
    using that by (auto intro!: honest_bindP [OF store] honest_Ret)
  show ?thesis
    unfolding queryFinalizedBlockInBabylonByNumber_def
    by (rule honest_bindP [OF look])
      (auto intro!: honest_Ret honest_tryP [OF honest_blockByNumber] honest_tryP [OF decide] finish)
qed

subsection \<open>The search\<close>

definition head_ok :: "'w clients \<Rightarrow> u64 res option \<Rightarrow> bool" where
  "head_ok C r = (\<forall>v. r = Some (Inr v) \<longrightarrow> small v \<and> covered C v)"

lemma head_ok_simps [simp]: "head_ok C None" "head_ok C (Some (Inl e))" "head_ok C (Some (Inr v)) = (small v \<and> covered C v)"
  by (auto simp: head_ok_def)

lemma honest_SetLast: "small h \<Longrightarrow> covered C h \<Longrightarrow> honest C (\<lambda>_. True) (SetLastFinalized h)"
  unfolding honest_def SetLastFinalized_def by (rule safe_modifyP) (auto intro: sourced_set_last)

lemma honest_GetLast: "honest C (\<lambda>v. small v \<and> covered C v) GetLastFinalized"
  unfolding honest_def GetLastFinalized_def by (rule safe_readP) (simp add: sourced_def)

lemma honest_from_to:
  "small a \<Longrightarrow> small b \<Longrightarrow> covered C a \<Longrightarrow>
   honest C (head_ok C) (from_to (queryFinalizedBlockInBabylonByNumber C) SetLastFinalized fuel a b)"
proof (induction fuel arbitrary: a b)
  case 0
  show ?case by (simp add: from_to.simps honest_Ret)
next
  case (Suc fuel)
  define lo hi where ends: "lo = (if a > b then b else a)" "hi = (if a > b then a else b)"
  let ?check = "(lo + hi + 1) div 2"
  have lo: "small lo" "small hi" "covered C lo" "lo \<le> hi"
    using Suc.prems by (auto simp: ends not_less intro: covered_mono [OF Suc.prems(3)])
  have eq: "covered C hi" if "lo = hi" using that lo(3) by simp
  have search: "honest C (head_ok C) (bindP (queryFinalizedBlockInBabylonByNumber C ?check) (\<lambda>r. case r of
          Inl e \<Rightarrow> Ret (Some (Inl (EWrap (query_failed ?check) e)))
        | Inr isFinalized \<Rightarrow>
            if isFinalized then bindP (SetLastFinalized (?check - 1))
              (\<lambda>_. from_to (queryFinalizedBlockInBabylonByNumber C) SetLastFinalized fuel ?check hi)
            else from_to (queryFinalizedBlockInBabylonByNumber C) SetLastFinalized fuel lo ?check))"
    if gap: "lo \<noteq> hi" "lo + 1 \<noteq> hi"
  proof -
    have "lo < hi" using gap(1) lo(4) by simp
    note mid = mid_between [OF small_no_wrap [OF lo(1,2)] succ_neq_imp_gap [OF this gap(2)]]
    have check: "small ?check" using small_mono [OF lo(2) less_imp_le [OF mid(2)]] .
    have below: "?check - 1 \<le> ?check"
      using mid(1) by (intro less_imp_le pred_lt) (metis word_gt_0 word_not_simps(1))
    have up: "honest C (head_ok C) (bindP (SetLastFinalized (?check - 1))
        (\<lambda>_. from_to (queryFinalizedBlockInBabylonByNumber C) SetLastFinalized fuel ?check hi))" if "justified C ?check"
      using justified_covered [OF that] below
      by (intro honest_bindP [OF honest_SetLast] Suc.IH check lo(2)) (auto intro: small_mono [OF check] covered_mono)
    show ?thesis
      by (rule honest_bindP [OF honest_byNumber])
        (auto intro!: honest_Ret up Suc.IH lo check simp: on_ok_def split: sum.split)
  qed
  show ?case
    using lo eq search unfolding from_to.simps Let_def ends [symmetric] by (auto intro!: honest_Ret)
qed

text \<open>What a search goes on from: a height that is small and covered.\<close>

definition start_from :: "'w clients \<Rightarrow> u64 \<Rightarrow> bool" where
  "start_from C v = (small v \<and> covered C v)"

lemma start_fromD: "start_from C v \<Longrightarrow> small v" "start_from C v \<Longrightarrow> covered C v"
  by (simp_all add: start_from_def)

lemma start_from_one: "start_from C 1"
  by (simp add: start_from_def small_def covered_def)

lemma honest_tryO: "honest C (on_ok R) p \<Longrightarrow> (\<And>v. R v \<Longrightarrow> honest C (head_ok C) (k v)) \<Longrightarrow> honest C (head_ok C) (tryO p k)"
  unfolding tryO_def by (rule honest_bindP, assumption) (auto intro!: honest_Ret split: sum.split)

lemma honest_step_query:
  "(\<And>final. final \<longrightarrow> justified C n \<Longrightarrow> honest C (on_ok Q) (k final)) \<Longrightarrow> honest C (on_ok Q) (step_query C n k)"
  unfolding step_query_def by (rule honest_tryP [OF honest_byNumber])

lemma honest_better_start:
  "start_from C v \<Longrightarrow> small n \<Longrightarrow>
   honest C (on_ok (start_from C)) (step_query C n (\<lambda>final. Ret (Inr (if final then n else v))))"
  by (rule honest_step_query) (auto intro!: honest_Ret simp: start_from_def justified_covered)

lemma honest_try_newest:
  assumes "small cur"
  shows "honest C (\<lambda>newest. newest \<longrightarrow> start_from C (cur - 1)) (try_newest C cur)"
proof -
  have "small (cur - 1)" if "1 < cur"
    using that by (intro small_mono [OF assms less_imp_le] pred_lt) (metis word_gt_0 word_not_simps(1))
  then show ?thesis
    unfolding try_newest_def
    by (auto intro!: honest_bindP [OF honest_byNumber] honest_Ret simp: start_from_def justified_covered)
qed

lemma honest_try_recent: "small cur \<Longrightarrow> start_from C v \<Longrightarrow> honest C (on_ok (start_from C)) (try_recent C cur v)"
  unfolding try_recent_def Let_def
  by (auto intro!: honest_Ret honest_better_start intro: small_mono [of cur] word_sub_le less_imp_le)

lemma honest_try_next: "small cur \<Longrightarrow> start_from C v \<Longrightarrow> honest C (on_ok (start_from C)) (try_next C cur v)"
  unfolding try_next_def Let_def
  by (auto intro!: honest_Ret honest_better_start intro: small_mono [of cur] less_imp_le)

lemma honest_search_and_set:
  assumes "small cur" "start_from C v"
  shows "honest C (head_ok C) (search_and_set fuel C v cur)"
proof -
  have search: "honest C (head_ok C) (queryFinalizedBlockInBabylonFromTo fuel C v cur)"
    unfolding queryFinalizedBlockInBabylonFromTo_def using assms by (intro honest_from_to) (auto dest: start_fromD)
  show ?thesis
    unfolding search_and_set_def
    by (rule honest_bindP [OF search])
      (auto intro!: honest_Ret honest_bindP [OF honest_SetLast] split: option.split sum.split)
qed

lemma honest_search_from:
  assumes "small cur" "start_from C v"
  shows "honest C (head_ok C) (search_from fuel C cur v)"
proof -
  have head: "honest C (head_ok C) (tryO (step_query C cur (\<lambda>f. Ret (Inr f))) (\<lambda>f. Ret (Some (Inr (if f then cur else u)))))"
    if "start_from C u" for u
    by (rule honest_tryO [OF honest_step_query [where Q = "\<lambda>f. f \<longrightarrow> justified C cur"]])
      (use that assms(1) in \<open>auto intro!: honest_Ret simp: start_from_def justified_covered\<close>)
  have older: "honest C (head_ok C) (tryO (try_recent C cur v) (\<lambda>from1.
       if from1 + 1 = cur then
         tryO (step_query C cur (\<lambda>f. Ret (Inr f))) (\<lambda>f. Ret (Some (Inr (if f then cur else from1))))
       else tryO (try_next C cur from1) (\<lambda>from2. search_and_set fuel C from2 cur)))"
  proof (rule honest_tryO [OF honest_try_recent [OF assms]])
    fix u
    assume "start_from C u"
    from head [OF this] honest_tryO [OF honest_try_next [OF assms(1) this] honest_search_and_set [OF assms(1)]]
    show "honest C (head_ok C) (if u + 1 = cur then
         tryO (step_query C cur (\<lambda>f. Ret (Inr f))) (\<lambda>f. Ret (Some (Inr (if f then cur else u))))
       else tryO (try_next C cur u) (\<lambda>from2. search_and_set fuel C from2 cur))"
      by (simp only: if_split) blast
  qed
  show ?thesis
    unfolding search_from_def
    by (rule honest_bindP [OF honest_try_newest [OF assms(1)]])
      (use older in \<open>auto intro!: honest_Ret simp: start_from_def\<close>)
qed

lemma honest_head:
  assumes "\<And>n. may_answer (ethBlockNumber C) n \<Longrightarrow> small n"
  shows "honest C (head_ok C) (QueryFinalizedBlockInBabylon fuel C)"
proof -
  have go: "honest C (head_ok C) (bindP GetLastFinalized (\<lambda>lastFinalized.
       let fromBlockHeight = (if lastFinalized = 0 then 1 else lastFinalized) in
       if cur = fromBlockHeight then Ret (Some (Inr cur))
       else search_from fuel C cur fromBlockHeight))" if "small cur" for cur
    unfolding Let_def
    by (rule honest_bindP [OF honest_GetLast])
      (use that start_from_one [of C] in \<open>auto intro!: honest_Ret honest_search_from simp: start_from_def\<close>)
  show ?thesis
    unfolding QueryFinalizedBlockInBabylon_def
    by (rule honest_tryO [OF honest_ext_then [where P = small]]) (use assms go in auto)
qed

subsection \<open>Properties\<close>

text \<open>
  The operations the program itself runs; \<open>QueryIsBlockBabylonFinalizedFromBabylon\<close> and
  \<open>SetLastFinalized\<close> on arguments of a caller are not among them.
\<close>

definition own_request :: "request \<Rightarrow> bool" where
  "own_request q = (case q of ReqHead \<Rightarrow> True | ReqEarliest _ \<Rightarrow> True | ReqGetLast \<Rightarrow> True | _ \<Rightarrow> False)"

definition reply_covered :: "'w clients \<Rightarrow> reply \<Rightarrow> bool" where
  "reply_covered C r = (case r of RepHead h \<Rightarrow> head_ok C h | RepLast v \<Rightarrow> covered C v | _ \<Rightarrow> True)"

lemma honest_serve:
  assumes "\<And>n. may_answer (ethBlockNumber C) n \<Longrightarrow> small n" "own_request q"
  shows "honest C (reply_covered C) (serve fuel C q)"
  using assms(2)
  by (cases q) (auto simp: own_request_def reply_covered_def intro!: honest_Ret
      honest_bindP [OF honest_head [OF assms(1)]] honest_bindP [OF honest_QueryEarliest] honest_bindP [OF honest_GetLast])

lemma honest_pool:
  assumes "\<forall>p \<in> set ps. honest C Q p" "sourced C (prov s)" "pool_steps (s, ps) (t, qs)"
  shows "sourced C (prov t) \<and> (\<forall>r. Ret r \<in> set qs \<longrightarrow> Q r)"
proof -
  have "pool_safe (\<lambda>s. sourced C (prov s)) (\<lambda>_ _. True) Q (s, ps)"
    using assms(1,2) by (simp add: pool_safe_def honest_def)
  from pool_steps_safe [OF assms(3) this] show ?thesis
    by (auto simp: reflp_def transp_def dest: pool_safe_returned) (simp add: pool_safe_def)
qed

text \<open>
  (C2) No finality out of nothing, with nothing assumed of the services but heads below \<open>2 ^ 63\<close>: they may change
  their answers, contradict each other and fail at any time, and requests interleave in any way. Every height a
  head request returns, and the last finalized height at all times, is at most 1 or at most a height whose block,
  as the chain gave it, was decided final on the votes and powers that the contract and Babylon gave for it; and
  every cached value was given by a service.
\<close>

theorem no_unjustified_finality:
  assumes "\<And>n. may_answer (ethBlockNumber C) n \<Longrightarrow> small n" "sourced C (prov s)" "\<forall>q \<in> set reqs. own_request q"
    and "pool_steps (s, map (serve fuel C) reqs) (t, qs)"
  shows "sourced C (prov t) \<and> covered C (lastFinalizedHeight (prov t)) \<and>
    (\<forall>v. Ret (RepHead (Some (Inr v))) \<in> set qs \<longrightarrow> covered C v)"
proof -
  have "\<forall>p \<in> set (map (serve fuel C) reqs). honest C (reply_covered C) p"
    using honest_serve [OF assms(1)] assms(3) by auto
  from honest_pool [OF this assms(2,4)] show ?thesis
    by (auto simp: sourced_def reply_covered_def)
qed

lemma demo_head_small: "may_answer (ethBlockNumber (demo_clients votes 5)) n \<Longrightarrow> small n"
  by (auto simp: may_answer_def demo_clients_def small_def)

theorem no_unjustified_finality_witness:
  "covered (demo_clients (votes_upto 3) 5)
     (lastFinalizedHeight (prov (snd (run (serve search_fuel (demo_clients (votes_upto 3) 5) ReqHead) demo_start))))"
proof -
  let ?C = "demo_clients (votes_upto 3) 5" and ?p = "serve search_fuel (demo_clients (votes_upto 3) 5) ReqHead"
  have "pool_steps (demo_start, map (serve search_fuel ?C) [ReqHead]) (snd (run ?p demo_start), [Ret (fst (run ?p demo_start))])"
    using run_is_schedule [of demo_start ?p] by simp
  from no_unjustified_finality [OF demo_head_small _ _ this] show ?thesis
    by (simp add: own_request_def demo_start_def sourced_new)
qed

end
