(* ===== verification/RpcProvenance.thy ===== *)
theory RpcProvenance
  imports RpcServer ProviderProvenance
begin

text \<open>
  What a client of the RPC endpoint may rely on with nothing assumed of the services: the second interpretation of
  the contract \<open>rpc_replies\<close>, with the provenance of the provider's state as what the handler keeps.
\<close>

definition reply_sourced :: "('w, 'q, 'r, 'j) rpc_config \<Rightarrow> 'q \<Rightarrow> ('r, 'j) rpc_reply \<Rightarrow> bool" where
  "reply_sourced K q a = (case rhRoute (rcHttp K) (rcCors K) (rcVhosts K) q of
      Inl r \<Rightarrow> a = Refused r
    | Inr (GetBlock number fullTx) \<Rightarrow> (\<exists>x. a = Answered x \<and> (\<forall>j. x = Some (Inr j) \<longrightarrow>
        (\<exists>v. (number \<noteq> FinalizedBlockNumber (rcCalls K) \<longrightarrow> v = number) \<and>
           (number = FinalizedBlockNumber (rcCalls K) \<longrightarrow> covered (rcClients K) v) \<and>
           may_answer (callContext (rcCalls K) ''eth_getBlockByNumber'' (blockNumberString (rcCalls K) v) fullTx) j))))"

definition small_heads :: "'w clients \<Rightarrow> bool" where
  "small_heads C = (\<forall>n. may_answer (ethBlockNumber C) n \<longrightarrow> small n)"

lemma honest_call_block:
  "honest C (on_ok (may_answer (callContext R ''eth_getBlockByNumber'' (blockNumberString R v) f))) (call_block R v f)"
  unfolding call_block_def by (rule honest_extP)

lemma honest_GetBlockByNumber:
  assumes "small_heads C"
  shows "honest C (\<lambda>x. \<forall>j. x = Some (Inr j) \<longrightarrow> (\<exists>v. (number \<noteq> FinalizedBlockNumber R \<longrightarrow> v = number) \<and>
      (number = FinalizedBlockNumber R \<longrightarrow> covered C v) \<and>
      may_answer (callContext R ''eth_getBlockByNumber'' (blockNumberString R v) f) j))
    (GetBlockByNumber fuel C R number f)"
proof -
  have head: "honest C (head_ok C) (QueryFinalizedBlockInBabylon fuel C)"
    by (rule honest_head) (use assms in \<open>simp add: small_heads_def\<close>)
  show ?thesis
    unfolding GetBlockByNumber_def
    by (auto intro!: honest_bindP [OF honest_call_block] honest_bindP [OF head] honest_Ret simp: on_ok_def
        split: option.split sum.split) blast
qed

lemma honest_route:
  assumes "small_heads (rcClients K)"
  shows "honest (rcClients K) (reply_sourced K q) (route K q)"
proof (cases "rhRoute (rcHttp K) (rcCors K) (rcVhosts K) q")
  case (Inl r)
  then show ?thesis by (simp add: route_def reply_sourced_def honest_Ret)
next
  case (Inr req)
  obtain number f where "req = GetBlock number f" by (cases req)
  with Inr show ?thesis
    by (auto simp: route_def serve_rpc_def reply_sourced_def
        intro!: honest_bindP [OF honest_GetBlockByNumber [OF assms]] honest_Ret)
qed

lemma honest_handler_init: "small_heads C \<Longrightarrow> honest C (\<lambda>_. True) (handler_init fuel C)"
  unfolding handler_init_def
  by (rule honest_bindP [OF honest_head]) (auto simp: small_heads_def intro: honest_Ret)

lemma init_server_sourced:
  assumes "small_heads (rcClients K)" "sourced (rcClients K) (prov (lhNext (rsSys s)))"
  shows "sourced (rcClients K) (prov (lhNext (rsSys (init_server K s))))"
  using safe_run [OF honest_handler_init [OF assms(1), unfolded honest_def] assms(2)] by (simp add: init_server_def)

lemma open_server_prov: "prov (lhNext (rsSys (open_server K s))) = prov (lhNext (rsSys s))"
  by (simp add: open_server_def split: option.splits sum.splits prod.splits)

interpretation any_services: rpc_replies K "\<lambda>s. sourced (rcClients K) (prov s)" "\<lambda>_ _. True" "reply_sourced K" "small_heads (rcClients K)"
proof
  show "small_heads (rcClients K) \<Longrightarrow> safe (\<lambda>s. sourced (rcClients K) (prov s)) (\<lambda>_ _. True) (reply_sourced K q) (route K q)" for q
    using honest_route [of K q] by (simp add: honest_def)
qed (simp_all add: init_server_sourced open_server_prov reflp_def)

text \<open>
  (C3) The block served for the tag \<open>finalized\<close>, end to end and with nothing assumed of the services but heads below
  \<open>2 ^ 63\<close>: from the start of a new server to its end, in every interleaving of its requests, whatever the Bitcoin
  node, Babylon, the contract and the rollup answer and however they change their answers, a block in a reply is one
  the rollup gave for a height that is at most 1 or at most a height whose block was decided final on votes and
  powers that were given. A reply for a plain number is a block the rollup gave for that number.
\<close>

theorem served_finality_justified:
  assumes "small_heads (rcClients K)" "sourced (rcClients K) (prov s)" "(rpc_step K)\<^sup>*\<^sup>* (new_rpc_server s) t"
    and "Replied q (n, a) \<in> set (hsConns (rsHttp t))"
  shows "reply_sourced K q a"
  using any_services.replies_run [OF assms(1-3)] assms(4) by (rule replies_okD)

theorem served_finality_justified_witness:
  "\<exists>(t :: (int, rpc_request, unit, string) rpc_server) n a.
     Replied (GetBlock (- 3) True) (n, a) \<in> set (hsConns (rsHttp t)) \<and> reply_sourced demo_rpc_config (GetBlock (- 3) True) a"
proof -
  obtain t n a where t: "(rpc_step demo_rpc_config)\<^sup>*\<^sup>* (new_rpc_server demo_start) t"
      "Replied (GetBlock (- 3) True) (n, a) \<in> set (hsConns (rsHttp t))"
    using demo_request_reach by force
  have "small_heads (rcClients demo_rpc_config)"
    using demo_head_small by (simp add: small_heads_def demo_rpc_config_def)
  moreover have "sourced (rcClients demo_rpc_config) (prov demo_start)" by (simp add: demo_start_def sourced_new)
  ultimately show ?thesis using served_finality_justified [OF _ _ t] t(2) by blast
qed

end
