(* ===== verification/RelyGuarantee.thy ===== *)
theory RelyGuarantee
  imports Resumption
begin

text \<open>
  Goroutines that know something the others leave alone. \<open>rg R G p P Q\<close>: started in a state where \<open>P\<close>
  holds, with steps of others related by \<open>R\<close> in between, every section of \<open>p\<close> is related by \<open>G\<close>, and
  when it returns \<open>Q\<close> holds of its value and the state. The logic \<open>safe\<close> is the case in which a goroutine
  only knows the invariant.
\<close>

primrec rg :: "('s \<Rightarrow> 's \<Rightarrow> bool) \<Rightarrow> ('s \<Rightarrow> 's \<Rightarrow> bool) \<Rightarrow> ('s, 'a) prog \<Rightarrow> ('s \<Rightarrow> bool) \<Rightarrow> ('a \<Rightarrow> 's \<Rightarrow> bool) \<Rightarrow> bool" where
  "rg R G (Ret a) = (\<lambda>P Q. \<forall>s. P s \<longrightarrow> Q a s)"
| "rg R G (Act u c) = (\<lambda>P Q. \<forall>s. P s \<longrightarrow> G s (u s) \<and> rg R G (c s) (R (u s)) Q)"

definition stable :: "('s \<Rightarrow> 's \<Rightarrow> bool) \<Rightarrow> ('s \<Rightarrow> bool) \<Rightarrow> bool" where
  "stable R P = (\<forall>s t. R s t \<longrightarrow> P s \<longrightarrow> P t)"

lemma stableD: "stable R P \<Longrightarrow> R s t \<Longrightarrow> P s \<Longrightarrow> P t"
  by (auto simp: stable_def)

lemma rg_mono: "rg R G p P Q \<Longrightarrow> (\<And>s. P' s \<Longrightarrow> P s) \<Longrightarrow> (\<And>a s. Q a s \<Longrightarrow> Q' a s) \<Longrightarrow> rg R G p P' Q'"
proof (induction p arbitrary: P P')
  case (Act u c)
  show ?case
  proof (simp, intro allI impI conjI)
    fix s
    assume "P' s"
    with Act.prems show "G s (u s)" by simp
    from \<open>P' s\<close> Act.prems have "rg R G (c s) (R (u s)) Q" by simp
    then show "rg R G (c s) (R (u s)) Q'" by (rule Act.IH [OF rangeI]) (use Act.prems(3) in auto)
  qed
qed auto

lemma rg_pre: "rg R G p P Q \<Longrightarrow> (\<And>s. P' s \<Longrightarrow> P s) \<Longrightarrow> rg R G p P' Q"
  by (erule rg_mono)

lemma rg_bindP:
  "rg R G p P S \<Longrightarrow> (\<And>a. rg R G (k a) (S a) Q) \<Longrightarrow> rg R G (bindP p k) P Q"
proof (induction p arbitrary: P)
  case (Ret a)
  have "rg R G (k a) P Q" by (rule rg_pre [OF Ret(2) [of a]]) (use Ret(1) in simp)
  then show ?case by simp
qed auto

text \<open>A section, after which a stable fact is known that the continuation starts with.\<close>

lemma rg_Act:
  assumes "\<And>s. P s \<Longrightarrow> G s (u s) \<and> P' s (u s) \<and> stable R (P' s)" "\<And>s. P s \<Longrightarrow> rg R G (c s) (P' s) Q"
  shows "rg R G (Act u c) P Q"
proof (simp, intro allI impI conjI)
  fix s
  assume s: "P s"
  with assms(1) show "G s (u s)" by blast
  show "rg R G (c s) (R (u s)) Q"
    by (rule rg_pre [OF assms(2) [OF s]]) (use assms(1) [OF s] in \<open>blast dest: stableD\<close>)
qed

lemma rg_Ret: "(\<And>s. P s \<Longrightarrow> Q a s) \<Longrightarrow> rg R G (Ret a) P Q"
  by simp

lemma rg_vacuous: "(\<And>s. \<not> P s) \<Longrightarrow> rg R G p P Q"
  by (cases p) auto

lemma rg_readP:
  "(\<And>s. P s \<Longrightarrow> G s s \<and> Q (f s) s) \<Longrightarrow> (\<And>a. stable R (Q a)) \<Longrightarrow> rg R G (readP f) P Q"
  by (auto simp: readP_def dest: stableD)

lemma rg_actP:
  assumes "\<And>s. P s \<Longrightarrow> G s (snd (f s)) \<and> Q (fst (f s)) (snd (f s))" "\<And>a. stable R (Q a)"
  shows "rg R G (actP f) P Q"
  using assms by (auto simp: actP_def dest: stableD)

subsection \<open>One goroutine among others\<close>

text \<open>
  A pool of one goroutine that is \<open>rg\<close> and of others whose sections all keep to its rely.
\<close>

definition rg_pool :: "('s \<Rightarrow> 's \<Rightarrow> bool) \<Rightarrow> ('s \<Rightarrow> 's \<Rightarrow> bool) \<Rightarrow> ('a \<Rightarrow> 's \<Rightarrow> bool) \<Rightarrow> 's \<times> ('s, 'a) prog list \<Rightarrow> bool" where
  "rg_pool R G Q cfg = (\<exists>p qs P. snd cfg = p # qs \<and> P (fst cfg) \<and> stable R P \<and> rg R G p P Q \<and>
     (\<forall>q \<in> set qs. safe (\<lambda>_. True) R (\<lambda>_. True) q))"

lemma rg_pool_step:
  assumes "pool_step cfg cfg'" "rg_pool R G Q cfg" "\<And>s. R s s" "transp R"
  shows "rg_pool R G Q cfg' \<and> (G (fst cfg) (fst cfg') \<or> R (fst cfg) (fst cfg'))"
  using assms(1,2)
proof (induction rule: pool_step.induct)
  case (pool_act i ps u c s)
  then obtain p qs P where ps: "ps = p # qs" and P: "P s" "stable R P" "rg R G p P Q"
    and qs: "\<forall>q \<in> set qs. safe (\<lambda>_. True) R (\<lambda>_. True) q"
    by (auto simp: rg_pool_def)
  show ?case
  proof (cases i)
    case 0
    with pool_act ps have p: "p = Act u c" by simp
    have "stable R (R (u s))" using assms(4) by (auto simp: stable_def dest: transpD)
    moreover have "G s (u s)" "rg R G (c s) (R (u s)) Q" "R (u s) (u s)" using P p assms(3) by auto
    ultimately show ?thesis using 0 ps qs by (auto simp: rg_pool_def)
  next
    case (Suc j)
    with pool_act ps have j: "j < length qs" "qs ! j = Act u c" by auto
    then have "safe (\<lambda>_. True) R (\<lambda>_. True) (Act u c)" using qs by (metis nth_mem)
    then have r: "R s (u s)" "safe (\<lambda>_. True) R (\<lambda>_. True) (c s)" by auto
    then have "\<forall>q \<in> set (qs[j := c s]). safe (\<lambda>_. True) R (\<lambda>_. True) q"
      using qs by (auto dest!: set_update_subset_insert [THEN subsetD])
    moreover have "P (u s)" using P r(1) by (auto dest: stableD)
    ultimately show ?thesis using Suc ps P r(1) by (auto simp: rg_pool_def)
  qed
qed

text \<open>What both kinds of steps keep holds throughout, and the goroutine's postcondition when it has returned.\<close>

lemma rg_pool_steps:
  assumes "pool_steps cfg cfg'" "rg_pool R G Q cfg" "\<And>s. R s s" "transp R"
    and "J (fst cfg)" "\<And>s t. G s t \<or> R s t \<Longrightarrow> J s \<Longrightarrow> J t"
  shows "rg_pool R G Q cfg' \<and> J (fst cfg')"
  using assms(1,2,5)
proof (induction rule: pool_steps.induct)
  case (pool_trans cfg cfg' cfg'')
  then have "rg_pool R G Q cfg'" "J (fst cfg')" by auto
  with rg_pool_step [OF pool_trans(2) _ assms(3,4)] assms(6) show ?case by blast
qed simp

text \<open>One of the schedules lets a goroutine run until it returns.\<close>

lemma run_in_pool:
  "i < length ps \<Longrightarrow> ps ! i = p \<Longrightarrow> pool_steps (s, ps) (snd (run p s), ps[i := Ret (fst (run p s))])"
proof (induction p arbitrary: s ps)
  case (Ret a)
  then have "ps[i := Ret a] = ps" by (simp flip: Ret(2))
  then show ?case by (simp add: pool_refl)
next
  case (Act u c)
  have "pool_steps (s, ps) (u s, ps[i := c s])"
    by (rule pool_trans [OF pool_refl]) (rule pool_act, use Act.prems in auto)
  moreover have "pool_steps (u s, ps[i := c s]) (snd (run (c s) (u s)), (ps[i := c s])[i := Ret (fst (run (c s) (u s)))])"
    by (rule Act.IH) (use Act.prems in auto)
  ultimately show ?case using pool_steps_append by fastforce
qed

lemma rg_pool_returned: "rg_pool R G Q (s, Ret a # qs) \<Longrightarrow> Q a s"
  by (auto simp: rg_pool_def)

subsection \<open>A pool of goroutines that keep to each other's rely\<close>

text \<open>
  Each goroutine of the pool knows something the others leave alone, and its sections are among those the
  others rely on.
\<close>

definition rg_each :: "('s \<Rightarrow> 's \<Rightarrow> bool) \<Rightarrow> ('a \<Rightarrow> 's \<Rightarrow> bool) \<Rightarrow> 's \<times> ('s, 'a) prog list \<Rightarrow> bool" where
  "rg_each R Q cfg = (\<forall>p \<in> set (snd cfg). \<exists>P. P (fst cfg) \<and> stable R P \<and> rg R R p P Q)"

lemma rg_each_step:
  assumes "pool_step cfg cfg'" "rg_each R Q cfg" "\<And>s. R s s" "transp R"
  shows "rg_each R Q cfg' \<and> R (fst cfg) (fst cfg')"
  using assms(1,2)
proof (induction rule: pool_step.induct)
  case (pool_act i ps u c s)
  then have "Act u c \<in> set ps" by (metis nth_mem)
  with pool_act(3) obtain P where P: "P s" "rg R R (Act u c) P Q" by (auto simp: rg_each_def)
  then have u: "R s (u s)" "rg R R (c s) (R (u s)) Q" by auto
  have "\<exists>P. P (u s) \<and> stable R P \<and> rg R R p P Q" if "p \<in> set (ps[i := c s])" for p
  proof (cases "p = c s")
    case True
    have "stable R (R (u s))" using assms(4) by (auto simp: stable_def dest: transpD)
    with True u(2) assms(3) show ?thesis by blast
  next
    case False
    with that have "p \<in> set ps" by (auto dest: set_update_subset_insert [THEN subsetD])
    with pool_act(3) obtain P' where P': "P' s" "stable R P'" "rg R R p P' Q" by (auto simp: rg_each_def)
    from stableD [OF P'(2) u(1) P'(1)] P' show ?thesis by blast
  qed
  with u(1) show ?case by (simp add: rg_each_def)
qed

lemma rg_each_steps:
  assumes "pool_steps cfg cfg'" "rg_each R Q cfg" "\<And>s. R s s" "transp R"
  shows "rg_each R Q cfg' \<and> R (fst cfg) (fst cfg')"
  using assms(1,2)
proof (induction rule: pool_steps.induct)
  case (pool_trans cfg cfg' cfg'')
  then have "rg_each R Q cfg'" "R (fst cfg) (fst cfg')" by auto
  moreover from this(1) have "rg_each R Q cfg'' \<and> R (fst cfg') (fst cfg'')"
    by (rule rg_each_step [OF pool_trans(2) _ assms(3,4)])
  ultimately show ?case using transpD [OF assms(4)] by blast
qed (simp add: assms(3))

lemma rg_each_returned: "rg_each R Q (s, ps) \<Longrightarrow> Ret a \<in> set ps \<Longrightarrow> Q a s"
  by (fastforce simp: rg_each_def)

text \<open>A goroutine all of whose sections are among those others may do keeps every stable fact.\<close>

lemma rg_safe:
  "safe (\<lambda>_. True) G' (\<lambda>_. True) p \<Longrightarrow> (\<And>s t. G' s t \<Longrightarrow> G s t \<and> R s t) \<Longrightarrow> stable R P \<Longrightarrow> rg R G p P (\<lambda>_. P)"
proof (induction p)
  case (Act u c)
  show ?case
  proof (simp, intro allI impI conjI)
    fix s
    assume s: "P s"
    have g: "G' s (u s)" "safe (\<lambda>_. True) G' (\<lambda>_. True) (c s)" using Act.prems(1) by auto
    with Act.prems(2) have st: "G s (u s)" "R s (u s)" by blast+
    then show "G s (u s)" by simp
    have "P (u s)" using s st Act.prems(3) by (blast dest: stableD)
    show "rg R G (c s) (R (u s)) (\<lambda>_. P)"
      by (rule rg_pre [OF Act.IH [OF rangeI g(2) Act.prems(2,3)]])
        (use \<open>P (u s)\<close> Act.prems(3) in \<open>blast dest: stableD\<close>)+
  qed
qed simp

end
