(* ===== verification/HeadFloor.thy ===== *)
theory HeadFloor
  imports ProviderTheorems RelyGuarantee
begin

text \<open>
  What the recorded last finalized height promises, whatever the services answer about blocks, votes and
  powers: no head request made while the chain's heads are above it returns less, and what a search returns
  is recorded. The requests run beside any others; each only relies on the others never to lower the recorded
  height and never to record one beyond 63 bits.
\<close>

definition raises :: "'w psys \<Rightarrow> 'w psys \<Rightarrow> bool" where
  "raises s t = (lastFinalizedHeight (prov s) \<le> lastFinalizedHeight (prov t) \<and>
     (small (lastFinalizedHeight (prov s)) \<longrightarrow> small (lastFinalizedHeight (prov t))))"

definition at_least :: "u64 \<Rightarrow> 'w psys \<Rightarrow> bool" where
  "at_least m s = (m \<le> lastFinalizedHeight (prov s) \<and> small (lastFinalizedHeight (prov s)))"

lemma raises_refl: "raises s s" and raises_transp: "transp raises"
  by (auto simp: raises_def intro!: transpI)

lemma stable_above: "stable raises (at_least m)"
  by (auto simp: stable_def raises_def at_least_def)

lemma floor_small_pred: "small h \<Longrightarrow> 0 < h \<Longrightarrow> small (h - 1)"
  by (simp add: small_def unat_pred)

subsection \<open>The pieces of the search\<close>

text \<open>A query leaves the recorded height as it is.\<close>

lemma stored_anything: "stored_shape (\<lambda>_. True)"
  by unfold_locales auto

lemma rg_tame:
  assumes "tame (\<lambda>_. True) keeps_last p"
  shows "rg raises raises p (at_least m) (\<lambda>_. at_least m)"
  by (rule rg_safe [OF assms [unfolded tame_def] _ stable_above]) (simp_all add: keeps_last_def raises_def)

lemma rg_byNumber: "rg raises raises (queryFinalizedBlockInBabylonByNumber C h) (at_least m) (\<lambda>_. at_least m)"
  by (rule rg_tame) (rule stored_shape.tame_byNumber [OF stored_anything allows_frame_keeps_last])

lemma rg_set_last:
  assumes "small h"
  shows "rg raises raises (SetLastFinalized h) (at_least m) (\<lambda>_ s. at_least m s \<and> h \<le> lastFinalizedHeight (prov s))"
proof -
  have "stable raises (\<lambda>s. at_least m s \<and> h \<le> lastFinalizedHeight (prov s))"
    by (auto simp: stable_def raises_def at_least_def)
  moreover have "raises s (on_prov (set_last h) s) \<and> at_least m (on_prov (set_last h) s) \<and>
      h \<le> lastFinalizedHeight (prov (on_prov (set_last h) s))" if "at_least m s" for s :: "'a psys"
    using that assms by (auto simp: raises_def at_least_def set_last_def)
  ultimately show ?thesis
    unfolding SetLastFinalized_def modifyP_def
    by (intro rg_Act [where P' = "\<lambda>_ s. at_least m s \<and> h \<le> lastFinalizedHeight (prov s)"]) auto
qed

lemma rg_tryP:
  assumes "rg R G p P (\<lambda>_. P)" "\<And>e. rg R G (Ret (Inl (EWrap msg e))) P Q" "\<And>v. rg R G (k v) P Q"
  shows "rg R G (tryP msg p k) P Q"
  unfolding tryP_def by (rule rg_bindP [OF assms(1)]) (use assms(2,3) in \<open>simp split: sum.split\<close>)

lemma rg_tryO:
  assumes "rg R G p P S" "\<And>e. rg R G (Ret (Some (Inl e))) (S (Inl e)) Q" "\<And>v. rg R G (k v) (S (Inr v)) Q"
  shows "rg R G (tryO p k) P Q"
  unfolding tryO_def by (rule rg_bindP [OF assms(1)]) (use assms(2,3) in \<open>simp split: sum.split\<close>)

text \<open>The binary search stays within its interval.\<close>

definition within :: "u64 \<Rightarrow> u64 \<Rightarrow> u64 res option \<Rightarrow> bool" where
  "within lo hi r = (case r of Some (Inr v) \<Rightarrow> lo \<le> v \<and> v \<le> hi | _ \<Rightarrow> True)"

lemma rg_from_to_up:
  "lo \<le> hi \<Longrightarrow> small hi \<Longrightarrow>
   rg raises raises (from_to (queryFinalizedBlockInBabylonByNumber C) SetLastFinalized fuel lo hi) (at_least m)
     (\<lambda>r s. at_least m s \<and> within lo hi r)"
proof (induction fuel arbitrary: lo hi)
  case 0
  then show ?case by (simp add: from_to.simps within_def)
next
  case (Suc fuel)
  let ?c = "(lo + hi + 1) div 2"
  show ?case
  proof (cases "lo = hi \<or> lo + 1 = hi")
    case True
    with Suc.prems show ?thesis by (auto simp: from_to.simps within_def)
  next
    case False
    with Suc.prems have lt: "lo < hi" "lo + 1 \<noteq> hi" by auto
    have "no_wrap lo hi" using Suc.prems by (intro small_no_wrap) (auto intro: small_mono)
    from mid_between [OF this succ_neq_imp_gap [OF lt]] have mid: "lo < ?c" "?c < hi" .
    then have c: "small ?c" "0 < ?c" using Suc.prems(2) by (auto simp: small_def word_less_nat_alt)
    have up: "rg raises raises (bindP (SetLastFinalized (?c - 1))
        (\<lambda>_. from_to (queryFinalizedBlockInBabylonByNumber C) SetLastFinalized fuel ?c hi)) (at_least m)
        (\<lambda>r s. at_least m s \<and> within lo hi r)"
      by (rule rg_bindP [OF rg_set_last [OF floor_small_pred [OF c]]], rule rg_mono [OF Suc.IH])
        (use mid Suc.prems(2) in \<open>auto simp: within_def split: option.splits sum.splits\<close>)
    have down: "rg raises raises (from_to (queryFinalizedBlockInBabylonByNumber C) SetLastFinalized fuel lo ?c) (at_least m)
        (\<lambda>r s. at_least m s \<and> within lo hi r)"
      by (rule rg_mono [OF Suc.IH]) (use mid c in \<open>auto simp: within_def split: option.splits sum.splits\<close>)
    show ?thesis
      unfolding from_to_mid [OF lt]
      by (rule rg_bindP [OF rg_byNumber]) (use up down in \<open>auto simp: within_def split: sum.split\<close>)
  qed
qed

lemma rg_from_to:
  assumes "small a" "small b"
  shows "rg raises raises (queryFinalizedBlockInBabylonFromTo fuel C a b) (at_least m)
     (\<lambda>r s. at_least m s \<and> within (min a b) (max a b) r)"
proof (cases fuel)
  case 0
  then show ?thesis by (simp add: queryFinalizedBlockInBabylonFromTo_def from_to.simps within_def)
next
  case (Suc n)
  show ?thesis
  proof (cases "a \<le> b")
    case True
    with assms show ?thesis
      by (simp add: queryFinalizedBlockInBabylonFromTo_def rg_from_to_up min_def max_def)
  next
    case False
    with assms show ?thesis
      unfolding queryFinalizedBlockInBabylonFromTo_def Suc from_to_swap [of _ _ n a b]
      by (simp add: rg_from_to_up min_def max_def)
  qed
qed

text \<open>What a search returns is recorded.\<close>

definition recorded :: "u64 \<Rightarrow> u64 res option \<Rightarrow> 'w psys \<Rightarrow> bool" where
  "recorded m r s = (\<forall>v. r = Some (Inr v) \<longrightarrow> m \<le> v \<and> v \<le> lastFinalizedHeight (prov s))"

lemma rg_search_and_set:
  assumes "small start" "small cur" "m \<le> start" "m \<le> cur"
  shows "rg raises raises (search_and_set fuel C start cur) (at_least m) (\<lambda>r s. at_least m s \<and> recorded m r s)"
  unfolding search_and_set_def
proof (rule rg_bindP [OF rg_from_to [OF assms(1,2)]])
  fix r
  show "rg raises raises (case r of Some (Inr res) \<Rightarrow> bindP (SetLastFinalized res) (\<lambda>_. Ret r) | _ \<Rightarrow> Ret r)
      (\<lambda>s. at_least m s \<and> within (min start cur) (max start cur) r) (\<lambda>r s. at_least m s \<and> recorded m r s)"
  proof (cases "\<exists>v. r = Some (Inr v)")
    case False
    then show ?thesis by (auto simp: recorded_def split: option.split sum.split)
  next
    case True
    then obtain v where v: "r = Some (Inr v)" by blast
    show ?thesis
    proof (cases "min start cur \<le> v \<and> v \<le> max start cur")
      case True
      then have "m \<le> v" using assms(3,4) by (auto simp: min_def split: if_splits)
      moreover have "small v" using True assms(1,2) by (auto simp: max_def intro: small_mono split: if_splits)
      ultimately show ?thesis
        unfolding v option.case sum.case
        by (intro rg_bindP [OF rg_pre [OF rg_set_last [of v m]]]) (auto simp: recorded_def)
    next
      case False
      with v show ?thesis by (intro rg_vacuous) (simp add: within_def)
    qed
  qed
qed

text \<open>What the head handler promises: the height is recorded, or lies at most one below a head it was given.\<close>

definition head_floor :: "'w clients \<Rightarrow> u64 \<Rightarrow> u64 res option \<Rightarrow> 'w psys \<Rightarrow> bool" where
  "head_floor C m r s = (\<forall>v. r = Some (Inr v) \<longrightarrow> m \<le> v \<and>
     (v \<le> lastFinalizedHeight (prov s) \<or> (\<exists>w cur. fst (ethBlockNumber C w) = Inr cur \<and> v \<le> cur \<and> cur \<le> v + 1)))"

lemma head_floor_recorded: "recorded m r s \<Longrightarrow> head_floor C m r s"
  by (auto simp: head_floor_def recorded_def)

definition floor_start :: "u64 \<Rightarrow> u64 res \<Rightarrow> bool" where
  "floor_start m r = (\<forall>v. r = Inr v \<longrightarrow> m \<le> v \<and> small v)"

lemma rg_step_query:
  assumes "\<And>b. rg raises raises (k b) (at_least m) Q" "\<And>e s. at_least m s \<Longrightarrow> Q (Inl e) s"
  shows "rg raises raises (step_query C h k) (at_least m) Q"
  unfolding step_query_def by (rule rg_tryP [OF rg_byNumber]) (use assms in auto)

lemma rg_try_recent:
  assumes "small cur" "small start" "m \<le> start"
  shows "rg raises raises (try_recent C cur start) (at_least m) (\<lambda>r s. at_least m s \<and> floor_start m r)"
proof -
  have "small (cur - FastCheckNumberCount)" if "FastCheckNumberCount < cur"
    using that assms(1) by (meson less_imp_le small_mono word_sub_le)
  with assms show ?thesis
    unfolding try_recent_def Let_def by (auto intro!: rg_step_query simp: floor_start_def)
qed

lemma rg_try_next:
  assumes "small cur" "small start" "m \<le> start"
  shows "rg raises raises (try_next C cur start) (at_least m) (\<lambda>r s. at_least m s \<and> floor_start m r)"
proof -
  have "m \<le> start + 1" "small (start + 1)" if "start + 1 < cur"
    using that assms by (auto simp: word_le_nat_alt word_less_nat_alt small_def unat_word_ariths)
  with assms show ?thesis
    unfolding try_next_def Let_def by (auto intro!: rg_step_query simp: floor_start_def)
qed

lemma head_floor_near:
  assumes "m \<le> v" "v \<le> cur" "cur \<le> v + 1" "\<exists>w. fst (ethBlockNumber C w) = Inr cur"
  shows "head_floor C m (Some (Inr v)) s"
  using assms by (auto simp: head_floor_def)

lemma just_below:
  fixes m cur :: u64
  assumes "m < cur"
  shows "m \<le> cur - 1" "cur - 1 \<le> cur" "cur \<le> cur - 1 + 1"
  using assms by (auto simp: word_less_nat_alt word_le_nat_alt unat_pred word_gt_0)

lemma rg_search_from:
  assumes "small cur" "small start" "m \<le> start" "m < cur" and head: "\<exists>w. fst (ethBlockNumber C w) = Inr cur"
  shows "rg raises raises (search_from fuel C cur start) (at_least m) (head_floor C m)"
proof -
  have "m \<le> cur" using assms(4) by simp
  have err: "head_floor C m (Some (Inl e)) s" for e s by (simp add: head_floor_def)
  have newest: "rg raises raises (try_newest C cur) (at_least m) (\<lambda>_. at_least m)"
    unfolding try_newest_def by (auto intro!: rg_bindP [OF rg_byNumber])
  have search: "rg raises raises (tryO (try_next C cur f) (\<lambda>f2. search_and_set fuel C f2 cur)) (at_least m) (head_floor C m)"
    if f: "small f" "m \<le> f" for f
  proof (rule rg_tryO [OF rg_try_next [OF assms(1) f]])
    show "rg raises raises (search_and_set fuel C f2 cur) (\<lambda>s. at_least m s \<and> floor_start m (Inr f2)) (head_floor C m)" for f2
    proof (cases "floor_start m (Inr f2)")
      case True
      then have "small f2" "m \<le> f2" by (simp_all add: floor_start_def)
      from rg_search_and_set [OF this(1) assms(1) this(2) \<open>m \<le> cur\<close>] show ?thesis
        by (rule rg_mono) (auto intro: head_floor_recorded)
    qed (auto intro: rg_vacuous)
  qed (simp add: err)
  have ask: "rg raises raises (tryO (step_query C cur (\<lambda>isFinalized. Ret (Inr isFinalized)))
      (\<lambda>isFinalized. Ret (Some (Inr (if isFinalized then cur else f))))) (at_least m) (head_floor C m)"
    if f: "m \<le> f" "f + 1 = cur" "small f" for f
  proof (rule rg_tryO)
    show "rg raises raises (step_query C cur (\<lambda>isFinalized. Ret (Inr isFinalized))) (at_least m) (\<lambda>_. at_least m)"
      by (rule rg_step_query) auto
    have "f \<le> cur" "cur \<le> cur + 1" using f assms(1) by (auto simp: word_le_nat_alt small_def unat_word_ariths)
    then have "head_floor C m (Some (Inr (if b then cur else f))) s" for b s
      using f(1,2) head \<open>m \<le> cur\<close> by (intro head_floor_near [of _ _ cur]) auto
    then show "rg raises raises (Ret (Some (Inr (if b then cur else f)))) (at_least m) (head_floor C m)" for b
      by simp
  qed (simp add: err)
  have older: "rg raises raises (tryO (try_recent C cur start) (\<lambda>from1.
       if from1 + 1 = cur then
         tryO (step_query C cur (\<lambda>isFinalized. Ret (Inr isFinalized))) (\<lambda>isFinalized.
           Ret (Some (Inr (if isFinalized then cur else from1))))
       else tryO (try_next C cur from1) (\<lambda>from2. search_and_set fuel C from2 cur))) (at_least m) (head_floor C m)"
    (is "rg _ _ (tryO _ ?k) _ _")
  proof (rule rg_tryO [OF rg_try_recent [OF assms(1-3)]])
    show "rg raises raises (?k f) (\<lambda>s. at_least m s \<and> floor_start m (Inr f)) (head_floor C m)" for f
    proof (cases "floor_start m (Inr f)")
      case True
      then have "small f" "m \<le> f" by (simp_all add: floor_start_def)
      then show ?thesis using ask search by (auto intro: rg_pre)
    qed (auto intro: rg_vacuous)
  qed (simp add: err)
  have "rg raises raises (Ret (Some (Inr (cur - 1)))) (at_least m) (head_floor C m)"
    using just_below [OF assms(4)] head by (auto intro: head_floor_near)
  with older show ?thesis
    unfolding search_from_def by (intro rg_bindP [OF newest]) simp
qed

subsection \<open>The handler and the other requests\<close>

definition heads_above :: "'w clients \<Rightarrow> u64 \<Rightarrow> bool" where
  "heads_above C m = (\<forall>w cur. fst (ethBlockNumber C w) = Inr cur \<longrightarrow> m < cur \<and> small cur)"

lemma rg_head:
  assumes "heads_above C m"
  shows "rg raises raises (QueryFinalizedBlockInBabylon fuel C) (at_least m) (head_floor C m)"
proof -
  have stable: "stable raises (\<lambda>s. at_least m s \<and> b)" for b
    using stable_above [of m] by (auto simp: stable_def)
  have call: "rg raises raises (extP (ethBlockNumber C)) (at_least m)
      (\<lambda>r s. at_least m s \<and> (\<exists>w. fst (ethBlockNumber C w) = r))"
    unfolding extP_def
    by (rule rg_actP [OF _ stable]) (auto simp: raises_def at_least_def split_beta)
  have get: "rg raises raises GetLastFinalized (at_least m) (\<lambda>v s. at_least m s \<and> (m \<le> v \<and> small v))"
    unfolding GetLastFinalized_def by (rule rg_readP [OF _ stable]) (simp add: raises_refl at_least_def)
  have go: "rg raises raises (bindP GetLastFinalized (\<lambda>lastFinalized.
       let fromBlockHeight = (if lastFinalized = 0 then 1 else lastFinalized) in
       if cur = fromBlockHeight then Ret (Some (Inr cur))
       else search_from fuel C cur fromBlockHeight)) (at_least m) (head_floor C m)"
    if head: "\<exists>w. fst (ethBlockNumber C w) = Inr cur" for cur
  proof (rule rg_bindP [OF get])
    have cur: "m < cur" "small cur" using head assms by (auto simp: heads_above_def)
    then have "m \<le> cur" "cur \<le> cur + 1" by (simp, auto simp: word_le_nat_alt small_def unat_word_ariths)
    then have self: "rg raises raises (Ret (Some (Inr cur))) (at_least m) (head_floor C m)"
      using head head_floor_near [of m cur cur C] by simp
    show "rg raises raises (let fromBlockHeight = (if v = 0 then 1 else v) in
         if cur = fromBlockHeight then Ret (Some (Inr cur)) else search_from fuel C cur fromBlockHeight)
       (\<lambda>s. at_least m s \<and> (m \<le> v \<and> small v)) (head_floor C m)" for v
    proof (cases "m \<le> v \<and> small v")
      case True
      define k where "k = (if v = 0 then 1 else v)"
      with True have k: "m \<le> k" "small k" by (auto simp: small_def word_le_nat_alt)
      have "rg raises raises (if cur = k then Ret (Some (Inr cur)) else search_from fuel C cur k) (at_least m) (head_floor C m)"
        using self rg_search_from [OF cur(2) k(2,1) cur(1) head] by auto
      then show ?thesis unfolding Let_def k_def [symmetric] by (rule rg_pre) simp
    qed (auto intro: rg_vacuous)
  qed
  have fetch: "rg raises raises (tryP msg (extP (ethBlockNumber C)) (\<lambda>n. Ret (Inr n))) (at_least m)
      (\<lambda>r s. at_least m s \<and> (\<forall>cur. r = Inr cur \<longrightarrow> (\<exists>w. fst (ethBlockNumber C w) = Inr cur)))" for msg
    unfolding tryP_def by (rule rg_bindP [OF call]) (auto split: sum.split)
  show ?thesis
    unfolding QueryFinalizedBlockInBabylon_def
  proof (rule rg_tryO [OF fetch])
    show "rg raises raises (bindP GetLastFinalized (\<lambda>lastFinalized.
       let fromBlockHeight = (if lastFinalized = 0 then 1 else lastFinalized) in
       if cur = fromBlockHeight then Ret (Some (Inr cur))
       else search_from fuel C cur fromBlockHeight))
       (\<lambda>s. at_least m s \<and> (\<forall>c. Inr cur = (Inr c :: u64 res) \<longrightarrow> (\<exists>w. fst (ethBlockNumber C w) = Inr c))) (head_floor C m)" for cur
    proof (cases "\<exists>w. fst (ethBlockNumber C w) = Inr cur")
      case True
      from go [OF this] show ?thesis by (rule rg_pre) simp
    next
      case False
      then show ?thesis by (intro rg_vacuous) auto
    qed
  qed (simp add: head_floor_def)
qed

text \<open>Every request of a pool, when nobody records a height beyond 63 bits.\<close>

definition rep_floor :: "'w clients \<Rightarrow> u64 \<Rightarrow> reply \<Rightarrow> 'w psys \<Rightarrow> bool" where
  "rep_floor C m rep s = (case rep of RepHead r \<Rightarrow> head_floor C m r s | RepLast v \<Rightarrow> m \<le> v | _ \<Rightarrow> True)"

definition records_small :: "request \<Rightarrow> bool" where
  "records_small q = (case q of ReqSetLast h \<Rightarrow> small h | _ \<Rightarrow> True)"

lemma rg_serve:
  assumes "heads_above C m" "records_small q"
  shows "rg raises raises (serve fuel C q) (at_least m) (rep_floor C m)"
proof (cases q)
  case ReqHead
  then show ?thesis by (auto intro!: rg_bindP [OF rg_head [OF assms(1)]] simp: rep_floor_def)
next
  case (ReqIsFinal b)
  have "rg raises raises (QueryIsBlockBabylonFinalizedFromBabylon C b) (at_least m) (\<lambda>_. at_least m)"
    by (rule rg_tame) (rule stored_shape.tame_QueryIsBlock [OF stored_anything allows_frame_keeps_last])
  then show ?thesis unfolding ReqIsFinal serve.simps by (rule rg_bindP) (simp add: rep_floor_def)
next
  case (ReqEarliest pks)
  have "rg raises raises (QueryEarliestActiveDelBtcHeight C pks) (at_least m) (\<lambda>_. at_least m)"
    by (rule rg_tame) (rule stored_shape.tame_QueryEarliest [OF stored_anything allows_frame_keeps_last])
  then show ?thesis unfolding ReqEarliest serve.simps by (rule rg_bindP) (simp add: rep_floor_def)
next
  case ReqGetLast
  have "stable raises (\<lambda>s. at_least m s \<and> m \<le> a)" for a
    using stable_above [of m] by (auto simp: stable_def)
  then have "rg raises raises GetLastFinalized (at_least m) (\<lambda>v s. at_least m s \<and> m \<le> v)"
    unfolding GetLastFinalized_def by (intro rg_readP) (auto simp: raises_refl at_least_def)
  then show ?thesis unfolding ReqGetLast serve.simps by (rule rg_bindP) (simp add: rep_floor_def)
next
  case (ReqSetLast h)
  with assms(2) have "small h" by (simp add: records_small_def)
  from rg_set_last [OF this, of m] show ?thesis
    unfolding ReqSetLast serve.simps by (rule rg_bindP) (simp add: rep_floor_def)
qed

subsection \<open>The property\<close>

text \<open>
  (C5) The recorded last finalized height is a floor, whatever the services answer about blocks, votes,
  powers and times, steadily or not, and however many requests of any kind run at once: while every head the
  chain gives lies above the recorded height and heights stay below \<open>2 ^ 63\<close>, every head request that
  returns a height returns at least the height recorded when the requests began, and the height it returns has
  been recorded, unless it is at most one below a head the chain gave (the answers of the fast checks
  of the newest block, which the code does not record). So does every request for the recorded height.
\<close>

theorem finalized_head_floor:
  assumes "\<forall>w cur. fst (ethBlockNumber C w) = Inr cur \<longrightarrow> lastFinalizedHeight (prov s) < cur \<and> small cur"
    and "small (lastFinalizedHeight (prov s))" "\<forall>h. ReqSetLast h \<in> set reqs \<longrightarrow> small h"
    and "pool_steps (s, map (serve fuel C) reqs) (t, qs)"
  shows "(\<forall>v. Ret (RepHead (Some (Inr v))) \<in> set qs \<longrightarrow> lastFinalizedHeight (prov s) \<le> v \<and>
      (v \<le> lastFinalizedHeight (prov t) \<or> (\<exists>w cur. fst (ethBlockNumber C w) = Inr cur \<and> v \<le> cur \<and> cur \<le> v + 1))) \<and>
    (\<forall>v. Ret (RepLast v) \<in> set qs \<longrightarrow> lastFinalizedHeight (prov s) \<le> v)"
proof -
  let ?m = "lastFinalizedHeight (prov s)"
  have heads: "heads_above C ?m" using assms(1) by (simp add: heads_above_def)
  have "\<exists>P. P s \<and> stable raises P \<and> rg raises raises p P (rep_floor C ?m)" if "p \<in> set (map (serve fuel C) reqs)" for p
  proof -
    from that obtain q where q: "p = serve fuel C q" "q \<in> set reqs" by auto
    then have "records_small q" using assms(3) by (auto simp: records_small_def split: request.split)
    from rg_serve [OF heads this] have "rg raises raises p (at_least ?m) (rep_floor C ?m)" by (simp add: q)
    moreover have "at_least ?m s" using assms(2) by (simp add: at_least_def)
    ultimately show ?thesis using stable_above by blast
  qed
  then have "rg_each raises (rep_floor C ?m) (s, map (serve fuel C) reqs)" by (simp add: rg_each_def)
  from rg_each_steps [OF assms(4) this raises_refl raises_transp]
  have "rg_each raises (rep_floor C ?m) (t, qs)" by simp
  from rg_each_returned [OF this] show ?thesis by (force simp: rep_floor_def head_floor_def)
qed

text \<open>
  The demo chain with votes up to 3 and the head at 5, from a new provider: the request returns 3, and 3 is
  recorded.
\<close>

lemma demo_head_three:
  "fst (run (serve search_fuel (demo_clients (votes_upto 3) 5) ReqHead) demo_start) = RepHead (Some (Inr 3))"
proof -
  have ok: "\<forall>h \<le> 5. is_ok (ref_final (demo_answers (votes_upto 3)) h)"
    using demo_heights_ok [OF demo_small(2)] .
  obtain v where v: "fst (run (QueryFinalizedBlockInBabylon search_fuel (demo_clients (votes_upto 3) 5)) demo_start) = Some (Inr v)"
    "v \<le> 5" "v = 1 \<or> v \<le> 3" "\<forall>h. v < h \<longrightarrow> h < 5 \<longrightarrow> \<not> h \<le> 3"
    using head_exact [OF demo_services [OF demo_small] _ demo_start_coherent ok]
    by (auto simp: demo_final [OF demo_small(1)])
  have "v = 3"
  proof (rule ccontr)
    assume "v \<noteq> 3"
    with v(3) have "v < 3" by auto
    with v(4) show False by auto
  qed
  with v(1) show ?thesis by (simp add: run_bindP split_beta)
qed

theorem finalized_head_floor_witness:
  "3 \<le> lastFinalizedHeight (prov (snd (run (serve search_fuel (demo_clients (votes_upto 3) 5) ReqHead) demo_start)))"
proof -
  let ?C = "demo_clients (votes_upto 3) 5"
  let ?p = "serve search_fuel ?C ReqHead"
  have last: "lastFinalizedHeight (prov demo_start) = 0" by (simp add: demo_start_def newProvider_def)
  have heads: "\<forall>w cur. fst (ethBlockNumber ?C w) = Inr cur \<longrightarrow> lastFinalizedHeight (prov demo_start) < cur \<and> small cur"
    unfolding last by (simp add: demo_clients_def small_def)
  have one: "fst (ethBlockNumber ?C w) = Inr cur \<Longrightarrow> cur = 5" for w cur by (simp add: demo_clients_def)
  have "pool_steps (demo_start, map (serve search_fuel ?C) [ReqHead]) (snd (run ?p demo_start), [Ret (fst (run ?p demo_start))])"
    using run_is_schedule [of demo_start ?p] by simp
  from finalized_head_floor [OF heads _ _ this] demo_head_three
  have "3 \<le> lastFinalizedHeight (prov (snd (run ?p demo_start))) \<or>
      (\<exists>w cur. fst (ethBlockNumber ?C w) = Inr cur \<and> 3 \<le> cur \<and> cur \<le> 3 + 1)"
    by (simp add: last small_def)
  moreover have "\<not> (\<exists>w cur. fst (ethBlockNumber ?C w) = Inr cur \<and> 3 \<le> cur \<and> cur \<le> 3 + 1)"
    by (auto dest: one)
  ultimately show ?thesis by blast
qed

end
