(* ===== verification/SearchWraps.thy ===== *)
theory SearchWraps
  imports ProviderTheorems
begin

text \<open>
  The binary search at the top of the 64-bit range. Its midpoint is half of a 64-bit sum, so it lies below
  \<open>2 ^ 63\<close> whatever the interval; when the upper end lies above and every height below is final, the interval
  never closes. The search records heights that are not final on the way (from a midpoint 0 it records
  \<open>2 ^ 64 - 1\<close>), so the caches alone, without the recorded height, are what stays correct.
\<close>

subsection \<open>Queries do not depend on the recorded height\<close>

definition with_last :: "u64 \<Rightarrow> 'w psys \<Rightarrow> 'w psys" where
  "with_last h s = on_prov (\<lambda>p. p\<lparr>lastFinalizedHeight := h\<rparr>) s"

lemma with_last_sel [simp]:
  "world (with_last h s) = world s" "allFpsCache (prov (with_last h s)) = allFpsCache (prov s)"
  "allFpsCacheLastTime (prov (with_last h s)) = allFpsCacheLastTime (prov s)"
  "votedFpPksCache (prov (with_last h s)) = votedFpPksCache (prov s)"
  "finalizedCache (prov (with_last h s)) = finalizedCache (prov s)"
  "btcblockHeightCache (prov (with_last h s)) = btcblockHeightCache (prov s)"
  "multiFpPowerCache (prov (with_last h s)) = multiFpPowerCache (prov s)"
  "l2BlockCache (prov (with_last h s)) = l2BlockCache (prov s)"
  by (simp_all add: with_last_def)

lemma with_last_world: "(with_last h s)\<lparr>world := w\<rparr> = with_last h (s\<lparr>world := w\<rparr>)"
  by (simp add: with_last_def on_prov_def)

definition no_last :: "('w psys, 'a) prog \<Rightarrow> bool" where
  "no_last p = (\<forall>h s. run p (with_last h s) = (fst (run p s), with_last h (snd (run p s))))"

named_theorems no_last_rules

lemma no_last_Ret [no_last_rules]: "no_last (Ret a)"
  by (simp add: no_last_def)

lemma no_last_bindP [no_last_rules]: "no_last p \<Longrightarrow> (\<And>a. no_last (k a)) \<Longrightarrow> no_last (bindP p k)"
  by (simp add: no_last_def run_bindP split_beta)

lemma no_last_tryP [no_last_rules]: "no_last p \<Longrightarrow> (\<And>v. no_last (k v)) \<Longrightarrow> no_last (tryP m p k)"
  unfolding tryP_def by (intro no_last_rules) (auto simp: no_last_Ret split: sum.split)

lemma no_last_tryP_raw [no_last_rules]: "no_last p \<Longrightarrow> (\<And>v. no_last (k v)) \<Longrightarrow> no_last (tryP_raw p k)"
  unfolding tryP_raw_def by (intro no_last_rules) (auto simp: no_last_Ret split: sum.split)

lemma no_last_extP [no_last_rules]: "no_last (extP f)"
  by (simp add: no_last_def with_last_world)

lemma no_last_readP: "(\<And>h s. f (with_last h s) = f s) \<Longrightarrow> no_last (readP f)"
  by (simp add: no_last_def)

lemma no_last_store:
  "(\<And>h p. f (p\<lparr>lastFinalizedHeight := h\<rparr>) = (f p)\<lparr>lastFinalizedHeight := h\<rparr>) \<Longrightarrow> no_last (modifyP (on_prov f))"
  by (simp add: no_last_def with_last_def on_prov_def)

lemma no_last_memoP:
  assumes "no_last call" "\<And>h s. look (with_last h s) = look s"
    and "\<And>v h p. f v (p\<lparr>lastFinalizedHeight := h\<rparr>) = (f v p)\<lparr>lastFinalizedHeight := h\<rparr>"
  shows "no_last (memoP look (\<lambda>v. on_prov (f v)) call)"
  unfolding memoP_def
  by (intro no_last_rules no_last_readP assms(2))
    (auto intro!: no_last_rules no_last_store assms split: option.split)

lemma no_last_fps_lookup [no_last_rules]: "no_last (actP (fps_lookup C))"
  by (simp add: no_last_def fps_lookup_def with_last_world split_beta)

lemma no_last_fps_store [no_last_rules]: "no_last (actP (fps_store C pks))"
  by (simp add: no_last_def fps_store_def split_beta) (simp add: with_last_def on_prov_def)

lemma no_last_power [no_last_rules]: "no_last (queryAllPkPower C b)"
  unfolding queryAllPkPower_def queryAllFpBtcPubKeys_def getBlockHeightByTimestamp_def queryMultiFpPower_def
  by (auto intro!: no_last_rules no_last_memoP split: option.split)

lemma no_last_votes [no_last_rules]: "no_last (queryListOfVotedFinalityProviders C b)"
  unfolding queryListOfVotedFinalityProviders_def by (auto intro!: no_last_rules no_last_memoP)

lemma no_last_block [no_last_rules]: "no_last (blockByNumber C h)"
  unfolding blockByNumber_def by (auto intro!: no_last_rules no_last_memoP)

lemma no_last_decide [no_last_rules]: "no_last (QueryIsBlockBabylonFinalizedFromBabylon C b)"
  unfolding QueryIsBlockBabylonFinalizedFromBabylon_def decide_block_def
  by (auto intro!: no_last_rules split: option.split)

lemma no_last_byNumber: "no_last (queryFinalizedBlockInBabylonByNumber C h)"
  unfolding queryFinalizedBlockInBabylonByNumber_def
  by (auto intro!: no_last_rules no_last_readP no_last_store)

subsection \<open>A query with correct caches and any recorded height\<close>

definition caches_correct :: "('w \<Rightarrow> bool) \<Rightarrow> answers \<Rightarrow> 'w psys \<Rightarrow> bool" where
  "caches_correct W A s = (W (world s) \<and> caches_agree A (prov s))"

lemma caches_correct_last: "caches_correct W A (with_last h s) = caches_correct W A s"
  by (simp add: caches_correct_def caches_agree_def)

lemma coherent_last_zero: "caches_correct W A s \<Longrightarrow> coherent W A (with_last 0 s)"
  using caches_correct_last [of W A 0 s] by (simp add: caches_correct_def coherent_def last_sound_def with_last_def)

lemma set_last_with: "\<exists>h'. on_prov (set_last h) s = with_last h' s"
  by (cases "lastFinalizedHeight (prov s) < h")
    (auto simp: with_last_def on_prov_def set_last_def intro: exI [of _ h] exI [of _ "lastFinalizedHeight (prov s)"])

lemma with_last_again: "\<exists>h. s = with_last h (with_last 0 s)"
  by (intro exI [of _ "lastFinalizedHeight (prov s)"]) (simp add: with_last_def on_prov_def)

lemma final_query:
  assumes "steady C W A" "caches_correct W A s" "final_at A h"
  obtains t where "run (queryFinalizedBlockInBabylonByNumber C h) s = (Inr True, t)" "caches_correct W A t"
proof -
  let ?q = "queryFinalizedBlockInBabylonByNumber C h"
  obtain r u where u: "run ?q (with_last 0 s) = (r, u)" by fastforce
  with safe_run [OF refines_byNumber [OF assms(1), unfolded refines_def] coherent_last_zero [OF assms(2)], of h]
  have "coherent W A u" "agrees r (ref_final A h)" by simp_all
  with assms(3) have r: "r = Inr True" "caches_correct W A u"
    by (cases r; simp add: final_at_def coherent_def caches_correct_def)+
  obtain k where "s = with_last k (with_last 0 s)" using with_last_again by blast
  with no_last_byNumber [of C h] u r(1) have "run ?q s = (Inr True, with_last k u)"
    unfolding no_last_def by (metis fst_conv snd_conv)
  with r(2) show ?thesis by (intro that [of "with_last k u"]) (simp_all add: caches_correct_last)
qed

subsection \<open>The search\<close>

lemma midpoint_small: "unat ((a + b + 1) div 2 :: u64) < 2 ^ 63" for a b :: u64
proof -
  have "unat (a + b + 1) < 2 ^ 64" using unsigned_less [of "a + b + 1", where ?'a = nat] by simp
  then show ?thesis by (simp add: unat_div)
qed

lemma search_stuck:
  assumes "steady C W A" "\<forall>h. unat h < 2 ^ 63 \<longrightarrow> final_at A h" "2 ^ 63 < unat b"
  shows "caches_correct W A s \<Longrightarrow> a < b \<Longrightarrow> a + 1 \<noteq> b \<Longrightarrow>
    fst (run (from_to (queryFinalizedBlockInBabylonByNumber C) SetLastFinalized fuel a b) s) = None"
proof (induction fuel arbitrary: a s)
  case 0
  then show ?case by (simp add: from_to.simps)
next
  case (Suc fuel)
  let ?c = "(a + b + 1) div 2"
  have c: "unat ?c < 2 ^ 63" by (rule midpoint_small)
  with assms(2) have "final_at A ?c" by blast
  with final_query [OF assms(1) Suc.prems(1)] obtain t where
    t: "run (queryFinalizedBlockInBabylonByNumber C ?c) s = (Inr True, t)" "caches_correct W A t" by blast
  obtain h' where h': "on_prov (set_last (?c - 1)) t = with_last h' t" using set_last_with by blast
  have "unat (?c + 1) = unat ?c + 1" using c by (simp add: unat_word_ariths)
  with c assms(3) have "?c < b" "?c + 1 \<noteq> b" by (auto simp: word_less_nat_alt)
  with Suc.IH [of "with_last h' t" ?c] t(2) show ?case
    by (simp add: from_to_mid [OF Suc.prems(2,3)] run_bindP t(1) SetLastFinalized_def h' caches_correct_last)
qed

text \<open>
  (C40) The midpoint of the binary search is computed in 64 bits, \<open>from + to + 1\<close> wraps, and half of it lies
  below \<open>2 ^ 63\<close>. So while the services answer steadily and every height below \<open>2 ^ 63\<close> is final, a search
  whose upper end lies above \<open>2 ^ 63\<close>, from any lower end that is not just below it, never returns, for any fuel.
\<close>

theorem search_wraps:
  assumes "steady C W A" "\<forall>h. unat h < 2 ^ 63 \<longrightarrow> final_at A h"
    and "W (world s)" "caches_agree A (prov s)" "a < b" "a + 1 \<noteq> b" "2 ^ 63 < unat b"
  shows "fst (run (queryFinalizedBlockInBabylonFromTo fuel C a b) s) = None"
  unfolding queryFinalizedBlockInBabylonFromTo_def
  by (rule search_stuck [OF assms(1,2,7) _ assms(5,6)]) (simp add: caches_correct_def assms(3,4))

theorem search_wraps_witness:
  "\<forall>fuel. fst (run (queryFinalizedBlockInBabylonFromTo fuel (demo_clients (votes_upto (2 ^ 63)) 5) 1 (- 1)) demo_start) = None"
proof -
  have "\<forall>h. unat h < 2 ^ 63 \<longrightarrow> final_at (demo_answers (votes_upto (2 ^ 63))) h"
    by (auto simp: final_at_def demo_ref small_def word_le_nat_alt)
  moreover have "unat (- 1 :: u64) = 2 ^ 64 - 1" by (simp add: unsigned_minus_1_eq_mask mask_eq_exp_minus_1)
  then have "(1 :: u64) < - 1" "(1 :: u64) + 1 \<noteq> - 1" "2 ^ 63 < unat (- 1 :: u64)"
    by (simp_all add: word_less_nat_alt)
  moreover have "caches_agree A (prov demo_start)" for A by (simp add: demo_start_def)
  ultimately show ?thesis using search_wraps [OF demo_steady] by blast
qed

end
