(* ===== verification/EnvConfig.thy ===== *)
theory EnvConfig
  imports GoBase
begin

text \<open>
  The configuration of the services and the environment variables that override it
  (core/utils/config_env.go, core/configs, client/l2eth, client/eotsmanager, metrics/config.go,
  operator/configs, signer/configs). A \<open>WithEnv\<close> changes its configuration in place, so here it
  returns the new one; a value that does not parse panics, which is the left case of the result.
\<close>

type_synonym env = "string \<Rightarrow> string option"

subsection \<open>Looking variables up\<close>

definition LookupEnvStr :: "env \<Rightarrow> string \<Rightarrow> string \<Rightarrow> string" where
  "LookupEnvStr env name default_value = (case env name of
      Some v \<Rightarrow> if v \<noteq> [] then v else default_value
    | None \<Rightarrow> default_value)"

text \<open>
  \<open>strconv.Atoi\<close>: an optional sign and decimal digits, in the range of a signed 64-bit integer.
  The digits are read from the left, so a number that overflows 64 bits is out of range whatever follows.
  The error quotes the string as it is, without escapes.
\<close>

definition is_digit :: "char \<Rightarrow> bool" where
  "is_digit c = (48 \<le> (of_char c :: nat) \<and> (of_char c :: nat) \<le> 57)"

definition digits_val :: "string \<Rightarrow> nat" where
  "digits_val s = foldl (\<lambda>acc c. acc * 10 + (of_char c - 48)) 0 s"

definition all_digits :: "string \<Rightarrow> bool" where
  "all_digits s = (s \<noteq> [] \<and> list_all is_digit s)"

definition ErrSyntax :: err where
  "ErrSyntax = ESentinel ''invalid syntax''"

definition ErrRange :: err where
  "ErrRange = ESentinel ''value out of range''"

fun scan_uint :: "nat \<Rightarrow> string \<Rightarrow> nat res" where
  "scan_uint n [] = Inr n"
| "scan_uint n (c # cs) =
     (if \<not> is_digit c then Inl ErrSyntax
      else let n1 = n * 10 + (of_char c - 48) in
        if 2 ^ 64 \<le> n1 then Inl ErrRange else scan_uint n1 cs)"

definition atoi_digits :: "bool \<Rightarrow> string \<Rightarrow> int res" where
  "atoi_digits neg s =
     (if s = [] then Inl ErrSyntax
      else rbind (scan_uint 0 s) (\<lambda>n.
        if n < 2 ^ 63 + (if neg then 1 else 0) then Inr (if neg then - int n else int n)
        else Inl ErrRange))"

definition Atoi :: "string \<Rightarrow> int res" where
  "Atoi s = wrap_res (''strconv.Atoi: parsing '' @ [CHR 0x22] @ s @ [CHR 0x22]) (case s of
      [] \<Rightarrow> Inl ErrSyntax
    | c # cs \<Rightarrow> if c = CHR ''-'' then atoi_digits True cs
               else if c = CHR ''+'' then atoi_digits False cs
               else atoi_digits False s)"

definition LookupEnvUint64 :: "env \<Rightarrow> string \<Rightarrow> u64 \<Rightarrow> u64 res" where
  "LookupEnvUint64 env name default_value = (case env name of
      Some v \<Rightarrow> if v \<noteq> [] then
          (case Atoi v of
             Inl e \<Rightarrow> Inl (EText (''parse '' @ name @ '' with value '' @ v @ '' to uint64 error: '' @ err_string e))
           | Inr vi \<Rightarrow> Inr (word_of_int vi))
        else Inr default_value
    | None \<Rightarrow> Inr default_value)"

subsection \<open>The configurations\<close>

record L2Config =
  EthRpcUrl :: string
  ChainId :: u64
  BackHeightCount :: u64

record CommonConfig =
  ServiceName :: string
  Production :: bool
  RpcServerIpPortAddress :: string
  RpcVhosts :: "string list"
  RpcCors :: "string list"

record GadgetConfig =
  BBNChainID :: string
  BBNRPCAddress :: string
  DBFilePath :: string
  BitcoinRPCHost :: string
  BitcoinRPCUser :: string
  BitcoinRPCPass :: string
  BitcoinDisableTLS :: bool
  FGContractAddress :: string

record BabylonConfig =
  FinalityGadgetCfg :: GadgetConfig

record EOTSConfig =
  RemoteAddr :: string

record MetricsConfig =
  Host :: string
  Port :: i64
  UpdateInterval :: int

record OperatorConfig =
  oCommon :: CommonConfig
  oLayer2 :: L2Config
  oBabylon :: BabylonConfig
  oEOTSManagerConfig :: EOTSConfig
  oMetricsConfig :: MetricsConfig
  FinalityProviderHomePath :: string
  BtcPk :: string

record SignerConfig =
  sCommon :: CommonConfig
  sLayer2 :: L2Config

definition DefaultFpConfig :: MetricsConfig where
  "DefaultFpConfig = \<lparr>Host = ''127.0.0.1'', Port = 2112, UpdateInterval = 100 * 10 ^ 6\<rparr>"

subsection \<open>The overrides\<close>

definition l2_WithEnv :: "env \<Rightarrow> L2Config \<Rightarrow> L2Config res" where
  "l2_WithEnv env c =
     (let c1 = (case env ''FINALITY_GADGET_LAYER2_ETH_RPC_URL'' of
          Some url \<Rightarrow> if url \<noteq> [] then c\<lparr>EthRpcUrl := url\<rparr> else c
        | None \<Rightarrow> c)
      in case env ''FINALITY_GADGET_LAYER2_CHAIN_ID'' of
          Some chainId \<Rightarrow> if chainId \<noteq> [] then
              (case Atoi chainId of
                 Inl e \<Rightarrow> Inl (EText (''FINALITY_GADGET_LAYER2_CHAIN_ID parse error: '' @ err_string e))
               | Inr layer2ChainId \<Rightarrow> Inr (c1\<lparr>ChainId := word_of_int layer2ChainId\<rparr>))
            else Inr c1
        | None \<Rightarrow> Inr c1)"

definition common_WithEnv :: "env \<Rightarrow> CommonConfig \<Rightarrow> CommonConfig res" where
  "common_WithEnv env c =
     (let c1 = (case env ''FINALITY_GADGET_PRODUCTION'' of
          Some production \<Rightarrow> if production \<noteq> [] then c\<lparr>Production := (production = ''true'')\<rparr> else c
        | None \<Rightarrow> c)
      in case env ''FINALITY_GADGET_NAME'' of
          Some name \<Rightarrow> if name \<noteq> [] then Inr (c1\<lparr>ServiceName := name\<rparr>) else Inr c1
        | None \<Rightarrow> Inr c1)"

definition babylon_WithEnv :: "env \<Rightarrow> BabylonConfig \<Rightarrow> BabylonConfig res" where
  "babylon_WithEnv env c =
     (let g = FinalityGadgetCfg c in
      Inr (c\<lparr>FinalityGadgetCfg := g\<lparr>
        DBFilePath := LookupEnvStr env ''FINALITY_GADGET_DB_FILE_PATH'' (DBFilePath g),
        BBNChainID := LookupEnvStr env ''FINALITY_GADGET_BABYLON_CHAINID'' (BBNChainID g),
        BBNRPCAddress := LookupEnvStr env ''FINALITY_GADGET_BABYLON_RPC_ADDR'' (BBNRPCAddress g)\<rparr>\<rparr>))"

definition eots_WithEnv :: "env \<Rightarrow> EOTSConfig \<Rightarrow> EOTSConfig res" where
  "eots_WithEnv env c = Inr c"

definition metrics_WithEnv :: "env \<Rightarrow> MetricsConfig \<Rightarrow> MetricsConfig res" where
  "metrics_WithEnv env c =
     (let c1 = c\<lparr>Host := LookupEnvStr env ''FINALITY_GADGET_METRICS_HOST'' (Host c)\<rparr> in
      rbind (LookupEnvUint64 env ''FINALITY_GADGET_METRICS_PORT'' (Port c1)) (\<lambda>p. Inr (c1\<lparr>Port := p\<rparr>)))"

definition operator_WithEnv :: "env \<Rightarrow> OperatorConfig \<Rightarrow> OperatorConfig res" where
  "operator_WithEnv env c =
     rbind (common_WithEnv env (oCommon c)) (\<lambda>common.
     rbind (l2_WithEnv env (oLayer2 c)) (\<lambda>layer2.
     rbind (babylon_WithEnv env (oBabylon c)) (\<lambda>babylon.
     rbind (eots_WithEnv env (oEOTSManagerConfig c)) (\<lambda>eots.
     rbind (metrics_WithEnv env (oMetricsConfig c)) (\<lambda>met.
     Inr (c\<lparr>oCommon := common, oLayer2 := layer2, oBabylon := babylon, oEOTSManagerConfig := eots,
       oMetricsConfig := met,
       FinalityProviderHomePath := LookupEnvStr env ''FINALITY_PROVIDER_HOME_PATH'' (FinalityProviderHomePath c),
       BtcPk := LookupEnvStr env ''FINALITY_PROVIDER_BTC_PK'' (BtcPk c)\<rparr>))))))"

definition signer_WithEnv :: "env \<Rightarrow> SignerConfig \<Rightarrow> SignerConfig res" where
  "signer_WithEnv env c =
     rbind (common_WithEnv env (sCommon c)) (\<lambda>common.
     rbind (l2_WithEnv env (sLayer2 c)) (\<lambda>layer2.
     Inr (c\<lparr>sCommon := common, sLayer2 := layer2\<rparr>)))"

subsection \<open>The contract of an override\<close>

text \<open>
  Overriding twice is overriding once; variables that are unset or empty change nothing; whether it
  panics depends on the environment alone, and of the environment only on the variables that are set
  and not empty.
\<close>

definition effective :: "env \<Rightarrow> env" where
  "effective env name = (case env name of Some v \<Rightarrow> if v \<noteq> [] then Some v else None | None \<Rightarrow> None)"

locale env_overlay =
  fixes with_env :: "env \<Rightarrow> 'c \<Rightarrow> 'c res"
  assumes overlay_idem: "with_env env c = Inr d \<Longrightarrow> with_env env d = Inr d"
    and overlay_unset: "\<forall>name. effective env name = None \<Longrightarrow> with_env env c = Inr c"
    and overlay_effective: "with_env (effective env) c = with_env env c"
    and overlay_ok: "is_ok (with_env env c) = is_ok (with_env env d)"
begin

lemma overlay_env_cong: "effective env = effective env' \<Longrightarrow> with_env env c = with_env env' c"
  by (metis overlay_effective)

lemma overlay_restart: "with_env env c = Inr d \<Longrightarrow> ((\<lambda>r. rbind r (with_env env)) ^^ n) (Inr d) = Inr d"
  by (induction n) (auto dest: overlay_idem)

lemma overlay_panics: "with_env env c = Inl e \<Longrightarrow> \<not> is_ok (with_env env d)"
  by (metis is_ok_simps(1) overlay_ok)

end

lemma env_case:
  "(case env n of Some v \<Rightarrow> if v \<noteq> [] then f v else d | None \<Rightarrow> d) =
   (case effective env n of Some v \<Rightarrow> f v | None \<Rightarrow> d)"
  by (auto simp: effective_def split: option.splits)

lemma effective_None: "effective env n = None \<longleftrightarrow> env n = None \<or> env n = Some []"
  by (auto simp: effective_def split: option.splits)

lemma effective_effective [simp]: "effective (effective env) = effective env"
  by (rule ext) (auto simp: effective_def split: option.splits)

lemma LookupEnvStr_idem [simp]: "LookupEnvStr env n (LookupEnvStr env n d) = LookupEnvStr env n d"
  and LookupEnvStr_unset: "effective env n = None \<Longrightarrow> LookupEnvStr env n d = d"
  and LookupEnvStr_effective [simp]: "LookupEnvStr (effective env) n d = LookupEnvStr env n d"
  by (simp_all add: LookupEnvStr_def env_case [where f = "\<lambda>v. v"] split: option.splits)

text \<open>The value of a numeric variable, or the panic.\<close>

definition parse_u64 :: "string \<Rightarrow> string \<Rightarrow> u64 res" where
  "parse_u64 name v = (case Atoi v of
      Inl e \<Rightarrow> Inl (EText (''parse '' @ name @ '' with value '' @ v @ '' to uint64 error: '' @ err_string e))
    | Inr vi \<Rightarrow> Inr (word_of_int vi))"

lemma LookupEnvUint64_eff:
  "LookupEnvUint64 env n d = (case effective env n of Some v \<Rightarrow> parse_u64 n v | None \<Rightarrow> Inr d)"
  unfolding LookupEnvUint64_def parse_u64_def by (rule env_case)

lemma LookupEnvUint64_idem: "LookupEnvUint64 env n d = Inr v \<Longrightarrow> LookupEnvUint64 env n v = Inr v"
  and LookupEnvUint64_unset: "effective env n = None \<Longrightarrow> LookupEnvUint64 env n d = Inr d"
  and LookupEnvUint64_effective [simp]: "LookupEnvUint64 (effective env) n d = LookupEnvUint64 env n d"
  and LookupEnvUint64_ok: "LookupEnvUint64 env n d = Inr v \<Longrightarrow> \<exists>w. LookupEnvUint64 env n d' = Inr w"
  unfolding LookupEnvUint64_eff by (auto split: option.splits sum.splits)

lemma l2_WithEnv_eff:
  "l2_WithEnv env c =
     (let c1 = (case effective env ''FINALITY_GADGET_LAYER2_ETH_RPC_URL'' of
          Some url \<Rightarrow> c\<lparr>EthRpcUrl := url\<rparr> | None \<Rightarrow> c)
      in case effective env ''FINALITY_GADGET_LAYER2_CHAIN_ID'' of
          Some chainId \<Rightarrow> (case Atoi chainId of
                 Inl e \<Rightarrow> Inl (EText (''FINALITY_GADGET_LAYER2_CHAIN_ID parse error: '' @ err_string e))
               | Inr layer2ChainId \<Rightarrow> Inr (c1\<lparr>ChainId := word_of_int layer2ChainId\<rparr>))
        | None \<Rightarrow> Inr c1)"
  unfolding l2_WithEnv_def env_case [symmetric] ..

lemma common_WithEnv_eff:
  "common_WithEnv env c =
     (let c1 = (case effective env ''FINALITY_GADGET_PRODUCTION'' of
          Some production \<Rightarrow> c\<lparr>Production := (production = ''true'')\<rparr> | None \<Rightarrow> c)
      in case effective env ''FINALITY_GADGET_NAME'' of
          Some name \<Rightarrow> Inr (c1\<lparr>ServiceName := name\<rparr>) | None \<Rightarrow> Inr c1)"
  unfolding common_WithEnv_def env_case [symmetric] ..

interpretation l2_env: env_overlay l2_WithEnv
  by unfold_locales (auto simp: l2_WithEnv_eff Let_def split: option.splits sum.splits)

interpretation common_env: env_overlay common_WithEnv
  by unfold_locales (auto simp: common_WithEnv_eff Let_def split: option.splits)

interpretation babylon_env: env_overlay babylon_WithEnv
  by unfold_locales (auto simp: babylon_WithEnv_def Let_def LookupEnvStr_unset)

interpretation eots_env: env_overlay eots_WithEnv
  by unfold_locales (simp_all add: eots_WithEnv_def)

lemma rbind_ok_cong:
  "is_ok r = is_ok r' \<Longrightarrow> (\<And>v v'. r = Inr v \<Longrightarrow> r' = Inr v' \<Longrightarrow> is_ok (f v) = is_ok (g v')) \<Longrightarrow>
   is_ok (rbind r f) = is_ok (rbind r' g)"
  by (cases r; cases r') auto

interpretation metrics_env: env_overlay metrics_WithEnv
proof
  fix env c d
  show "metrics_WithEnv env d = Inr d" if c: "metrics_WithEnv env c = Inr d"
  proof -
    from c obtain p where p: "LookupEnvUint64 env ''FINALITY_GADGET_METRICS_PORT'' (Port c) = Inr p"
      and d: "d = c\<lparr>Host := LookupEnvStr env ''FINALITY_GADGET_METRICS_HOST'' (Host c), Port := p\<rparr>"
      by (auto simp: metrics_WithEnv_def Let_def rbind_Inr_iff)
    from LookupEnvUint64_idem [OF p] show ?thesis
      by (simp add: metrics_WithEnv_def Let_def d)
  qed
  show "\<forall>name. effective env name = None \<Longrightarrow> metrics_WithEnv env c = Inr c"
    by (simp add: metrics_WithEnv_def Let_def LookupEnvStr_unset LookupEnvUint64_unset)
  show "metrics_WithEnv (effective env) c = metrics_WithEnv env c"
    by (simp add: metrics_WithEnv_def)
  show "is_ok (metrics_WithEnv env c) = is_ok (metrics_WithEnv env d)"
    unfolding metrics_WithEnv_def Let_def
    by (intro rbind_ok_cong) (auto simp: is_ok_iff intro: LookupEnvUint64_ok)
qed

text \<open>The configurations made of others inherit the contract from their parts.\<close>

interpretation operator_env: env_overlay operator_WithEnv
proof
  fix env c d
  show "operator_WithEnv env c = Inr d \<Longrightarrow> operator_WithEnv env d = Inr d"
    by (auto simp: operator_WithEnv_def rbind_Inr_iff common_env.overlay_idem l2_env.overlay_idem
        babylon_env.overlay_idem eots_env.overlay_idem metrics_env.overlay_idem)
  show "\<forall>name. effective env name = None \<Longrightarrow> operator_WithEnv env c = Inr c"
    by (simp add: operator_WithEnv_def common_env.overlay_unset l2_env.overlay_unset
        babylon_env.overlay_unset eots_env.overlay_unset metrics_env.overlay_unset LookupEnvStr_unset)
  show "operator_WithEnv (effective env) c = operator_WithEnv env c"
    by (simp add: operator_WithEnv_def common_env.overlay_effective l2_env.overlay_effective
        babylon_env.overlay_effective eots_env.overlay_effective metrics_env.overlay_effective)
  show "is_ok (operator_WithEnv env c) = is_ok (operator_WithEnv env d)"
    unfolding operator_WithEnv_def
    by (intro rbind_ok_cong common_env.overlay_ok l2_env.overlay_ok babylon_env.overlay_ok
        eots_env.overlay_ok metrics_env.overlay_ok) simp
qed

interpretation signer_env: env_overlay signer_WithEnv
proof
  fix env c d
  show "signer_WithEnv env c = Inr d \<Longrightarrow> signer_WithEnv env d = Inr d"
    by (auto simp: signer_WithEnv_def rbind_Inr_iff common_env.overlay_idem l2_env.overlay_idem)
  show "\<forall>name. effective env name = None \<Longrightarrow> signer_WithEnv env c = Inr c"
    by (simp add: signer_WithEnv_def common_env.overlay_unset l2_env.overlay_unset)
  show "signer_WithEnv (effective env) c = signer_WithEnv env c"
    by (simp add: signer_WithEnv_def common_env.overlay_effective l2_env.overlay_effective)
  show "is_ok (signer_WithEnv env c) = is_ok (signer_WithEnv env d)"
    unfolding signer_WithEnv_def
    by (intro rbind_ok_cong common_env.overlay_ok l2_env.overlay_ok) simp
qed

subsection \<open>Numbers in the environment\<close>

lemma of_char_digit: "d < 10 \<Longrightarrow> of_char (digit_char d) = 48 + d" for d :: nat
  by (simp add: digit_char_def)

lemma is_digit_char: "d < 10 \<Longrightarrow> is_digit (digit_char d)"
  by (simp add: is_digit_def of_char_digit)

lemma digits_val_snoc: "digits_val (s @ [c]) = digits_val s * 10 + (of_char c - 48)"
  by (simp add: digits_val_def)

lemma show_nat_digits: "all_digits (show_nat n) \<and> digits_val (show_nat n) = n"
proof (induction n rule: less_induct)
  case (less n)
  show ?case
  proof (cases "n < 10")
    case True
    then show ?thesis
      by (simp add: show_nat.simps all_digits_def is_digit_char of_char_digit digits_val_def)
  next
    case False
    then have "all_digits (show_nat (n div 10)) \<and> digits_val (show_nat (n div 10)) = n div 10"
      by (intro less) simp
    with False show ?thesis
      by (simp add: show_nat.simps [of n] all_digits_def is_digit_char of_char_digit digits_val_snoc)
  qed
qed

lemma show_nat_Cons: "\<exists>c cs. show_nat n = c # cs \<and> is_digit c"
  using show_nat_digits [of n] by (cases "show_nat n") (auto simp: all_digits_def)

lemma sign_not_digit: "\<not> is_digit CHR ''-''" "\<not> is_digit CHR ''+''"
  by (simp_all add: is_digit_def)

lemma digits_fold_ge: "n \<le> foldl (\<lambda>acc c. acc * 10 + (of_char c - 48)) n s" for n :: nat
proof (induction s arbitrary: n)
  case (Cons c s)
  have "n \<le> n * 10 + (of_char c - 48)" by simp
  with Cons [of "n * 10 + (of_char c - 48)"] show ?case by simp
qed simp

lemma scan_uint_digits:
  "list_all is_digit s \<Longrightarrow> n < 2 ^ 64 \<Longrightarrow>
   scan_uint n s = (let v = foldl (\<lambda>acc c. acc * 10 + (of_char c - 48)) n s in if v < 2 ^ 64 then Inr v else Inl ErrRange)"
proof (induction s arbitrary: n)
  case (Cons c s)
  let ?n = "n * 10 + (of_char c - 48)"
  show ?case
  proof (cases "?n < 2 ^ 64")
    case True
    with Cons.IH [of ?n] Cons.prems show ?thesis by (simp add: Let_def)
  next
    case False
    with digits_fold_ge [of ?n s] Cons.prems show ?thesis by (simp add: Let_def)
  qed
qed (simp add: Let_def)

lemma scan_show_nat: "scan_uint 0 (show_nat n) = (if n < 2 ^ 64 then Inr n else Inl ErrRange)"
  using scan_uint_digits [of "show_nat n" 0] show_nat_digits [of n]
  by (simp add: all_digits_def digits_val_def Let_def)

lemma show_nat_not_Nil [simp]: "show_nat n \<noteq> []"
  using show_nat_Cons [of n] by auto

lemma atoi_digits_show: "atoi_digits neg (show_nat n) =
    (if n < 2 ^ 63 + (if neg then 1 else 0) then Inr (if neg then - int n else int n) else Inl ErrRange)"
  by (simp add: atoi_digits_def scan_show_nat)

text \<open>What \<open>Atoi\<close> gives on a string: the value of an integer, or its error.\<close>

definition atoi_result :: "string \<Rightarrow> int \<Rightarrow> int res" where
  "atoi_result s i = (if - (2 ^ 63) \<le> i \<and> i < 2 ^ 63 then Inr i
     else Inl (EWrap (''strconv.Atoi: parsing '' @ [CHR 0x22] @ s @ [CHR 0x22]) ErrRange))"

lemma Atoi_show_nat: "Atoi (show_nat n) = atoi_result (show_nat n) (int n)"
proof -
  obtain c cs where c: "show_nat n = c # cs" "is_digit c" using show_nat_Cons by blast
  then have "Atoi (show_nat n) = wrap_res (''strconv.Atoi: parsing '' @ [CHR 0x22] @ show_nat n @ [CHR 0x22])
      (atoi_digits False (show_nat n))"
    using sign_not_digit by (auto simp: Atoi_def)
  then show ?thesis by (simp add: atoi_digits_show atoi_result_def)
qed

lemma Atoi_show_plus: "Atoi (CHR ''+'' # show_nat n) = atoi_result (CHR ''+'' # show_nat n) (int n)"
  by (simp add: Atoi_def atoi_digits_show atoi_result_def)

lemma Atoi_show_neg: "Atoi (CHR ''-'' # show_nat n) = atoi_result (CHR ''-'' # show_nat n) (- int n)"
  by (auto simp: Atoi_def atoi_digits_show atoi_result_def)

lemma Atoi_show_int: "Atoi (show_int i) = atoi_result (show_int i) i"
  using Atoi_show_neg [of "nat (- i)"] Atoi_show_nat [of "nat i"] by (simp add: show_int_def)

lemma uint_negative: "- (2 ^ 63) \<le> i \<Longrightarrow> i < 0 \<Longrightarrow> uint (word_of_int i :: u64) = 2 ^ 64 + i"
  using mod_pos_pos_trivial [of "i + 2 ^ 64" "2 ^ 64"]
  by (simp add: uint_word_of_int)

text \<open>
  \<open>strconv.Atoi\<close>, as the code uses it to read variables, inverts the printing of every integer
  of 64 bits, with or without a plus sign, and refuses every other integer.
\<close>

lemma Atoi_roundtrip:
  "Atoi (show_int i) = (if - (2 ^ 63) \<le> i \<and> i < 2 ^ 63 then Inr i
     else Inl (EWrap (''strconv.Atoi: parsing '' @ [CHR 0x22] @ show_int i @ [CHR 0x22]) ErrRange)) \<and>
   (\<exists>e. Atoi (CHR ''+'' # show_nat n) = (if n < 2 ^ 63 then Inr (int n) else Inl e))"
  by (auto simp: Atoi_show_int Atoi_show_plus atoi_result_def)

text \<open>
  (C39) An unsigned variable is read as a signed integer: a number below \<open>2 ^ 63\<close> is read as it is, a
  larger one panics though it may fit the type, and a negative number is accepted and wraps.
\<close>

theorem LookupEnvUint64_range:
  assumes "env name = Some (show_int i)"
  shows "(0 \<le> i \<and> i < 2 ^ 63 \<longrightarrow> LookupEnvUint64 env name d = Inr (word_of_int i)) \<and>
    (2 ^ 63 \<le> i \<longrightarrow> \<not> is_ok (LookupEnvUint64 env name d)) \<and>
    (- (2 ^ 63) \<le> i \<and> i < 0 \<longrightarrow>
       (\<exists>v. LookupEnvUint64 env name d = Inr v \<and> uint v = 2 ^ 64 + i))"
proof -
  have ne: "show_int i \<noteq> []" by (simp add: show_int_def)
  with assms have look: "LookupEnvUint64 env name d = parse_u64 name (show_int i)"
    by (simp add: LookupEnvUint64_def parse_u64_def)
  have ok: "parse_u64 name (show_int i) = Inr (word_of_int i)" if "- (2 ^ 63) \<le> i" "i < 2 ^ 63"
    using that Atoi_show_int [of i] by (simp add: parse_u64_def atoi_result_def)
  have bad: "\<not> is_ok (parse_u64 name (show_int i))" if "2 ^ 63 \<le> i"
    using that Atoi_show_int [of i] by (simp add: parse_u64_def atoi_result_def)
  from ok bad uint_negative [of i] show ?thesis
    unfolding look by auto
qed

theorem LookupEnvUint64_range_witness:
  "\<exists>v. LookupEnvUint64 (\<lambda>_. Some (show_int (- 1))) ''P'' 0 = Inr v \<and> uint v = 2 ^ 64 - 1"
  using LookupEnvUint64_range [of "\<lambda>_. Some (show_int (- 1))" "''P''" "- 1" 0] by simp

subsection \<open>What an override sets\<close>

text \<open>A variable that is set and not empty gives the field, otherwise the configuration does.\<close>

definition env_or :: "env \<Rightarrow> string \<Rightarrow> string \<Rightarrow> string" where
  "env_or env name old = (case effective env name of Some v \<Rightarrow> v | None \<Rightarrow> old)"

definition env_number :: "env \<Rightarrow> string \<Rightarrow> u64 \<Rightarrow> u64 \<Rightarrow> bool" where
  "env_number env name old new = (case effective env name of
      Some v \<Rightarrow> (\<exists>i. Atoi v = Inr i \<and> new = word_of_int i) | None \<Rightarrow> new = old)"

lemma LookupEnvStr_or: "LookupEnvStr env n d = env_or env n d"
  by (auto simp: LookupEnvStr_def env_or_def effective_def split: option.splits)

lemma LookupEnvUint64_number: "LookupEnvUint64 env n d = Inr v \<Longrightarrow> env_number env n d v"
  by (auto simp: LookupEnvUint64_eff parse_u64_def env_number_def split: option.splits sum.splits)

lemma common_WithEnv_sets:
  "common_WithEnv env c = Inr d \<Longrightarrow> d = c\<lparr>ServiceName := env_or env ''FINALITY_GADGET_NAME'' (ServiceName c),
     Production := (case effective env ''FINALITY_GADGET_PRODUCTION'' of Some v \<Rightarrow> v = ''true'' | None \<Rightarrow> Production c)\<rparr>"
  by (auto simp: common_WithEnv_eff env_or_def Let_def split: option.splits)

lemma l2_WithEnv_sets:
  "l2_WithEnv env c = Inr d \<Longrightarrow>
     d = c\<lparr>EthRpcUrl := env_or env ''FINALITY_GADGET_LAYER2_ETH_RPC_URL'' (EthRpcUrl c), ChainId := ChainId d\<rparr> \<and>
     env_number env ''FINALITY_GADGET_LAYER2_CHAIN_ID'' (ChainId c) (ChainId d)"
  by (auto simp: l2_WithEnv_eff env_or_def env_number_def Let_def split: option.splits sum.splits)

lemma metrics_WithEnv_sets:
  "metrics_WithEnv env c = Inr d \<Longrightarrow>
     d = c\<lparr>Host := env_or env ''FINALITY_GADGET_METRICS_HOST'' (Host c), Port := Port d\<rparr> \<and>
     env_number env ''FINALITY_GADGET_METRICS_PORT'' (Port c) (Port d)"
  by (auto simp: metrics_WithEnv_def Let_def rbind_Inr_iff LookupEnvStr_or dest: LookupEnvUint64_number)

text \<open>
  (C26) The operator's configuration. When an override succeeds, each of the eleven fields is what its own
  variable says, if that is set and not empty, and else what it was: strings as they are, the production
  flag true for the text \<open>true\<close> alone, the chain id and the metrics port as the number that \<open>Atoi\<close> reads;
  and no other field changes. A second override, as a restart over a saved configuration would do, changes nothing; with
  no variable set, or only empty ones, the configuration is left as it was; and if a variable panics, it does
  so whatever the configuration file says.
\<close>

theorem operator_config_overlay:
  "(operator_WithEnv env c = Inr d \<longrightarrow>
      oCommon d = (oCommon c)\<lparr>ServiceName := env_or env ''FINALITY_GADGET_NAME'' (ServiceName (oCommon c)),
        Production := (case effective env ''FINALITY_GADGET_PRODUCTION'' of Some v \<Rightarrow> v = ''true'' | None \<Rightarrow> Production (oCommon c))\<rparr> \<and>
      oLayer2 d = (oLayer2 c)\<lparr>EthRpcUrl := env_or env ''FINALITY_GADGET_LAYER2_ETH_RPC_URL'' (EthRpcUrl (oLayer2 c)),
        ChainId := ChainId (oLayer2 d)\<rparr> \<and>
      env_number env ''FINALITY_GADGET_LAYER2_CHAIN_ID'' (ChainId (oLayer2 c)) (ChainId (oLayer2 d)) \<and>
      FinalityGadgetCfg (oBabylon d) = (FinalityGadgetCfg (oBabylon c))\<lparr>
        DBFilePath := env_or env ''FINALITY_GADGET_DB_FILE_PATH'' (DBFilePath (FinalityGadgetCfg (oBabylon c))),
        BBNChainID := env_or env ''FINALITY_GADGET_BABYLON_CHAINID'' (BBNChainID (FinalityGadgetCfg (oBabylon c))),
        BBNRPCAddress := env_or env ''FINALITY_GADGET_BABYLON_RPC_ADDR'' (BBNRPCAddress (FinalityGadgetCfg (oBabylon c)))\<rparr> \<and>
      oEOTSManagerConfig d = oEOTSManagerConfig c \<and>
      oMetricsConfig d = (oMetricsConfig c)\<lparr>Host := env_or env ''FINALITY_GADGET_METRICS_HOST'' (Host (oMetricsConfig c)),
        Port := Port (oMetricsConfig d)\<rparr> \<and>
      env_number env ''FINALITY_GADGET_METRICS_PORT'' (Port (oMetricsConfig c)) (Port (oMetricsConfig d)) \<and>
      FinalityProviderHomePath d = env_or env ''FINALITY_PROVIDER_HOME_PATH'' (FinalityProviderHomePath c) \<and>
      BtcPk d = env_or env ''FINALITY_PROVIDER_BTC_PK'' (BtcPk c)) \<and>
   (operator_WithEnv env c = Inr d \<longrightarrow> operator_WithEnv env d = Inr d) \<and>
   ((\<forall>name. env name = None \<or> env name = Some []) \<longrightarrow> operator_WithEnv env c = Inr c) \<and>
   (operator_WithEnv env c = Inl e \<longrightarrow> \<not> is_ok (operator_WithEnv env c'))"
  (is "(_ \<longrightarrow> ?sets) \<and> _")
proof (intro conjI [of "_ \<longrightarrow> ?sets"] impI)
  assume "operator_WithEnv env c = Inr d"
  then obtain common layer2 met where
    parts: "common_WithEnv env (oCommon c) = Inr common" "l2_WithEnv env (oLayer2 c) = Inr layer2"
      "metrics_WithEnv env (oMetricsConfig c) = Inr met"
    and d: "oCommon d = common" "oLayer2 d = layer2" "oMetricsConfig d = met" "oEOTSManagerConfig d = oEOTSManagerConfig c"
      "FinalityGadgetCfg (oBabylon d) = (FinalityGadgetCfg (oBabylon c))\<lparr>
        DBFilePath := env_or env ''FINALITY_GADGET_DB_FILE_PATH'' (DBFilePath (FinalityGadgetCfg (oBabylon c))),
        BBNChainID := env_or env ''FINALITY_GADGET_BABYLON_CHAINID'' (BBNChainID (FinalityGadgetCfg (oBabylon c))),
        BBNRPCAddress := env_or env ''FINALITY_GADGET_BABYLON_RPC_ADDR'' (BBNRPCAddress (FinalityGadgetCfg (oBabylon c)))\<rparr>"
      "FinalityProviderHomePath d = env_or env ''FINALITY_PROVIDER_HOME_PATH'' (FinalityProviderHomePath c)"
      "BtcPk d = env_or env ''FINALITY_PROVIDER_BTC_PK'' (BtcPk c)"
    by (auto simp: operator_WithEnv_def babylon_WithEnv_def eots_WithEnv_def rbind_Inr_iff LookupEnvStr_or Let_def)
  note sets = common_WithEnv_sets [OF parts(1)] l2_WithEnv_sets [OF parts(2)] metrics_WithEnv_sets [OF parts(3)]
  show ?sets
    unfolding d by (intro conjI refl) (use sets in blast)+
next
  show "(operator_WithEnv env c = Inr d \<longrightarrow> operator_WithEnv env d = Inr d) \<and>
    ((\<forall>name. env name = None \<or> env name = Some []) \<longrightarrow> operator_WithEnv env c = Inr c) \<and>
    (operator_WithEnv env c = Inl e \<longrightarrow> \<not> is_ok (operator_WithEnv env c'))"
  proof (intro conjI impI)
    show "operator_WithEnv env c = Inr c" if "\<forall>name. env name = None \<or> env name = Some []"
      using that by (intro operator_env.overlay_unset) (simp add: effective_None)
  qed (fact operator_env.overlay_idem operator_env.overlay_panics)+
qed

definition demo_operator :: OperatorConfig where
  "demo_operator = \<lparr>oCommon = \<lparr>ServiceName = ''fg'', Production = False, RpcServerIpPortAddress = [], RpcVhosts = [], RpcCors = []\<rparr>,
     oLayer2 = \<lparr>EthRpcUrl = ''url'', ChainId = 1, BackHeightCount = 0\<rparr>,
     oBabylon = \<lparr>FinalityGadgetCfg = \<lparr>BBNChainID = [], BBNRPCAddress = [], DBFilePath = [], BitcoinRPCHost = [],
        BitcoinRPCUser = [], BitcoinRPCPass = [], BitcoinDisableTLS = False, FGContractAddress = []\<rparr>\<rparr>,
     oEOTSManagerConfig = \<lparr>RemoteAddr = []\<rparr>, oMetricsConfig = DefaultFpConfig,
     FinalityProviderHomePath = [], BtcPk = []\<rparr>"

definition demo_env :: env where
  "demo_env = [''FINALITY_GADGET_NAME'' \<mapsto> [], ''FINALITY_GADGET_METRICS_PORT'' \<mapsto> ''9'', ''FINALITY_PROVIDER_BTC_PK'' \<mapsto> ''pk'']"

lemma demo_env_runs: "\<exists>d. operator_WithEnv demo_env demo_operator = Inr d"
  by (simp add: operator_WithEnv_def common_WithEnv_def l2_WithEnv_def babylon_WithEnv_def eots_WithEnv_def metrics_WithEnv_def
      LookupEnvUint64_def Atoi_def atoi_digits_def is_digit_def demo_env_def Let_def)

text \<open>An empty name, a port and a key are set: the name stays, the port and the key are overridden.\<close>

theorem operator_config_overlay_witness:
  "\<exists>d. operator_WithEnv demo_env demo_operator = Inr d \<and> ServiceName (oCommon d) = ''fg'' \<and> Port (oMetricsConfig d) = 9 \<and>
     BtcPk d = ''pk''"
proof -
  obtain d where d: "operator_WithEnv demo_env demo_operator = Inr d" using demo_env_runs by blast
  have "Atoi ''9'' = Inr 9" by (simp add: Atoi_def atoi_digits_def is_digit_def)
  with operator_config_overlay [of demo_env demo_operator d] d show ?thesis
    by (auto simp: env_or_def env_number_def effective_def demo_env_def demo_operator_def)
qed

subsection \<open>From a configuration to an environment and back\<close>

text \<open>The variables that give the fields of \<open>d\<close>.\<close>

definition env_of :: "OperatorConfig \<Rightarrow> env" where
  "env_of d = [''FINALITY_GADGET_NAME'' \<mapsto> ServiceName (oCommon d),
     ''FINALITY_GADGET_PRODUCTION'' \<mapsto> (if Production (oCommon d) then ''true'' else ''false''),
     ''FINALITY_GADGET_LAYER2_ETH_RPC_URL'' \<mapsto> EthRpcUrl (oLayer2 d),
     ''FINALITY_GADGET_LAYER2_CHAIN_ID'' \<mapsto> show_u64 (ChainId (oLayer2 d)),
     ''FINALITY_GADGET_DB_FILE_PATH'' \<mapsto> DBFilePath (FinalityGadgetCfg (oBabylon d)),
     ''FINALITY_GADGET_BABYLON_CHAINID'' \<mapsto> BBNChainID (FinalityGadgetCfg (oBabylon d)),
     ''FINALITY_GADGET_BABYLON_RPC_ADDR'' \<mapsto> BBNRPCAddress (FinalityGadgetCfg (oBabylon d)),
     ''FINALITY_GADGET_METRICS_HOST'' \<mapsto> Host (oMetricsConfig d),
     ''FINALITY_GADGET_METRICS_PORT'' \<mapsto> show_int (sint (Port (oMetricsConfig d))),
     ''FINALITY_PROVIDER_HOME_PATH'' \<mapsto> FinalityProviderHomePath d,
     ''FINALITY_PROVIDER_BTC_PK'' \<mapsto> BtcPk d]"

lemma env_of_str:
  "env_of d ''FINALITY_GADGET_NAME'' = Some (ServiceName (oCommon d))"
  "env_of d ''FINALITY_GADGET_PRODUCTION'' = Some (if Production (oCommon d) then ''true'' else ''false'')"
  "env_of d ''FINALITY_GADGET_LAYER2_ETH_RPC_URL'' = Some (EthRpcUrl (oLayer2 d))"
  "env_of d ''FINALITY_GADGET_LAYER2_CHAIN_ID'' = Some (show_u64 (ChainId (oLayer2 d)))"
  "env_of d ''FINALITY_GADGET_DB_FILE_PATH'' = Some (DBFilePath (FinalityGadgetCfg (oBabylon d)))"
  "env_of d ''FINALITY_GADGET_BABYLON_CHAINID'' = Some (BBNChainID (FinalityGadgetCfg (oBabylon d)))"
  "env_of d ''FINALITY_GADGET_BABYLON_RPC_ADDR'' = Some (BBNRPCAddress (FinalityGadgetCfg (oBabylon d)))"
  "env_of d ''FINALITY_GADGET_METRICS_HOST'' = Some (Host (oMetricsConfig d))"
  "env_of d ''FINALITY_GADGET_METRICS_PORT'' = Some (show_int (sint (Port (oMetricsConfig d))))"
  "env_of d ''FINALITY_PROVIDER_HOME_PATH'' = Some (FinalityProviderHomePath d)"
  "env_of d ''FINALITY_PROVIDER_BTC_PK'' = Some (BtcPk d)"
  by (simp_all add: env_of_def)

lemma show_int_not_Nil [simp]: "show_int i \<noteq> []"
  by (simp add: show_int_def)

lemma Atoi_show_sint: "Atoi (show_int (sint p)) = Inr (sint p)" for p :: i64
  using sint_ge [of p] sint_lt [of p] by (simp add: Atoi_show_int atoi_result_def)

text \<open>
  (C30) From a configuration to an environment and back: when the variables are written from the fields of one
  configuration (texts not empty, the chain id below \<open>2 ^ 63\<close>, the port any signed number), overriding any other
  configuration succeeds and gives exactly these fields back, the flag and the numbers included, and leaves the
  fields that no variable names as they were.
\<close>

theorem config_env_roundtrip:
  assumes "unat (ChainId (oLayer2 d)) < 2 ^ 63"
    and "[] \<notin> set [ServiceName (oCommon d), EthRpcUrl (oLayer2 d), DBFilePath (FinalityGadgetCfg (oBabylon d)),
      BBNChainID (FinalityGadgetCfg (oBabylon d)), BBNRPCAddress (FinalityGadgetCfg (oBabylon d)), Host (oMetricsConfig d),
      FinalityProviderHomePath d, BtcPk d]"
  shows "operator_WithEnv (env_of d) c = Inr (c\<lparr>
     oCommon := (oCommon c)\<lparr>ServiceName := ServiceName (oCommon d), Production := Production (oCommon d)\<rparr>,
     oLayer2 := (oLayer2 c)\<lparr>EthRpcUrl := EthRpcUrl (oLayer2 d), ChainId := ChainId (oLayer2 d)\<rparr>,
     oBabylon := (oBabylon c)\<lparr>FinalityGadgetCfg := (FinalityGadgetCfg (oBabylon c))\<lparr>
       BBNChainID := BBNChainID (FinalityGadgetCfg (oBabylon d)), BBNRPCAddress := BBNRPCAddress (FinalityGadgetCfg (oBabylon d)),
       DBFilePath := DBFilePath (FinalityGadgetCfg (oBabylon d))\<rparr>\<rparr>,
     oMetricsConfig := (oMetricsConfig c)\<lparr>Host := Host (oMetricsConfig d), Port := Port (oMetricsConfig d)\<rparr>,
     FinalityProviderHomePath := FinalityProviderHomePath d, BtcPk := BtcPk d\<rparr>)"
proof -
  have ne: "ServiceName (oCommon d) \<noteq> []" "EthRpcUrl (oLayer2 d) \<noteq> []" "DBFilePath (FinalityGadgetCfg (oBabylon d)) \<noteq> []"
      "BBNChainID (FinalityGadgetCfg (oBabylon d)) \<noteq> []" "BBNRPCAddress (FinalityGadgetCfg (oBabylon d)) \<noteq> []"
      "Host (oMetricsConfig d) \<noteq> []" "FinalityProviderHomePath d \<noteq> []" "BtcPk d \<noteq> []"
    using assms(2) by auto
  have "int (unat (ChainId (oLayer2 d))) < int (2 ^ 63)" using assms(1) by (simp only: of_nat_less_iff)
  moreover have "- (2 ^ 63) \<le> int n" for n by (rule order_trans [of _ 0]) simp_all
  ultimately have chain: "Atoi (show_u64 (ChainId (oLayer2 d))) = Inr (int (unat (ChainId (oLayer2 d))))"
    unfolding show_u64_def Atoi_show_nat atoi_result_def by (simp only: of_nat_power of_nat_numeral if_True simp_thms)
  have common: "common_WithEnv (env_of d) (oCommon c) =
      Inr ((oCommon c)\<lparr>ServiceName := ServiceName (oCommon d), Production := Production (oCommon d)\<rparr>)"
    by (simp add: common_WithEnv_def env_of_str ne)
  have layer2: "l2_WithEnv (env_of d) (oLayer2 c) =
      Inr ((oLayer2 c)\<lparr>EthRpcUrl := EthRpcUrl (oLayer2 d), ChainId := ChainId (oLayer2 d)\<rparr>)"
    by (simp add: l2_WithEnv_def env_of_str ne show_u64_def chain [unfolded show_u64_def])
  have met: "metrics_WithEnv (env_of d) (oMetricsConfig c) =
      Inr ((oMetricsConfig c)\<lparr>Host := Host (oMetricsConfig d), Port := Port (oMetricsConfig d)\<rparr>)"
    by (simp add: metrics_WithEnv_def LookupEnvStr_def LookupEnvUint64_def env_of_str ne Atoi_show_sint)
  show ?thesis
    by (simp add: operator_WithEnv_def common layer2 met babylon_WithEnv_def eots_WithEnv_def LookupEnvStr_def env_of_str ne)
qed

definition demo_deployed :: OperatorConfig where
  "demo_deployed = demo_operator\<lparr>oCommon := (oCommon demo_operator)\<lparr>ServiceName := ''blitz'', Production := True\<rparr>,
     oLayer2 := (oLayer2 demo_operator)\<lparr>ChainId := 42161\<rparr>,
     oBabylon := \<lparr>FinalityGadgetCfg = (FinalityGadgetCfg (oBabylon demo_operator))\<lparr>BBNChainID := ''bbn-1'', BBNRPCAddress := ''rpc'',
       DBFilePath := ''db''\<rparr>\<rparr>,
     FinalityProviderHomePath := ''home'', BtcPk := ''pk''\<rparr>"

theorem config_env_roundtrip_witness:
  "\<exists>c. operator_WithEnv (env_of demo_deployed) demo_operator = Inr c \<and> ChainId (oLayer2 c) = 42161 \<and>
     Production (oCommon c) \<and> Port (oMetricsConfig c) = 2112"
  using config_env_roundtrip [of demo_deployed demo_operator]
  by (simp add: demo_deployed_def demo_operator_def DefaultFpConfig_def)

end
