(* ===== verification/NetAddr.thy ===== *)
theory NetAddr
  imports EnvConfig
begin

text \<open>
  The address of the metrics server (metrics/config.go): \<open>Validate\<close> takes a host that
  \<open>net.ParseIP\<close> accepts and a port in range, and \<open>Address\<close> joins them with a colon. The
  parser of IP addresses is the one of Go's standard library, of which the code uses only whether it
  accepts; \<open>split_host_port\<close> is what listening on the address does with it.
\<close>

subsection \<open>IP addresses\<close>

fun split_on :: "char \<Rightarrow> string \<Rightarrow> string list" where
  "split_on d [] = [[]]"
| "split_on d (c # cs) = (if c = d then [] # split_on d cs
     else (case split_on d cs of f # fs \<Rightarrow> (c # f) # fs | [] \<Rightarrow> [[c]]))"

definition octet_ok :: "string \<Rightarrow> bool" where
  "octet_ok f = (all_digits f \<and> (length f = 1 \<or> hd f \<noteq> CHR ''0'') \<and> digits_val f \<le> 255)"

definition valid_v4 :: "string \<Rightarrow> bool" where
  "valid_v4 s = (let fs = split_on CHR ''.'' s in length fs = 4 \<and> list_all octet_ok fs)"

definition is_hex :: "char \<Rightarrow> bool" where
  "is_hex c = (let n = (of_char c :: nat) in
     is_digit c \<or> (97 \<le> n \<and> n \<le> 102) \<or> (65 \<le> n \<and> n \<le> 70))"

text \<open>
  The loop over the groups of an IPv6 address: \<open>i\<close> bytes are filled, and \<open>ellipsis\<close> tells
  whether a double colon has been seen.
\<close>

definition v6_end :: "nat \<Rightarrow> bool \<Rightarrow> string \<Rightarrow> bool" where
  "v6_end i ellipsis s = (s = [] \<and> (if i < 16 then ellipsis else \<not> ellipsis))"

function v6_loop :: "nat \<Rightarrow> bool \<Rightarrow> string \<Rightarrow> bool" where
  "v6_loop i ellipsis s =
     (if \<not> i < 16 then v6_end i ellipsis s
      else let off = length (takeWhile is_hex s); r = drop off s in
        if off > 4 \<or> off = 0 then False
        else if r \<noteq> [] \<and> hd r = CHR ''.'' then
          (ellipsis \<or> i = 12) \<and> i + 4 \<le> 16 \<and> valid_v4 s \<and> v6_end (i + 4) ellipsis []
        else if r = [] then v6_end (i + 2) ellipsis []
        else if hd r \<noteq> CHR '':'' \<or> tl r = [] then False
        else if hd (tl r) = CHR '':'' then
          \<not> ellipsis \<and> (if tl (tl r) = [] then v6_end (i + 2) True [] else v6_loop (i + 2) True (tl (tl r)))
        else v6_loop (i + 2) ellipsis (tl r))"
  by auto

termination by (relation "measure (\<lambda>(i, e, s). 16 - i)") auto

declare v6_loop.simps [simp del]

definition valid_v6 :: "string \<Rightarrow> bool" where
  "valid_v6 s =
     (if take 2 s = ''::'' then drop 2 s = [] \<or> v6_loop 0 True (drop 2 s) else v6_loop 0 False s)"

text \<open>\<open>net.ParseIP(s) != nil\<close>; an address with a zone is refused.\<close>

definition ParseIP_ok :: "string \<Rightarrow> bool" where
  "ParseIP_ok s = (CHR ''%'' \<notin> set s \<and> (case find (\<lambda>c. c = CHR ''.'' \<or> c = CHR '':'') s of
      None \<Rightarrow> False
    | Some c \<Rightarrow> if c = CHR ''.'' then valid_v4 s else valid_v6 s))"

subsection \<open>The configured address\<close>

definition Validate :: "MetricsConfig \<Rightarrow> unit res" where
  "Validate cfg =
     (if sint (Port cfg) < 0 \<or> sint (Port cfg) > 65535
        then Inl (EText (''invalid port: '' @ show_int (sint (Port cfg))))
      else if \<not> ParseIP_ok (Host cfg) then Inl (EText (''invalid host: '' @ Host cfg))
      else Inr ())"

definition Address :: "MetricsConfig \<Rightarrow> string res" where
  "Address cfg = rbind (Validate cfg) (\<lambda>_. Inr (Host cfg @ '':'' @ show_int (sint (Port cfg))))"

subsection \<open>Listening on an address\<close>

text \<open>
  \<open>net.SplitHostPort\<close>: the port follows the last colon; a host with colons has to be in brackets.
\<close>

definition until_last :: "char \<Rightarrow> string \<Rightarrow> string \<times> string" where
  "until_last d s = (let r = rev s in (rev (tl (dropWhile (\<lambda>c. c \<noteq> d) r)), rev (takeWhile (\<lambda>c. c \<noteq> d) r)))"

definition split_host_port :: "string \<Rightarrow> (string \<times> string) option" where
  "split_host_port hp =
     (if CHR '':'' \<notin> set hp then None
      else case until_last CHR '':'' hp of (before, port) \<Rightarrow>
        if hd hp = CHR ''['' then
          (let host = takeWhile (\<lambda>c. c \<noteq> CHR '']'') (tl hp) in
           if before = CHR ''['' # host @ '']'' \<and> CHR ''['' \<notin> set (host @ port) \<and> CHR '']'' \<notin> set port
           then Some (host, port) else None)
        else if CHR '':'' \<in> set before \<or> CHR ''['' \<in> set hp \<or> CHR '']'' \<in> set hp then None
        else Some (before, port))"

subsection \<open>What an accepted host looks like\<close>

lemma set_split_on: "c \<in> set s \<Longrightarrow> c = d \<or> (\<exists>f \<in> set (split_on d s). c \<in> set f)"
  by (induction s) (fastforce split: list.splits if_splits)+

lemma valid_v4_chars: "valid_v4 s \<Longrightarrow> c \<in> set s \<Longrightarrow> c = CHR ''.'' \<or> is_digit c"
  using set_split_on [of c s "CHR ''.''"]
  by (auto simp: valid_v4_def Let_def list_all_iff octet_ok_def all_digits_def)

lemma not_digit: "\<not> is_digit CHR '':''" "\<not> is_digit CHR ''[''" "\<not> is_digit CHR '']''"
  by (simp_all add: is_digit_def)

lemma valid_v4_plain:
  "valid_v4 s \<Longrightarrow> CHR '':'' \<notin> set s \<and> CHR ''['' \<notin> set s \<and> CHR '']'' \<notin> set s"
  using not_digit by (auto dest: valid_v4_chars)

lemma valid_v4_nonempty: "valid_v4 s \<Longrightarrow> s \<noteq> []"
  by (auto simp: valid_v4_def)

lemma show_int_plain:
  assumes "0 \<le> i" "c \<in> set (show_int i)"
  shows "is_digit c"
  using assms show_nat_digits [of "nat i"] by (auto simp: show_int_def all_digits_def list_all_iff)

lemma until_last_append:
  assumes "d \<notin> set t"
  shows "until_last d (s @ d # t) = (s, t)"
  using assms by (simp add: until_last_def Let_def takeWhile_append dropWhile_append)

lemma v6_loop_head: "v6_loop 0 e s \<Longrightarrow> s \<noteq> [] \<and> is_hex (hd s)"
  by (cases s) (auto simp: v6_loop.simps [of 0] Let_def split: if_splits)

lemma valid_v6_head: "valid_v6 s \<Longrightarrow> s \<noteq> [] \<and> (hd s = CHR '':'' \<or> is_hex (hd s))"
  by (cases s) (auto simp: valid_v6_def dest: v6_loop_head split: if_splits)

lemma bracket_not_hex: "\<not> is_hex CHR ''[''"
  by (simp add: is_hex_def is_digit_def)

lemma ParseIP_cases:
  assumes "ParseIP_ok s"
  shows "valid_v4 s \<or> (CHR '':'' \<in> set s \<and> valid_v6 s)"
proof -
  obtain c where c: "find (\<lambda>c. c = CHR ''.'' \<or> c = CHR '':'') s = Some c"
    using assms by (cases "find (\<lambda>c. c = CHR ''.'' \<or> c = CHR '':'') s") (auto simp: ParseIP_ok_def)
  then have "c \<in> set s" "c = CHR ''.'' \<or> c = CHR '':''"
    by (auto simp: find_Some_iff dest!: nth_mem)
  with c assms show ?thesis by (auto simp: ParseIP_ok_def)
qed

lemma Address_Inr:
  "Address cfg = Inr a \<longleftrightarrow>
   0 \<le> sint (Port cfg) \<and> sint (Port cfg) \<le> 65535 \<and> ParseIP_ok (Host cfg) \<and>
   a = Host cfg @ CHR '':'' # show_int (sint (Port cfg))"
  by (auto simp: Address_def Validate_def)

lemma split_address:
  assumes "h \<noteq> []" "hd h \<noteq> CHR ''[''" "CHR ''['' \<notin> set h" "CHR '']'' \<notin> set h" "0 \<le> i"
  shows "split_host_port (h @ CHR '':'' # show_int i) = (if CHR '':'' \<in> set h then None else Some (h, show_int i))"
proof -
  have plain: "CHR '':'' \<notin> set (show_int i)" "CHR ''['' \<notin> set (show_int i)" "CHR '']'' \<notin> set (show_int i)"
    using show_int_plain [OF assms(5)] not_digit by blast+
  with assms show ?thesis
    by (simp add: split_host_port_def until_last_append)
qed

lemma split_address_colon:
  assumes "h \<noteq> []" "hd h \<noteq> CHR ''[''" "CHR '':'' \<in> set h" "0 \<le> i"
  shows "split_host_port (h @ CHR '':'' # show_int i) = None"
proof -
  have plain: "CHR '':'' \<notin> set (show_int i)"
    using show_int_plain [OF assms(4)] not_digit by blast
  with assms show ?thesis
    by (simp add: split_host_port_def until_last_append)
qed

lemma Address_splits:
  assumes "Address cfg = Inr a"
  shows "0 \<le> sint (Port cfg) \<and> sint (Port cfg) \<le> 65535 \<and>
    (if CHR '':'' \<in> set (Host cfg) then valid_v6 (Host cfg) \<and> split_host_port a = None
     else valid_v4 (Host cfg) \<and> split_host_port a = Some (Host cfg, show_int (sint (Port cfg))))"
proof -
  let ?h = "Host cfg"
  from assms have port: "0 \<le> sint (Port cfg)" "sint (Port cfg) \<le> 65535" and ip: "ParseIP_ok ?h"
    and a: "a = ?h @ CHR '':'' # show_int (sint (Port cfg))"
    by (simp_all add: Address_Inr)
  show ?thesis
  proof (cases "CHR '':'' \<in> set ?h")
    case True
    with ParseIP_cases [OF ip] valid_v4_plain have v6: "valid_v6 ?h" by blast
    then have "?h \<noteq> []" "hd ?h \<noteq> CHR ''[''"
      using valid_v6_head [of ?h] bracket_not_hex by auto
    with split_address_colon [OF _ _ True port(1)] v6 port a True show ?thesis by simp
  next
    case False
    with ParseIP_cases [OF ip] have v4: "valid_v4 ?h" by blast
    then have "?h \<noteq> []" "CHR ''['' \<notin> set ?h" "CHR '']'' \<notin> set ?h"
      using valid_v4_nonempty valid_v4_plain by blast+
    moreover from this have "hd ?h \<noteq> CHR ''[''" by (metis hd_in_set)
    ultimately show ?thesis
      using split_address [OF _ _ _ _ port(1), of ?h] v4 port a False by simp
  qed
qed

subsection \<open>Properties\<close>

text \<open>
  (C35) The address of an accepted configuration: with an IPv4 host, listening splits it back into the
  host and the port; with an IPv6 host, which \<open>Validate\<close> accepts too, the host is not put in brackets,
  so the address has too many colons and cannot be listened on.
\<close>

theorem metrics_address_splits:
  assumes "Address cfg = Inr a"
  shows "0 \<le> sint (Port cfg) \<and> sint (Port cfg) \<le> 65535 \<and>
    (if CHR '':'' \<in> set (Host cfg) then valid_v6 (Host cfg) \<and> split_host_port a = None
     else valid_v4 (Host cfg) \<and> split_host_port a = Some (Host cfg, show_int (sint (Port cfg))))"
  by (rule Address_splits [OF assms])

lemma loopback_v4: "ParseIP_ok ''127.0.0.1''"
  by (simp add: ParseIP_ok_def valid_v4_def Let_def octet_ok_def all_digits_def is_digit_def digits_val_def)

lemma loopback_v6: "ParseIP_ok ''::1''"
  by (simp add: ParseIP_ok_def valid_v6_def v6_loop.simps Let_def is_hex_def is_digit_def v6_end_def)

theorem metrics_address_splits_witness:
  "split_host_port (''::1'' @ CHR '':'' # show_int 2112) = None \<and>
   split_host_port (''127.0.0.1'' @ CHR '':'' # show_int 2112) = Some (''127.0.0.1'', show_int 2112)"
proof
  have v6: "Address (DefaultFpConfig\<lparr>Host := ''::1''\<rparr>) = Inr (''::1'' @ CHR '':'' # show_int 2112)"
    using loopback_v6 by (simp add: Address_Inr DefaultFpConfig_def)
  show "split_host_port (''::1'' @ CHR '':'' # show_int 2112) = None"
    using metrics_address_splits [OF v6] by (simp add: DefaultFpConfig_def)
  have v4: "Address DefaultFpConfig = Inr (''127.0.0.1'' @ CHR '':'' # show_int 2112)"
    using loopback_v4 by (simp add: Address_Inr DefaultFpConfig_def)
  show "split_host_port (''127.0.0.1'' @ CHR '':'' # show_int 2112) = Some (''127.0.0.1'', show_int 2112)"
    using metrics_address_splits [OF v4] by (simp add: DefaultFpConfig_def)
qed

end
