(* ===== verification/ServeMux.thy ===== *)
theory ServeMux
  imports NetAddr Resumption
begin

text \<open>
  \<open>net/http.ServeMux\<close> as metrics/server.go uses it: a request with a path that is not clean is
  redirected to the clean one, a clean path is looked up among the patterns, segment by segment and
  percent-decoded, and a path that no pattern matches is not found. Patterns are literal, with no method, host,
  wildcard or trailing slash, as the one of the code.
\<close>

subsection \<open>Clean paths\<close>

text \<open>The path of a list of segments; an empty last segment is a trailing slash.\<close>

definition rooted :: "string list \<Rightarrow> string" where
  "rooted fs = concat (map (\<lambda>f. CHR ''/'' # f) fs)"

definition proper :: "string \<Rightarrow> bool" where
  "proper f = (f \<noteq> '''' \<and> f \<noteq> ''.'' \<and> f \<noteq> ''..'')"

text \<open>Going along the segments from a directory, as \<open>path.Clean\<close>: above the root is the root.\<close>

fun walk :: "string list \<Rightarrow> string list \<Rightarrow> string list" where
  "walk ds [] = ds"
| "walk ds (f # fs) = walk (if f = ''..'' then butlast ds else if proper f then ds @ [f] else ds) fs"

text \<open>The mux puts a trailing slash back that \<open>path.Clean\<close> removes.\<close>

definition clean_path :: "string \<Rightarrow> string" where
  "clean_path p = (let fs = split_on CHR ''/'' p; ds = walk [] fs in
     rooted (if ds = [] \<or> last fs = '''' then ds @ [''''] else ds))"

definition is_clean :: "string \<Rightarrow> bool" where
  "is_clean p = (p \<noteq> [] \<and> hd p = CHR ''/'' \<and> (let fs = split_on CHR ''/'' (tl p) in
     list_all proper (butlast fs) \<and> (last fs = '''' \<or> proper (last fs))))"

lemma split_on_nonempty [simp]: "split_on d s \<noteq> []"
  by (induction s) (auto split: list.splits)

lemma split_on_append: "d \<notin> set f \<Longrightarrow> split_on d (f @ d # r) = f # split_on d r"
  by (induction f) auto

lemma split_on_single: "d \<notin> set f \<Longrightarrow> split_on d f = [f]"
  by (induction f) auto

lemma split_on_fields: "f \<in> set (split_on d s) \<Longrightarrow> d \<notin> set f"
  by (induction s arbitrary: f) (auto split: list.splits if_splits)

lemma rooted_simps [simp]:
  "rooted [] = []" "rooted (f # fs) = CHR ''/'' # f @ rooted fs" "rooted (fs @ gs) = rooted fs @ rooted gs"
  by (simp_all add: rooted_def)

lemma rooted_split [simp]: "rooted (split_on CHR ''/'' s) = CHR ''/'' # s"
  by (induction s) (auto split: list.splits)

lemma split_rooted:
  "list_all (\<lambda>f. CHR ''/'' \<notin> set f) fs \<Longrightarrow> fs \<noteq> [] \<Longrightarrow> split_on CHR ''/'' (tl (rooted fs)) = fs"
proof (induction fs)
  case (Cons f fs)
  show ?case
  proof (cases fs)
    case (Cons g gs)
    with Cons.IH Cons.prems have "split_on CHR ''/'' (tl (rooted fs)) = fs" by simp
    with Cons Cons.prems show ?thesis by (simp add: split_on_append)
  qed (use Cons.prems in \<open>simp add: split_on_single\<close>)
qed simp

lemma walk_append: "walk ds (fs @ gs) = walk (walk ds fs) gs"
  by (induction fs arbitrary: ds) auto

lemma walk_proper: "list_all proper fs \<Longrightarrow> walk ds fs = ds @ fs"
  by (induction fs arbitrary: ds) (auto simp: proper_def)

lemma walk_all_proper: "list_all proper ds \<Longrightarrow> list_all proper (walk ds fs)"
proof (induction fs arbitrary: ds)
  case (Cons f fs)
  then have "list_all proper (if f = ''..'' then butlast ds else if proper f then ds @ [f] else ds)"
    by (auto simp: list_all_iff dest: in_set_butlastD)
  from Cons.IH [OF this] show ?case by simp
qed simp

lemma walk_segments: "set (walk ds fs) \<subseteq> set ds \<union> set fs"
proof (induction fs arbitrary: ds)
  case (Cons f fs)
  have "set (if f = ''..'' then butlast ds else if proper f then ds @ [f] else ds) \<subseteq> set ds \<union> {f}"
    by (auto dest: in_set_butlastD)
  with Cons.IH show ?case by fastforce
qed simp

text \<open>Cleaning gives a clean path, and changes no path that is clean: a redirect leads to no other.\<close>

lemma clean_path_clean: "is_clean (clean_path p)"
proof -
  let ?fs = "split_on CHR ''/'' p"
  let ?ds = "walk [] ?fs"
  let ?gs = "if ?ds = [] \<or> last ?fs = '''' then ?ds @ [''''] else ?ds"
  have ds: "list_all proper ?ds" by (rule walk_all_proper) simp
  have "list_all (\<lambda>f. CHR ''/'' \<notin> set f) ?ds"
    using walk_segments [of "[]" ?fs] split_on_fields by (fastforce simp: list_all_iff)
  then have split: "split_on CHR ''/'' (tl (rooted ?gs)) = ?gs" by (intro split_rooted) auto
  have "rooted ?gs \<noteq> [] \<and> hd (rooted ?gs) = CHR ''/''" by (cases ?gs) (auto split: if_splits)
  moreover have "list_all proper (butlast ?gs) \<and> (last ?gs = '''' \<or> proper (last ?gs))"
    using ds by (auto simp: list_all_iff dest: in_set_butlastD)
  ultimately show ?thesis unfolding clean_path_def is_clean_def Let_def split by blast
qed

lemma clean_path_fixes:
  assumes "is_clean p"
  shows "clean_path p = p"
proof -
  obtain r where p: "p = CHR ''/'' # r" using assms by (cases p) (auto simp: is_clean_def)
  obtain bs l where r: "split_on CHR ''/'' r = bs @ [l]"
    using append_butlast_last_id [OF split_on_nonempty, of "CHR ''/''" r] by metis
  then have bs: "list_all proper bs" "l = '''' \<or> proper l"
    using assms by (simp_all add: is_clean_def p Let_def)
  have "walk [] (split_on CHR ''/'' p) = bs @ (if l = '''' then [] else [l])"
    using bs by (auto simp: p r walk_append walk_proper proper_def)
  with bs have "clean_path p = rooted (bs @ [l])"
    by (auto simp: clean_path_def Let_def p r proper_def)
  then show ?thesis unfolding r [symmetric] by (simp add: p)
qed

lemma clean_path_eq_iff: "clean_path p = p \<longleftrightarrow> is_clean p"
  using clean_path_clean [of p] clean_path_fixes [of p] by auto

subsection \<open>Patterns\<close>

text \<open>\<open>url.PathUnescape\<close>, and a segment as it is compared: one with a bad escape stays as it is.\<close>

definition hex_digit :: "char \<Rightarrow> nat" where
  "hex_digit c = (let n = of_char c in if n \<le> 57 then n - 48 else if n \<le> 70 then n - 55 else n - 87)"

fun path_unescape :: "string \<Rightarrow> string option" where
  "path_unescape [] = Some []"
| "path_unescape (c # s) = (if c \<noteq> CHR ''%'' then map_option (Cons c) (path_unescape s)
     else (case s of
         a # b # t \<Rightarrow> if is_hex a \<and> is_hex b
           then map_option (Cons (char_of (16 * hex_digit a + hex_digit b))) (path_unescape t) else None
       | _ \<Rightarrow> None))"

definition segment_name :: "string \<Rightarrow> string" where
  "segment_name s = (case path_unescape s of None \<Rightarrow> s | Some t \<Rightarrow> t)"

definition pattern_matches :: "string \<Rightarrow> string \<Rightarrow> bool" where
  "pattern_matches pattern p = (map segment_name (split_on CHR ''/'' p) = split_on CHR ''/'' pattern)"

lemma path_unescape_Nil: "path_unescape s = Some [] \<longleftrightarrow> s = []"
  by (cases s) (auto split: list.splits if_splits)

lemma segment_name_Nil [simp]: "segment_name s = [] \<longleftrightarrow> s = []"
  by (auto simp: segment_name_def path_unescape_Nil split: option.splits)

text \<open>A pattern of one segment matches the paths of one segment with that name.\<close>

lemma pattern_matches_one:
  assumes "CHR ''/'' \<notin> set n" "n \<noteq> []"
  shows "pattern_matches (CHR ''/'' # n) p \<longleftrightarrow>
    p \<noteq> [] \<and> hd p = CHR ''/'' \<and> CHR ''/'' \<notin> set (tl p) \<and> segment_name (tl p) = n"
proof
  assume m: "pattern_matches (CHR ''/'' # n) p"
  then obtain f g where fg: "split_on CHR ''/'' p = [f, g]" "f = []" "segment_name g = n"
    by (auto simp: pattern_matches_def split_on_single [OF assms(1)] map_eq_Cons_conv)
  then have "CHR ''/'' # p = CHR ''/'' # CHR ''/'' # g" using rooted_split [of p] by simp
  then have "p = CHR ''/'' # g" by simp
  moreover have "CHR ''/'' \<notin> set g" using split_on_fields [of g "CHR ''/''" p] fg(1) by simp
  ultimately show "p \<noteq> [] \<and> hd p = CHR ''/'' \<and> CHR ''/'' \<notin> set (tl p) \<and> segment_name (tl p) = n"
    using fg(3) by simp
next
  assume p: "p \<noteq> [] \<and> hd p = CHR ''/'' \<and> CHR ''/'' \<notin> set (tl p) \<and> segment_name (tl p) = n"
  then obtain g where "p = CHR ''/'' # g" by (cases p) auto
  with p assms show "pattern_matches (CHR ''/'' # n) p"
    by (simp add: pattern_matches_def split_on_single)
qed

subsection \<open>The mux\<close>

text \<open>
  A request: its method, the target as sent, the path of the URL as escaped, and the rest. The server
  itself answers \<open>OPTIONS *\<close>; the mux refuses other requests for \<open>*\<close>, and takes the path of a
  \<open>CONNECT\<close> as it is.
\<close>

record 'q http_request =
  hqMethod :: string
  hqURI :: string
  hqPath :: string
  hqRest :: 'q

datatype 'a mux_reply = OptionsReply | BadRequest | Redirected string | NotFound | Served 'a

type_synonym ('q, 's, 'a) mux = "(string \<times> ('q http_request \<Rightarrow> ('s, 'a) prog)) list"

definition mux_handle :: "string \<Rightarrow> ('q http_request \<Rightarrow> ('s, 'a) prog) \<Rightarrow> ('q, 's, 'a) mux \<Rightarrow> ('q, 's, 'a) mux" where
  "mux_handle pattern f m = m @ [(pattern, f)]"

definition serve_mux :: "('q, 's, 'a) mux \<Rightarrow> 'q http_request \<Rightarrow> ('s, 'a mux_reply) prog" where
  "serve_mux m r =
     (if hqURI r = ''*'' then Ret (if hqMethod r = ''OPTIONS'' then OptionsReply else BadRequest)
      else let p = (if hqMethod r = ''CONNECT'' then hqPath r else clean_path (hqPath r)) in
        if p \<noteq> hqPath r then Ret (Redirected p)
        else (case find (\<lambda>h. pattern_matches (fst h) p) m of
            None \<Rightarrow> Ret NotFound
          | Some h \<Rightarrow> bindP (snd h r) (\<lambda>a. Ret (Served a))))"

end
