(* ===== verification/MetricsServer.thy ===== *)
theory MetricsServer
  imports ServeMux HttpServer
begin

text \<open>
  The metrics server (metrics/server.go): \<open>Start\<close> spawns a goroutine that listens on the address and serves
  Prometheus' handler on one path, and ends the process when it cannot; \<open>Stop\<close> shuts the server down.
  Start, goroutine and stop interleave in any way, so \<open>Stop\<close> may come before the goroutine has listened.
  Requests are routed by the mux of theory ServeMux. Prometheus' handler and the binding of a host and port are
  parameters; \<open>ListenAndServe\<close> and
  \<open>Shutdown\<close> of the standard library are modelled as far as the code uses them.
\<close>

subsection \<open>The handler\<close>

definition metrics_handler ::
    "('q http_request \<Rightarrow> ('s, 'a) prog) \<Rightarrow> 'q http_request \<Rightarrow> ('s, 'a mux_reply) prog" where
  "metrics_handler promhttp = serve_mux (mux_handle ''/metrics'' promhttp [])"

text \<open>
  What the answer to a request may be. The mux is asked for the path as it is by a \<open>CONNECT\<close>, and only
  for a clean path by any other method.
\<close>

definition metrics_answer ::
    "('q http_request \<Rightarrow> 'a \<Rightarrow> bool) \<Rightarrow> 'q http_request \<Rightarrow> 'a mux_reply \<Rightarrow> bool" where
  "metrics_answer P r a =
     (if hqURI r = ''*'' then a = (if hqMethod r = ''OPTIONS'' then OptionsReply else BadRequest)
      else if hqMethod r \<noteq> ''CONNECT'' \<and> \<not> is_clean (hqPath r) then a = Redirected (clean_path (hqPath r)) \<and> is_clean (clean_path (hqPath r))
      else if hqPath r \<noteq> [] \<and> hd (hqPath r) = CHR ''/'' \<and> CHR ''/'' \<notin> set (tl (hqPath r)) \<and>
          segment_name (tl (hqPath r)) = ''metrics''
        then \<exists>b. a = Served b \<and> P r b
      else a = NotFound)"

subsection \<open>State and steps\<close>

text \<open>
  \<open>net.Listen\<close>: the address is split into host and port, and the system binds them or not.
\<close>

definition net_listen :: "(string \<Rightarrow> string \<Rightarrow> err option) \<Rightarrow> string \<Rightarrow> err option" where
  "net_listen bind addr = (case split_host_port addr of
      None \<Rightarrow> Some (EText (''listen tcp: address '' @ addr))
    | Some (h, p) \<Rightarrow> bind h p)"

text \<open>
  Where the goroutine is: before the check of \<open>ListenAndServe\<close> for a shutdown, before the listening,
  serving, returned, or having ended the process.
\<close>

datatype ms_phase = MsSpawned | MsListening | MsServing | MsReturned | MsFatal err

datatype ms_stop = NotStopped | Stopping | Stopped "err option"

record ('q, 's, 'a) metrics_server =
  msAddr :: string
  msSys :: 's
  msHttp :: "('q http_request, 's, 'a mux_reply) http_server"
  msPhase :: ms_phase
  msStop :: ms_stop

definition Start_metrics :: "string \<Rightarrow> 's \<Rightarrow> ('q, 's, 'a) metrics_server" where
  "Start_metrics addr s = \<lparr>msAddr = addr, msSys = s, msHttp = new_http, msPhase = MsSpawned, msStop = NotStopped\<rparr>"

text \<open>
  What the goroutine does with the error of \<open>ListenAndServe\<close>; \<open>None\<close> is \<open>http.ErrServerClosed\<close>,
  which is no failure.
\<close>

definition serve_returns :: "err option \<Rightarrow> ('q, 's, 'a) metrics_server \<Rightarrow> ('q, 's, 'a) metrics_server" where
  "serve_returns e s = s\<lparr>msPhase := (case e of None \<Rightarrow> MsReturned | Some e \<Rightarrow> MsFatal e)\<rparr>"

definition ms_dead :: "('q, 's, 'a) metrics_server \<Rightarrow> bool" where
  "ms_dead s = (case msPhase s of MsFatal _ \<Rightarrow> True | _ \<Rightarrow> False)"

text \<open>
  \<open>Stop\<close> in two sections. A permanent failure to accept ends the serving with an error, unless the server
  is being shut down.
\<close>

inductive ms_step :: "(string \<Rightarrow> string \<Rightarrow> err option) \<Rightarrow> ('q http_request \<Rightarrow> ('s, 'a) prog) \<Rightarrow>
    ('q, 's, 'a) metrics_server \<Rightarrow> ('q, 's, 'a) metrics_server \<Rightarrow> bool" for bind promhttp where
  ms_closed: "msPhase s = MsSpawned \<Longrightarrow> hsInShutdown (msHttp s) \<Longrightarrow> ms_step bind promhttp s (serve_returns None s)"
| ms_check: "msPhase s = MsSpawned \<Longrightarrow> \<not> hsInShutdown (msHttp s) \<Longrightarrow> ms_step bind promhttp s (s\<lparr>msPhase := MsListening\<rparr>)"
| ms_listen_fails: "msPhase s = MsListening \<Longrightarrow> net_listen bind (msAddr s) = Some e \<Longrightarrow>
     ms_step bind promhttp s (serve_returns (Some e) s)"
| ms_listen_late: "msPhase s = MsListening \<Longrightarrow> net_listen bind (msAddr s) = None \<Longrightarrow> hsInShutdown (msHttp s) \<Longrightarrow>
     ms_step bind promhttp s (serve_returns None s)"
| ms_listen: "msPhase s = MsListening \<Longrightarrow> net_listen bind (msAddr s) = None \<Longrightarrow> \<not> hsInShutdown (msHttp s) \<Longrightarrow>
     ms_step bind promhttp s (s\<lparr>msPhase := MsServing, msHttp := (msHttp s)\<lparr>hsListening := True\<rparr>\<rparr>)"
| ms_accept_fails: "msPhase s = MsServing \<Longrightarrow> \<not> hsInShutdown (msHttp s) \<Longrightarrow>
     ms_step bind promhttp s (serve_returns (Some e) s)"
| ms_serve_ends: "msPhase s = MsServing \<Longrightarrow> hsInShutdown (msHttp s) \<Longrightarrow> ms_step bind promhttp s (serve_returns None s)"
| ms_request: "\<not> ms_dead s \<Longrightarrow> http_step (metrics_handler promhttp) (msSys s, msHttp s) (sys, h) \<Longrightarrow>
     ms_step bind promhttp s (s\<lparr>msSys := sys, msHttp := h\<rparr>)"
| ms_stop: "\<not> ms_dead s \<Longrightarrow> msStop s = NotStopped \<Longrightarrow>
     ms_step bind promhttp s (s\<lparr>msStop := Stopping, msHttp := close_http (msHttp s)\<rparr>)"
| ms_stopped: "\<not> ms_dead s \<Longrightarrow> msStop s = Stopping \<Longrightarrow> drained (msHttp s) \<Longrightarrow>
     ms_step bind promhttp s (s\<lparr>msStop := Stopped e\<rparr>)"

subsection \<open>The invariant\<close>

text \<open>
  Listening means serving and not stopped; \<open>Stop\<close> is what shuts down; the process has been ended only by
  a listening that failed, or before \<open>Stop\<close>.
\<close>

definition ms_inv :: "(string \<Rightarrow> string \<Rightarrow> err option) \<Rightarrow> string \<Rightarrow> ('q, 's, 'a) metrics_server \<Rightarrow> bool" where
  "ms_inv bind addr s = (msAddr s = addr \<and> (hsInShutdown (msHttp s) \<longleftrightarrow> msStop s \<noteq> NotStopped) \<and>
     (hsListening (msHttp s) \<longrightarrow> msStop s = NotStopped) \<and>
     (msPhase s \<in> {MsSpawned, MsListening} \<longrightarrow> \<not> hsListening (msHttp s)) \<and>
     (net_listen bind addr \<noteq> None \<longrightarrow> hsConns (msHttp s) = [] \<and> \<not> hsListening (msHttp s) \<and> msPhase s \<noteq> MsServing) \<and>
     (case msPhase s of MsFatal e \<Rightarrow> net_listen bind addr = Some e \<or> msStop s = NotStopped
        | MsReturned \<Rightarrow> msStop s \<noteq> NotStopped | _ \<Rightarrow> True) \<and>
     (\<forall>e. msStop s = Stopped e \<longrightarrow> drained (msHttp s)))"

text \<open>A server that does not listen accepts nothing more.\<close>

lemma http_step_closed:
  "http_step handle cfg cfg' \<Longrightarrow> \<not> hsListening (snd cfg) \<Longrightarrow> hsConns (snd cfg) = [] \<or> drained (snd cfg) \<Longrightarrow> False"
  by (induction rule: http_step.induct) (auto simp: drained_def dest!: nth_mem)

lemma ms_step_inv: "ms_step bind promhttp s t \<Longrightarrow> ms_inv bind addr s \<Longrightarrow> ms_inv bind addr t"
proof (induction rule: ms_step.induct)
  case (ms_request s sys h)
  have "http_step (metrics_handler promhttp) (msSys s, msHttp s) (sys, h) \<Longrightarrow> hsListening h = hsListening (msHttp s) \<and>
      hsInShutdown h = hsInShutdown (msHttp s)" using http_step_flags by fastforce
  with ms_request http_step_closed [OF ms_request(2)] show ?case
    by (auto simp: ms_inv_def ms_dead_def split: ms_phase.splits)
qed (auto simp: ms_inv_def serve_returns_def ms_dead_def split: option.splits ms_phase.splits)

interpretation ms_machine: machine "ms_step bind promhttp" "ms_inv bind addr"
  by unfold_locales (rule ms_step_inv)

lemma ms_inv_start [simp]: "ms_inv bind addr (Start_metrics addr s)"
  by (simp add: ms_inv_def Start_metrics_def)

subsection \<open>Stopping\<close>

definition ms_stopping :: "('q, 's, 'a) metrics_server \<Rightarrow> bool" where
  "ms_stopping s = (\<not> ms_dead s \<and> msStop s \<noteq> NotStopped)"

definition ms_stopped_ok :: "('q, 's, 'a) metrics_server \<Rightarrow> bool" where
  "ms_stopped_ok s = (case msStop s of Stopped _ \<Rightarrow> True | _ \<Rightarrow> False)"

definition ms_rank :: "('q, 's, 'a) metrics_server \<Rightarrow> nat" where
  "ms_rank s = (case msStop s of Stopped _ \<Rightarrow> 0 | _ \<Rightarrow> Suc (running (msHttp s)))"

interpretation ms_host: http_host "ms_step bind promhttp" "metrics_handler promhttp" "\<lambda>s. (msSys s, msHttp s)"
    "\<lambda>c s. s\<lparr>msSys := fst c, msHttp := snd c\<rparr>" "\<lambda>s. \<not> ms_dead s"
  by unfold_locales (auto intro: ms_request simp: ms_dead_def)

lemma ms_progress_step:
  assumes "ms_stopping s" "\<not> ms_stopped_ok s"
  shows "\<exists>t. (ms_step bind promhttp)\<^sup>*\<^sup>* s t \<and> ms_stopping t \<and> ms_rank t < ms_rank s"
proof -
  have s: "\<not> ms_dead s" "msStop s = Stopping"
    using assms by (auto simp: ms_stopping_def ms_stopped_ok_def split: ms_stop.splits)
  show ?thesis
  proof (cases "drained (msHttp s)")
    case True
    with s have "ms_step bind promhttp s (s\<lparr>msStop := Stopped None\<rparr>)" by (intro ms_stopped)
    with s show ?thesis
      by (intro exI [where x = "s\<lparr>msStop := Stopped None\<rparr>"]) (auto simp: ms_stopping_def ms_rank_def ms_dead_def)
  next
    case False
    then obtain sys h where run: "(ms_step bind promhttp)\<^sup>*\<^sup>* s (s\<lparr>msSys := sys, msHttp := h\<rparr>)"
      "running h < running (msHttp s)"
      using ms_host.request_finishes [OF s(1), of bind promhttp] by auto
    with s show ?thesis
      by (intro exI [where x = "s\<lparr>msSys := sys, msHttp := h\<rparr>"]) (auto simp: ms_stopping_def ms_rank_def ms_dead_def)
  qed
qed

interpretation ms_progress: progress_machine "ms_step bind promhttp" "ms_inv bind addr" ms_stopping ms_stopped_ok ms_rank
  by unfold_locales (rule ms_progress_step)

lemma metrics_handler_safe:
  assumes "\<And>r. safe I G (P r) (promhttp r)"
  shows "safe I G (metrics_answer P r) (metrics_handler promhttp r)"
proof -
  have m: "pattern_matches ''/metrics'' p \<longleftrightarrow>
      p \<noteq> [] \<and> hd p = CHR ''/'' \<and> CHR ''/'' \<notin> set (tl p) \<and> segment_name (tl p) = ''metrics''" for p
    using pattern_matches_one [of "''metrics''" p] by simp
  have served: "safe I G (metrics_answer P r) (bindP (promhttp r) (\<lambda>a. Ret (Served a)))"
    if "hqURI r \<noteq> ''*''" "hqMethod r = ''CONNECT'' \<or> is_clean (hqPath r)" "hqPath r \<noteq> []" "hd (hqPath r) = CHR ''/''"
      "CHR ''/'' \<notin> set (tl (hqPath r))" "segment_name (tl (hqPath r)) = ''metrics''"
    by (rule safe_bindP [OF assms]) (use that in \<open>auto simp: metrics_answer_def\<close>)
  with clean_path_clean [of "hqPath r"] show ?thesis
    by (auto simp: metrics_handler_def serve_mux_def mux_handle_def m Let_def clean_path_eq_iff)
      (auto simp: metrics_answer_def)
qed

subsection \<open>Properties\<close>

text \<open>
  (C32) \<open>Stop\<close> of the metrics server, whenever it comes: from then on nothing is accepted, it can always
  return with every accepted request answered, and the process is not ended by the goroutine unless the
  listening itself fails. Of the requests that are answered, those for a path that is not clean are redirected
  to a clean one, those for the path of the metrics were answered by Prometheus' handler, and the others are not
  found; a \<open>CONNECT\<close> is never redirected, and \<open>*\<close> is no path.
\<close>

theorem metrics_stop_any_time:
  assumes "(ms_step bind promhttp)\<^sup>*\<^sup>* (Start_metrics addr s) t"
    and "\<And>r. safe I G (P r) (promhttp r)" "I s"
  shows "(msStop t \<noteq> NotStopped \<longrightarrow> \<not> hsListening (msHttp t) \<and>
      (\<forall>e. msPhase t = MsFatal e \<longrightarrow> net_listen bind addr = Some e) \<and>
      (ms_dead t \<or> (\<exists>u. (ms_step bind promhttp)\<^sup>*\<^sup>* t u \<and> ms_stopped_ok u \<and> drained (msHttp u)))) \<and>
    (\<forall>r a. Replied r a \<in> set (hsConns (msHttp t)) \<longrightarrow> metrics_answer P r a)"
proof -
  have t: "ms_inv bind addr t" by (rule ms_machine.run_inv [OF assms(1)]) simp
  have stop: "ms_dead t \<or> (\<exists>u. (ms_step bind promhttp)\<^sup>*\<^sup>* t u \<and> ms_stopped_ok u \<and> drained (msHttp u))"
    if stopped: "msStop t \<noteq> NotStopped"
  proof (cases "ms_dead t")
    case False
    with stopped obtain u where u: "(ms_step bind promhttp)\<^sup>*\<^sup>* t u" "ms_stopped_ok u"
      using ms_progress.reaches_goal [OF t] by (auto simp: ms_stopping_def)
    have "ms_inv bind addr u" by (rule ms_machine.run_inv [OF u(1) t])
    with u(2) have "drained (msHttp u)" by (auto simp: ms_inv_def ms_stopped_ok_def split: ms_stop.splits)
    with u show ?thesis by blast
  qed blast
  let ?Q = "metrics_answer P"
  have "http_ok I G ?Q (msSys t, msHttp t)"
  proof (rule ms_machine.run_keeps [OF assms(1) ms_inv_start])
    show "http_ok I G ?Q (msSys (Start_metrics addr s), msHttp (Start_metrics addr s))"
      using assms(3) by (simp add: http_ok_def Start_metrics_def)
    fix u v
    assume "ms_step bind promhttp u v" "http_ok I G ?Q (msSys u, msHttp u)"
    then show "http_ok I G ?Q (msSys v, msHttp v)"
    proof (induction rule: ms_step.induct)
      case (ms_request s sys h)
      from http_step_ok [OF ms_request(2) metrics_handler_safe [OF assms(2)] ms_request(3)] show ?case by simp
    qed (simp_all add: http_ok_def serve_returns_def)
  qed
  with t stop show ?thesis by (fastforce simp: ms_inv_def http_ok_def)
qed

text \<open>
  (C34) With an IPv6 host, which the configuration accepts, the metrics server never serves a request: unless it is
  stopped first, a schedule leads to its goroutine ending the process.
\<close>

theorem ipv6_metrics_never_serve:
  assumes "Address cfg = Inr addr" "CHR '':'' \<in> set (Host cfg)"
    and "(ms_step bind promhttp)\<^sup>*\<^sup>* (Start_metrics addr s) t"
  shows "hsConns (msHttp t) = [] \<and> msPhase t \<noteq> MsServing \<and>
    (msStop t = NotStopped \<longrightarrow> (\<exists>u e. (ms_step bind promhttp)\<^sup>*\<^sup>* t u \<and> msPhase u = MsFatal e))"
proof -
  let ?e = "EText (''listen tcp: address '' @ addr)"
  have fails: "net_listen bind addr = Some ?e"
    using Address_splits [OF assms(1)] assms(2) by (simp add: net_listen_def)
  have t: "ms_inv bind addr t" by (rule ms_machine.run_inv [OF assms(3)]) simp
  have listening: "(ms_step bind promhttp)\<^sup>*\<^sup>* u (serve_returns (Some ?e) u)"
    if "msPhase u = MsListening" "msAddr u = addr" for u
    using ms_listen_fails [OF that(1), of bind ?e promhttp] that(2) fails by auto
  have "\<exists>u e. (ms_step bind promhttp)\<^sup>*\<^sup>* t u \<and> msPhase u = MsFatal e" if go: "msStop t = NotStopped"
  proof (cases "msPhase t")
    case MsSpawned
    with t go have "ms_step bind promhttp t (t\<lparr>msPhase := MsListening\<rparr>)"
      by (intro ms_check) (auto simp: ms_inv_def)
    moreover have "(ms_step bind promhttp)\<^sup>*\<^sup>* (t\<lparr>msPhase := MsListening\<rparr>) (serve_returns (Some ?e) (t\<lparr>msPhase := MsListening\<rparr>))"
      using t by (intro listening) (simp_all add: ms_inv_def)
    ultimately have "(ms_step bind promhttp)\<^sup>*\<^sup>* t (serve_returns (Some ?e) (t\<lparr>msPhase := MsListening\<rparr>))"
      by (rule converse_rtranclp_into_rtranclp)
    then show ?thesis by (intro exI conjI) (assumption, simp add: serve_returns_def)
  next
    case MsListening
    with t have "(ms_step bind promhttp)\<^sup>*\<^sup>* t (serve_returns (Some ?e) t)"
      by (intro listening) (simp_all add: ms_inv_def)
    then show ?thesis by (intro exI conjI) (assumption, simp add: serve_returns_def)
  next
    case (MsFatal e)
    then show ?thesis by blast
  qed (use t go fails in \<open>simp_all add: ms_inv_def\<close>)
  with t fails show ?thesis by (simp add: ms_inv_def)
qed

subsection \<open>Concrete servers\<close>

text \<open>Prometheus' handler counts the scrapes; every host and port can be bound.\<close>

definition count_scrapes :: "unit http_request \<Rightarrow> (nat, nat) prog" where
  "count_scrapes r = actP (\<lambda>n. (n, Suc n))"

definition demo_metrics :: "(unit, nat, nat) metrics_server" where
  "demo_metrics = Start_metrics ''127.0.0.1:2112'' 0"

text \<open>It is stopped while it answers a scrape.\<close>

definition demo_scrape :: "unit http_request" where
  "demo_scrape = \<lparr>hqMethod = ''GET'', hqURI = ''/metrics'', hqPath = ''/metrics'', hqRest = ()\<rparr>"

definition demo_stopped :: "(unit, nat, nat) metrics_server" where
  "demo_stopped = demo_metrics\<lparr>msPhase := MsServing, msStop := Stopping, msHttp := \<lparr>hsListening = False, hsInShutdown = True,
     hsConns = [Active demo_scrape (metrics_handler count_scrapes demo_scrape)]\<rparr>\<rparr>"

lemma demo_stopped_reach: "(ms_step (\<lambda>h p. None) count_scrapes)\<^sup>*\<^sup>* demo_metrics demo_stopped"
proof -
  let ?step = "ms_step (\<lambda>h p. None) count_scrapes :: (unit, nat, nat) metrics_server \<Rightarrow> _"
  let ?listening = "demo_metrics\<lparr>msPhase := MsListening\<rparr>"
  let ?serving = "demo_metrics\<lparr>msPhase := MsServing, msHttp := new_http\<lparr>hsListening := True\<rparr>\<rparr>"
  let ?h = "new_http\<lparr>hsListening := True, hsConns := [Active demo_scrape (metrics_handler count_scrapes demo_scrape)]\<rparr>"
  let ?busy = "demo_metrics\<lparr>msPhase := MsServing, msHttp := ?h\<rparr>"
  have "?step demo_metrics ?listening"
    using ms_check [of demo_metrics "\<lambda>h p. None" count_scrapes] by (simp add: demo_metrics_def Start_metrics_def)
  moreover have "?step ?listening ?serving"
    using ms_listen [of ?listening "\<lambda>h p. None" count_scrapes]
    by (simp add: demo_metrics_def Start_metrics_def net_listen_def split_host_port_def until_last_def)
  moreover have "?step ?serving ?busy"
    using ms_request [of ?serving count_scrapes 0 ?h "\<lambda>h p. None"] http_accept [of "new_http\<lparr>hsListening := True\<rparr>"
        "metrics_handler count_scrapes" 0 demo_scrape]
    by (simp add: demo_metrics_def Start_metrics_def ms_dead_def)
  moreover have "?step ?busy demo_stopped"
    using ms_stop [of ?busy "\<lambda>h p. None" count_scrapes]
    by (simp add: demo_metrics_def Start_metrics_def ms_dead_def demo_stopped_def close_http_def new_http_def)
  ultimately show ?thesis by (meson rtranclp.rtrancl_into_rtrancl rtranclp.rtrancl_refl)
qed

theorem metrics_stop_any_time_witness:
  "\<exists>u. (ms_step (\<lambda>h p. None) count_scrapes)\<^sup>*\<^sup>* demo_stopped u \<and> ms_stopped_ok u \<and> drained (msHttp u)"
proof -
  have "safe (\<lambda>_. True) (\<lambda>_ _. True) (\<lambda>_. True) (count_scrapes q)" for q
    by (simp add: count_scrapes_def actP_def)
  from metrics_stop_any_time [OF demo_stopped_reach [unfolded demo_metrics_def] this TrueI]
  show ?thesis by (simp add: demo_stopped_def ms_dead_def)
qed

theorem ipv6_metrics_never_serve_witness:
  "\<exists>u e. (ms_step (\<lambda>h p. None) count_scrapes)\<^sup>*\<^sup>* (Start_metrics (''::1'' @ CHR '':'' # show_int 2112) 0) u \<and> msPhase u = MsFatal e"
proof -
  have v6: "Address (DefaultFpConfig\<lparr>Host := ''::1''\<rparr>) = Inr (''::1'' @ CHR '':'' # show_int 2112)"
    using loopback_v6 by (simp add: Address_Inr DefaultFpConfig_def)
  have "CHR '':'' \<in> set (Host (DefaultFpConfig\<lparr>Host := ''::1''\<rparr>))" by simp
  from ipv6_metrics_never_serve [OF v6 this, where bind = "\<lambda>h p. None" and promhttp = count_scrapes and s = 0, OF rtranclp.rtrancl_refl]
  show ?thesis by (simp add: Start_metrics_def)
qed

end
