(* ===== verification/BlockHandler.thy ===== *)
theory BlockHandler
  imports Provider
begin

text \<open>
  \<open>L2BlockHandler\<close> (operator/block_handler.go): a ticker that fetches every block between the
  last one processed and the head and hands it to the registered processors. The handler is one
  goroutine; its loop is a sequence of events, a tick of \<open>fetchBlocks\<close> or a call of one of its
  setters. The client and the processors act on an outside world of any type.
\<close>

record 'w l2_calls =
  l2BlockNumber :: "'w \<Rightarrow> u64 res \<times> 'w"
  l2BlockByNumber :: "int \<Rightarrow> 'w \<Rightarrow> eth_block res \<times> 'w"

text \<open>\<open>IL2BlockProcesser\<close>: its one method, which may fail.\<close>

type_synonym 'w processer = "eth_block \<Rightarrow> 'w \<Rightarrow> err option \<times> 'w"

record 'w l2BlockHandler =
  latestBlockNumber :: u64
  latestBlockHash :: string
  blockInterval :: u64
  fetchBlockInterval :: int
  processers :: "(string, 'w processer) gomap"

record 'w bh_sys =
  bh_world :: 'w
  bh :: "'w l2BlockHandler"

definition zero_hash :: string where
  "zero_hash = ''0x'' @ replicate 64 CHR ''0''"

definition NewL2BlockHandler :: "'w l2BlockHandler" where
  "NewL2BlockHandler = \<lparr>latestBlockNumber = 0, latestBlockHash = zero_hash, blockInterval = 0,
     fetchBlockInterval = 0, processers = gm_empty\<rparr>"

definition AddProcesser :: "string \<Rightarrow> 'w processer \<Rightarrow> 'w bh_sys \<Rightarrow> 'w bh_sys" where
  "AddProcesser name p s = s\<lparr>bh := (bh s)\<lparr>processers := gm_put (processers (bh s)) name p\<rparr>\<rparr>"

definition setProcessedBlock :: "u64 \<Rightarrow> string \<Rightarrow> 'w bh_sys \<Rightarrow> 'w bh_sys" where
  "setProcessedBlock number hash s =
     s\<lparr>bh := (bh s)\<lparr>latestBlockNumber := number, latestBlockHash := hash\<rparr>\<rparr>"

definition WithLatestBlock :: "u64 \<Rightarrow> string \<Rightarrow> 'w bh_sys \<Rightarrow> 'w bh_sys" where
  "WithLatestBlock number hash s = setProcessedBlock number hash s"

text \<open>\<open>initialize\<close>: the default interval of one second, and a head query whose error is only logged.\<close>

definition initialize_handler :: "'w l2_calls \<Rightarrow> 'w bh_sys \<Rightarrow> 'w bh_sys" where
  "initialize_handler C s =
     (let h = bh s; t = s\<lparr>bh := (if fetchBlockInterval h = 0 then h\<lparr>fetchBlockInterval := 10 ^ 9\<rparr> else h)\<rparr>
      in t\<lparr>bh_world := snd (l2BlockNumber C (bh_world t))\<rparr>)"

text \<open>
  \<open>handleBlock\<close> runs every processor, whatever the others return; their errors are logged and
  it returns nil.
\<close>

definition handleBlock :: "eth_block \<Rightarrow> 'w bh_sys \<Rightarrow> unit res \<times> 'w bh_sys" where
  "handleBlock blk s =
     (Inr (), s\<lparr>bh_world := foldl (\<lambda>w (n, p). snd (p blk w)) (bh_world s) (gm_entries (processers (bh s)))\<rparr>)"

definition fetchBlock :: "'w l2_calls \<Rightarrow> u64 \<Rightarrow> 'w bh_sys \<Rightarrow> unit res \<times> 'w bh_sys" where
  "fetchBlock C number s = (case l2BlockByNumber C (sint number) (bh_world s) of
      (Inl e, w) \<Rightarrow> (Inl (EWrap (''failed to get l2 block by number '' @ show_u64 number) e), s\<lparr>bh_world := w\<rparr>)
    | (Inr blk, w) \<Rightarrow> (case handleBlock blk (s\<lparr>bh_world := w\<rparr>) of
          (Inl e, t) \<Rightarrow> (Inl (EWrap (''handle block '' @ show_u64 number @ '' failed'') e), t)
        | (Inr _, t) \<Rightarrow> (Inr (), setProcessedBlock number (eth_hash blk) t)))"

definition skipped :: "u64 \<Rightarrow> u64 \<Rightarrow> bool" where
  "skipped interval i = (interval > 1 \<and> i mod interval \<noteq> 0)"

lemma u64_succ: "i < cur \<Longrightarrow> unat (i + 1) = unat i + 1" for i cur :: u64
  using unsigned_less [of cur, where ?'a = nat] by (simp add: word_less_nat_alt unat_word_ariths)

function fetch_loop :: "'w l2_calls \<Rightarrow> u64 \<Rightarrow> u64 \<Rightarrow> 'w bh_sys \<Rightarrow> unit res \<times> 'w bh_sys" where
  "fetch_loop C i cur s =
     (if i < cur then
        if skipped (blockInterval (bh s)) i then fetch_loop C (i + 1) cur s
        else (case fetchBlock C i s of
            (Inl e, t) \<Rightarrow> (Inl (EWrap (''failed to fetch block '' @ show_u64 i) e), t)
          | (Inr _, t) \<Rightarrow> fetch_loop C (i + 1) cur t)
      else (Inr (), s))"
  by auto

termination
  by (relation "measure (\<lambda>(C, i, cur, s). unat cur - unat i)") (auto simp: u64_succ word_less_nat_alt)

declare fetch_loop.simps [simp del]

definition fetchBlocks :: "'w l2_calls \<Rightarrow> 'w bh_sys \<Rightarrow> unit res \<times> 'w bh_sys" where
  "fetchBlocks C s = (case l2BlockNumber C (bh_world s) of
      (Inl e, w) \<Rightarrow> (Inl (EWrap ''failed to get current block number'' e), s\<lparr>bh_world := w\<rparr>)
    | (Inr cur, w) \<Rightarrow>
        if cur \<le> latestBlockNumber (bh s) then (Inr (), s\<lparr>bh_world := w\<rparr>)
        else fetch_loop C (latestBlockNumber (bh s) + 1) cur (s\<lparr>bh_world := w\<rparr>))"

text \<open>
  The goroutine of \<open>Start\<close>: between its start and the end of its context, ticks (whose errors
  are logged) come in any number, and other goroutines may add processors.
\<close>

datatype 'w bh_event = Tick | Add string "'w processer"

fun bh_step :: "'w l2_calls \<Rightarrow> 'w bh_event \<Rightarrow> 'w bh_sys \<Rightarrow> 'w bh_sys" where
  "bh_step C Tick s = snd (fetchBlocks C s)"
| "bh_step C (Add name p) s = AddProcesser name p s"

definition run_handler :: "'w l2_calls \<Rightarrow> 'w bh_event list \<Rightarrow> 'w bh_sys \<Rightarrow> 'w bh_sys" where
  "run_handler C evs s = fold (bh_step C) evs (initialize_handler C s)"

subsection \<open>Which heights are delivered\<close>

text \<open>The heights after \<open>a\<close> up to \<open>b\<close> that the interval does not skip, in order.\<close>

definition due :: "u64 \<Rightarrow> nat \<Rightarrow> nat \<Rightarrow> nat list" where
  "due interval a b = filter (\<lambda>n. \<not> skipped interval (of_nat n)) [Suc a..<Suc b]"

lemma due_refl [simp]: "due itv a a = []"
  by (simp add: due_def)

lemma due_append: "a \<le> b \<Longrightarrow> b \<le> c \<Longrightarrow> due itv a b @ due itv b c = due itv a c"
  using upt_add_eq_append [of "Suc a" "Suc b" "c - b"] by (simp add: due_def flip: filter_append)

lemma due_Suc: "a \<le> b \<Longrightarrow> due itv a (Suc b) = due itv a b @ (if skipped itv (of_nat (Suc b)) then [] else [Suc b])"
  by (simp add: due_def)

lemma due_distinct: "distinct (due itv a b)"
  by (simp add: due_def)

lemma due_all: "itv \<le> 1 \<Longrightarrow> due itv a b = [Suc a..<Suc b]"
  by (simp add: due_def skipped_def not_less)

subsection \<open>Observing the processors\<close>

text \<open>
  \<open>seen w n\<close> reads off the world the blocks the processor \<open>n\<close> has been given; it may do
  anything else with them, and fail. The client's calls deliver nothing.
\<close>

definition observes :: "('w \<Rightarrow> string \<Rightarrow> eth_block list) \<Rightarrow> string \<Rightarrow> 'w processer \<Rightarrow> bool" where
  "observes seen n p = (\<forall>b w m. seen (snd (p b w)) m = (if m = n then seen w m @ [b] else seen w m))"

definition silent :: "('w \<Rightarrow> string \<Rightarrow> eth_block list) \<Rightarrow> 'w l2_calls \<Rightarrow> bool" where
  "silent seen C = (\<forall>w m. seen (snd (l2BlockNumber C w)) m = seen w m \<and>
     (\<forall>i. seen (snd (l2BlockByNumber C i w)) m = seen w m))"

text \<open>A height has one block: a call may fail, but never gives another one.\<close>

definition on_chain :: "'w l2_calls \<Rightarrow> (nat \<Rightarrow> eth_block) \<Rightarrow> bool" where
  "on_chain C chain = (\<forall>(h :: u64) w b. fst (l2BlockByNumber C (sint h) w) = Inr b \<longrightarrow> b = chain (unat h))"

definition observed :: "('w \<Rightarrow> string \<Rightarrow> eth_block list) \<Rightarrow> 'w bh_sys \<Rightarrow> bool" where
  "observed seen s = (\<forall>n p. gm_get (processers (bh s)) n = Some p \<longrightarrow> observes seen n p)"

lemma seen_fold:
  assumes "\<forall>(n, p) \<in> set es. observes seen n p" "distinct (map fst es)"
  shows "seen (foldl (\<lambda>w (n, p). snd (p b w)) w es) m = seen w m @ (if m \<in> fst ` set es then [b] else [])"
  using assms by (induction es arbitrary: w) (auto simp: observes_def image_iff)

lemma seen_handleBlock:
  assumes "observed seen s"
  shows "seen (bh_world (snd (handleBlock b s))) m =
    seen (bh_world s) m @ (if gm_get (processers (bh s)) m = None then [] else [b])"
proof -
  have "\<forall>(n, p) \<in> set (gm_entries (processers (bh s))). observes seen n p"
    using assms by (auto simp: observed_def gm_get_Some_iff)
  from seen_fold [OF this distinct_gm_entries] show ?thesis
    by (auto simp: handleBlock_def gm_get_entries map_of_eq_None_iff)
qed

subsection \<open>The loop\<close>

lemma handleBlock_keeps [simp]:
  "bh (snd (handleBlock b s)) = bh s" "fst (handleBlock b s) = Inr ()"
  by (simp_all add: handleBlock_def)

text \<open>One height: an error leaves the handler and what was delivered; otherwise the block is delivered to
  every processor and becomes the last one processed.\<close>

lemma fetchBlock_error:
  assumes "fetchBlock C i s = (Inl e, t)" "silent seen C"
  shows "bh t = bh s \<and> seen (bh_world t) m = seen (bh_world s) m"
  using assms unfolding fetchBlock_def silent_def
  by (auto simp: handleBlock_def split: prod.splits sum.splits) (metis snd_conv)

lemma fetchBlock_ok:
  assumes "fetchBlock C i s = (Inr u, t)" "silent seen C" "on_chain C chain" "observed seen s"
  shows "bh t = (bh s)\<lparr>latestBlockNumber := i, latestBlockHash := eth_hash (chain (unat i))\<rparr> \<and>
    seen (bh_world t) m =
      seen (bh_world s) m @ (if gm_get (processers (bh s)) m = None then [] else [chain (unat i)])"
proof -
  obtain r w where w: "l2BlockByNumber C (sint i) (bh_world s) = (r, w)" by fastforce
  show ?thesis
  proof (cases r)
    case (Inl e)
    with assms(1) w show ?thesis by (simp add: fetchBlock_def)
  next
    case (Inr blk)
    with assms(3) w have blk: "blk = chain (unat i)" unfolding on_chain_def by (metis fst_conv)
    have "seen w m = seen (bh_world s) m"
      using assms(2) w unfolding silent_def by (metis snd_conv)
    moreover have "observed seen (s\<lparr>bh_world := w\<rparr>)"
      using assms(4) by (simp add: observed_def)
    moreover have "t = setProcessedBlock i (eth_hash blk) (snd (handleBlock blk (s\<lparr>bh_world := w\<rparr>)))"
      using assms(1) w Inr by (auto simp: fetchBlock_def split: prod.splits sum.splits)
    ultimately show ?thesis
      using seen_handleBlock [of seen "s\<lparr>bh_world := w\<rparr>" blk m] blk by (simp add: setProcessedBlock_def)
  qed
qed

text \<open>
  What a run from state \<open>s\<close> to \<open>t\<close> has delivered to a registered processor: the due heights up to
  the new last one, in order.
\<close>

definition delivered :: "('w \<Rightarrow> string \<Rightarrow> eth_block list) \<Rightarrow> (nat \<Rightarrow> eth_block) \<Rightarrow> string \<Rightarrow> 'w bh_sys \<Rightarrow> 'w bh_sys \<Rightarrow> bool" where
  "delivered seen chain m s t =
     (let a = unat (latestBlockNumber (bh s)); b = unat (latestBlockNumber (bh t)) in
      a \<le> b \<and> seen (bh_world t) m = seen (bh_world s) m @ map chain (due (blockInterval (bh s)) a b))"

definition same_setup :: "'w bh_sys \<Rightarrow> 'w bh_sys \<Rightarrow> bool" where
  "same_setup s t = (blockInterval (bh t) = blockInterval (bh s) \<and> processers (bh t) = processers (bh s))"

lemma delivered_refl: "seen (bh_world t) m = seen (bh_world s) m \<Longrightarrow> bh t = bh s \<Longrightarrow> delivered seen chain m s t"
  by (simp add: delivered_def)

lemma delivered_trans:
  "delivered seen chain m s t \<Longrightarrow> delivered seen chain m t u \<Longrightarrow> blockInterval (bh t) = blockInterval (bh s) \<Longrightarrow>
   delivered seen chain m s u"
  using due_append [of "unat (latestBlockNumber (bh s))" "unat (latestBlockNumber (bh t))" "unat (latestBlockNumber (bh u))"
      "blockInterval (bh s)"]
  by (simp add: delivered_def Let_def) (simp flip: map_append)

lemma delivered_next:
  assumes "fetchBlock C i s = (Inr u, t)" "silent seen C" "on_chain C chain" "observed seen s"
    and "gm_get (processers (bh s)) m \<noteq> None"
    and "unat (latestBlockNumber (bh s)) < unat i"
    and "due (blockInterval (bh s)) (unat (latestBlockNumber (bh s))) (unat i - 1) = []"
    and "\<not> skipped (blockInterval (bh s)) i"
  shows "delivered seen chain m s t \<and> same_setup s t"
proof -
  have i: "unat i = Suc (unat i - 1)" using assms(6) by simp
  have "due (blockInterval (bh s)) (unat (latestBlockNumber (bh s))) (unat i) = [unat i]"
    using assms(6-8) due_Suc [of "unat (latestBlockNumber (bh s))" "unat i - 1" "blockInterval (bh s)"] by simp
  with fetchBlock_ok [OF assms(1-4)] assms(5,6) show ?thesis
    by (auto simp: delivered_def same_setup_def)
qed

lemma fetch_loop_delivers:
  assumes "silent seen C" "on_chain C chain"
  shows "observed seen s \<Longrightarrow> gm_get (processers (bh s)) m \<noteq> None \<Longrightarrow> unat (latestBlockNumber (bh s)) < unat i \<Longrightarrow>
    due (blockInterval (bh s)) (unat (latestBlockNumber (bh s))) (unat i - 1) = [] \<Longrightarrow>
    delivered seen chain m s (snd (fetch_loop C i cur s)) \<and> same_setup s (snd (fetch_loop C i cur s))"
  using assms
proof (induction C i cur s rule: fetch_loop.induct)
  case (1 C i cur s)
  let ?L = "unat (latestBlockNumber (bh s))"
  have succ: "unat (i + 1) - 1 = unat i" if "i < cur" using u64_succ [OF that] by simp
  have due_i: "due (blockInterval (bh s)) ?L (unat i) = (if skipped (blockInterval (bh s)) i then [] else [unat i])"
    using 1(5,6) due_Suc [of ?L "unat i - 1" "blockInterval (bh s)"] by simp
  show ?case
  proof (cases "i < cur")
    case False
    then show ?thesis by (simp add: fetch_loop.simps same_setup_def delivered_refl)
  next
    case lt: True
    show ?thesis
    proof (cases "skipped (blockInterval (bh s)) i")
      case True
      with 1(1) [OF lt True] 1(3-) lt succ due_i show ?thesis
        by (simp add: fetch_loop.simps [of C i] u64_succ)
    next
      case False
      obtain r t where rt: "fetchBlock C i s = (r, t)" by fastforce
      show ?thesis
      proof (cases r)
        case (Inl e)
        with fetchBlock_error [OF rt [unfolded Inl] 1(7)] lt False rt show ?thesis
          by (simp add: fetch_loop.simps [of C i] same_setup_def delivered_refl)
      next
        case (Inr u)
        note t = delivered_next [OF rt [unfolded Inr] 1(7,8,3,4,5,6) False]
        have latest: "latestBlockNumber (bh t) = i"
          using fetchBlock_ok [OF rt [unfolded Inr] 1(7,8,3)] by simp
        have obs: "observed seen t" "gm_get (processers (bh t)) m \<noteq> None"
          using t 1(3,4) by (auto simp: observed_def same_setup_def)
        have "delivered seen chain m t (snd (fetch_loop C (i + 1) cur t)) \<and> same_setup t (snd (fetch_loop C (i + 1) cur t))"
          using 1(2) [OF lt False rt [symmetric] Inr] obs latest succ [OF lt] u64_succ [OF lt] 1(7,8) by simp
        with t lt False rt Inr show ?thesis
          by (auto simp: fetch_loop.simps [of C i] same_setup_def intro: delivered_trans)
      qed
    qed
  qed
qed

text \<open>
  How the loop ends: with nothing due left below the head, or with an error that names the next due
  height, so the next tick starts there again.
\<close>

definition loop_end :: "'w l2_calls \<Rightarrow> u64 \<Rightarrow> u64 \<Rightarrow> unit res \<Rightarrow> u64 \<Rightarrow> bool" where
  "loop_end C itv cur r latest = (case r of
      Inr _ \<Rightarrow> latest < cur \<and> due itv (unat latest) (unat cur - 1) = []
    | Inl e \<Rightarrow> \<exists>h c v. latest < h \<and> h < cur \<and> due itv (unat latest) (unat h) = [unat h] \<and>
        fst (l2BlockByNumber C (sint h) v) = Inl c \<and>
        e = EWrap (''failed to fetch block '' @ show_u64 h) (EWrap (''failed to get l2 block by number '' @ show_u64 h) c))"

lemma fetchBlock_fails:
  assumes "fetchBlock C i s = (Inl e, t)"
  shows "\<exists>c. fst (l2BlockByNumber C (sint i) (bh_world s)) = Inl c \<and> e = EWrap (''failed to get l2 block by number '' @ show_u64 i) c"
  using assms by (auto simp: fetchBlock_def handleBlock_def split: prod.splits sum.splits)

lemma fetchBlock_latest:
  assumes "fetchBlock C i s = (r, t)"
  shows "blockInterval (bh t) = blockInterval (bh s) \<and>
    latestBlockNumber (bh t) = (case r of Inl _ \<Rightarrow> latestBlockNumber (bh s) | Inr _ \<Rightarrow> i)"
  using assms by (auto simp: fetchBlock_def setProcessedBlock_def handleBlock_def split: prod.splits sum.splits)

lemma fetch_loop_end:
  "latestBlockNumber (bh s) < i \<Longrightarrow> i \<le> cur \<Longrightarrow>
   due (blockInterval (bh s)) (unat (latestBlockNumber (bh s))) (unat i - 1) = [] \<Longrightarrow>
   loop_end C (blockInterval (bh s)) cur (fst (fetch_loop C i cur s)) (latestBlockNumber (bh (snd (fetch_loop C i cur s))))"
proof (induction C i cur s rule: fetch_loop.induct)
  case (1 C i cur s)
  let ?L = "latestBlockNumber (bh s)"
  have due_i: "due (blockInterval (bh s)) (unat ?L) (unat i) = (if skipped (blockInterval (bh s)) i then [] else [unat i])"
    using 1(3,5) due_Suc [of "unat ?L" "unat i - 1" "blockInterval (bh s)"] by (simp add: word_less_nat_alt)
  show ?case
  proof (cases "i < cur")
    case False
    with 1(3-5) show ?thesis by (simp add: fetch_loop.simps loop_end_def)
  next
    case lt: True
    have succ: "unat (i + 1) - 1 = unat i" "i + 1 \<le> cur" "?L < i + 1" "i < i + 1"
      using u64_succ [OF lt] lt 1(3) by (auto simp: word_less_nat_alt word_le_nat_alt)
    show ?thesis
    proof (cases "skipped (blockInterval (bh s)) i")
      case True
      with 1(1) [OF lt True] lt succ due_i show ?thesis by (simp add: fetch_loop.simps [of C i])
    next
      case False
      obtain r t where rt: "fetchBlock C i s = (r, t)" by fastforce
      note t = fetchBlock_latest [OF rt]
      show ?thesis
      proof (cases r)
        case (Inl e)
        obtain c where c: "fst (l2BlockByNumber C (sint i) (bh_world s)) = Inl c"
            "e = EWrap (''failed to get l2 block by number '' @ show_u64 i) c"
          using fetchBlock_fails [OF rt [unfolded Inl]] by blast
        from Inl lt False rt t have
            "fst (fetch_loop C i cur s) = Inl (EWrap (''failed to fetch block '' @ show_u64 i) e)"
            "latestBlockNumber (bh (snd (fetch_loop C i cur s))) = ?L"
          by (simp_all add: fetch_loop.simps [of C i])
        with c lt False 1(3) due_i show ?thesis by (auto simp: loop_end_def)
      next
        case (Inr u)
        have "loop_end C (blockInterval (bh t)) cur (fst (fetch_loop C (i + 1) cur t))
            (latestBlockNumber (bh (snd (fetch_loop C (i + 1) cur t))))"
          using t Inr succ by (intro 1(2) [OF lt False rt [symmetric] Inr]) auto
        with t lt False rt Inr show ?thesis by (simp add: fetch_loop.simps [of C i])
      qed
    qed
  qed
qed

subsection \<open>One tick and many\<close>

lemma start_after_latest:
  fixes latest cur :: u64
  assumes "latest < cur"
  shows "latest < latest + 1" "latest + 1 \<le> cur" "unat (latest + 1) - 1 = unat latest"
  using u64_succ [OF assms] assms by (auto simp: word_less_nat_alt word_le_nat_alt)

lemma fetchBlocks_delivers:
  assumes "silent seen C" "on_chain C chain" "observed seen s" "gm_get (processers (bh s)) m \<noteq> None"
  shows "delivered seen chain m s (snd (fetchBlocks C s)) \<and> same_setup s (snd (fetchBlocks C s))"
proof -
  obtain r w where w: "l2BlockNumber C (bh_world s) = (r, w)" by fastforce
  let ?s = "s\<lparr>bh_world := w\<rparr>"
  have seen: "seen w m = seen (bh_world s) m"
    using assms(1) w unfolding silent_def by (metis snd_conv)
  then have stay: "delivered seen chain m s ?s" "same_setup s ?s"
    by (simp_all add: delivered_refl same_setup_def)
  have "delivered seen chain m ?s (snd (fetch_loop C (latestBlockNumber (bh s) + 1) cur ?s)) \<and>
      same_setup ?s (snd (fetch_loop C (latestBlockNumber (bh s) + 1) cur ?s))" if "latestBlockNumber (bh s) < cur" for cur
    using assms(3,4) start_after_latest [OF that]
    by (intro fetch_loop_delivers [OF assms(1,2)]) (auto simp: observed_def word_less_nat_alt)
  with seen have "delivered seen chain m s (snd (fetch_loop C (latestBlockNumber (bh s) + 1) cur ?s)) \<and>
      same_setup s (snd (fetch_loop C (latestBlockNumber (bh s) + 1) cur ?s))" if "latestBlockNumber (bh s) < cur" for cur
    using that by (force simp: delivered_def same_setup_def)
  with w stay show ?thesis
    by (auto simp: fetchBlocks_def not_le split: sum.splits)
qed

text \<open>The hash kept beside the last block's number is the hash of that block.\<close>

definition hash_of_last :: "(nat \<Rightarrow> eth_block) \<Rightarrow> 'w bh_sys \<Rightarrow> 'w bh_sys \<Rightarrow> bool" where
  "hash_of_last chain s t = (latestBlockHash (bh t) = eth_hash (chain (unat (latestBlockNumber (bh t)))) \<or>
     latestBlockHash (bh t) = latestBlockHash (bh s) \<and> latestBlockNumber (bh t) = latestBlockNumber (bh s))"

lemma fetchBlock_hash:
  assumes "fetchBlock C i s = (r, t)" "on_chain C chain"
  shows "hash_of_last chain s t"
  using assms
  by (auto simp: fetchBlock_def setProcessedBlock_def handleBlock_def hash_of_last_def on_chain_def
      split: prod.splits sum.splits) (metis fst_conv)+

lemma fetch_loop_hash: "on_chain C chain \<Longrightarrow> hash_of_last chain s (snd (fetch_loop C i cur s))"
proof (induction C i cur s rule: fetch_loop.induct)
  case (1 C i cur s)
  obtain r t where rt: "fetchBlock C i s = (r, t)" by fastforce
  have t: "hash_of_last chain s t" by (rule fetchBlock_hash [OF rt 1(3)])
  show ?case
  proof (cases "i < cur \<and> \<not> skipped (blockInterval (bh s)) i")
    case False
    with 1 show ?thesis by (auto simp: fetch_loop.simps [of C i] hash_of_last_def)
  next
    case True
    show ?thesis
    proof (cases r)
      case (Inl e)
      with True rt t show ?thesis by (simp add: fetch_loop.simps [of C i])
    next
      case (Inr u)
      with True rt 1(2) [OF _ _ rt [symmetric] Inr 1(3)] have "hash_of_last chain t (snd (fetch_loop C (i + 1) cur t))"
        by blast
      with True rt t Inr show ?thesis by (auto simp: fetch_loop.simps [of C i] hash_of_last_def)
    qed
  qed
qed

definition adds_observed :: "('w \<Rightarrow> string \<Rightarrow> eth_block list) \<Rightarrow> 'w bh_event list \<Rightarrow> bool" where
  "adds_observed seen evs = (\<forall>n p. Add n p \<in> set evs \<longrightarrow> observes seen n p)"

lemma steps_deliver:
  assumes "silent seen C" "on_chain C chain"
  shows "observed seen s \<Longrightarrow> gm_get (processers (bh s)) m \<noteq> None \<Longrightarrow> adds_observed seen evs \<Longrightarrow>
    delivered seen chain m s (fold (bh_step C) evs s)"
proof (induction evs arbitrary: s)
  case Nil
  then show ?case by (simp add: delivered_refl)
next
  case (Cons ev evs)
  have ev: "delivered seen chain m s (bh_step C ev s) \<and> observed seen (bh_step C ev s) \<and>
      gm_get (processers (bh (bh_step C ev s))) m \<noteq> None \<and> blockInterval (bh (bh_step C ev s)) = blockInterval (bh s)"
  proof (cases ev)
    case Tick
    with fetchBlocks_delivers [OF assms Cons.prems(1,2)] Cons.prems(1,2) show ?thesis
      by (auto simp: same_setup_def observed_def)
  next
    case (Add n p)
    with Cons.prems show ?thesis
      by (auto simp: AddProcesser_def observed_def adds_observed_def delivered_def)
  qed
  moreover have "adds_observed seen evs" using Cons.prems(3) by (simp add: adds_observed_def)
  ultimately show ?case using Cons.IH [of "bh_step C ev s"] by (auto intro: delivered_trans)
qed

subsection \<open>Properties\<close>

text \<open>A world that is the log of what was delivered, a processor that always fails, a fixed head.\<close>

type_synonym delivery_log = "(string \<times> eth_block) list"

definition log_seen :: "delivery_log \<Rightarrow> string \<Rightarrow> eth_block list" where
  "log_seen w n = map snd (filter (\<lambda>(m, b). m = n) w)"

definition failing_processer :: "string \<Rightarrow> delivery_log processer" where
  "failing_processer n b w = (Some (EText ''failed''), w @ [(n, b)])"

definition chain_at :: "nat \<Rightarrow> eth_block" where
  "chain_at n = \<lparr>eth_hash = replicate n CHR ''a'', eth_time = of_nat n, eth_number = of_nat n\<rparr>"

definition log_calls :: "u64 res \<Rightarrow> delivery_log l2_calls" where
  "log_calls cur = \<lparr>l2BlockNumber = (\<lambda>w. (cur, w)),
     l2BlockByNumber = (\<lambda>n w. (if n < 0 then Inl (EText ''not found'') else Inr (chain_at (nat n)), w))\<rparr>"

definition log_start :: "delivery_log bh_sys" where
  "log_start = AddProcesser ''p'' (failing_processer ''p'') \<lparr>bh_world = [], bh = NewL2BlockHandler\<rparr>"

lemma log_silent: "silent log_seen (log_calls cur)"
  by (simp add: silent_def log_calls_def)

lemma log_on_chain: "on_chain (log_calls cur) chain_at"
proof -
  have "uint h < 2 ^ 64" for h :: u64 using uint_lt2p [of h] by simp
  then show ?thesis by (auto simp: on_chain_def log_calls_def sint_u64 split: if_splits)
qed

lemma log_observes: "observes log_seen n (failing_processer n)"
  by (simp add: observes_def log_seen_def failing_processer_def)

lemma log_start_observed: "observed log_seen log_start" "gm_get (processers (bh log_start)) ''p'' \<noteq> None"
  by (auto simp: observed_def log_start_def AddProcesser_def NewL2BlockHandler_def log_observes split: if_splits)

text \<open>
  Every registered processor is given each due block exactly once and in order: after any number
  of ticks, with any heads, any failures of the client, any errors of this or other processors, and
  processors added in between, what it has been given since the start are the blocks of the due heights
  up to the last one processed, with no gap and no repetition.
\<close>

theorem blocks_delivered_once_in_order:
  assumes "silent seen C" "on_chain C chain" "observed seen s" "gm_get (processers (bh s)) m \<noteq> None"
    and "adds_observed seen evs"
  shows "latestBlockNumber (bh s) \<le> latestBlockNumber (bh (run_handler C evs s)) \<and>
    seen (bh_world (run_handler C evs s)) m = seen (bh_world s) m @
      map chain (due (blockInterval (bh s)) (unat (latestBlockNumber (bh s)))
                                            (unat (latestBlockNumber (bh (run_handler C evs s)))))"
proof -
  let ?i = "initialize_handler C s"
  have seen: "seen (bh_world ?i) m = seen (bh_world s) m"
    using assms(1) by (simp add: initialize_handler_def silent_def Let_def)
  have keep: "latestBlockNumber (bh ?i) = latestBlockNumber (bh s)" "blockInterval (bh ?i) = blockInterval (bh s)"
    "processers (bh ?i) = processers (bh s)"
    by (simp_all add: initialize_handler_def Let_def)
  have "delivered seen chain m ?i (run_handler C evs s)"
    unfolding run_handler_def using assms(3-5) keep
    by (intro steps_deliver [OF assms(1,2)]) (auto simp: observed_def)
  with seen keep show ?thesis by (simp add: delivered_def Let_def word_le_nat_alt)
qed

theorem blocks_delivered_once_in_order_witness:
  "log_seen (bh_world (run_handler (log_calls (Inr 4)) [Tick, Add ''q'' (failing_processer ''q''), Tick] log_start)) ''p'' =
   map chain_at (due 0 0 (unat (latestBlockNumber (bh
     (run_handler (log_calls (Inr 4)) [Tick, Add ''q'' (failing_processer ''q''), Tick] log_start)))))"
proof -
  have "adds_observed log_seen [Tick, Add ''q'' (failing_processer ''q''), Tick]"
    by (simp add: adds_observed_def log_observes)
  moreover have "log_seen (bh_world log_start) ''p'' = []" "blockInterval (bh log_start) = 0"
    "latestBlockNumber (bh log_start) = 0"
    by (simp_all add: log_start_def AddProcesser_def NewL2BlockHandler_def log_seen_def)
  ultimately show ?thesis
    using blocks_delivered_once_in_order [OF log_silent log_on_chain log_start_observed] by simp
qed

text \<open>
  (C17) One tick over a head above the last block processed. Every registered processor has been given the
  blocks of the due heights after the last block processed before and up to the last one now, each once and
  in order, and the hash kept with that number is the hash of that block. The tick succeeds only when these
  are all the due heights below the head; when it fails, its error carries an error the client answered for
  the next due height, which no processor has been given, so the next tick starts with it. An error of a
  processor never ends a tick.
\<close>

theorem tick_finishes_or_resumes:
  fixes latest' :: u64
  assumes "silent seen C" "on_chain C chain" "observed seen s" "gm_get (processers (bh s)) m \<noteq> None"
    and "l2BlockNumber C (bh_world s) = (Inr cur, w)" "latestBlockNumber (bh s) < cur"
    and "fetchBlocks C s = (r, t)" "latest' = latestBlockNumber (bh t)" "itv = blockInterval (bh s)"
  shows "latestBlockNumber (bh s) \<le> latest' \<and> latest' < cur \<and>
    seen (bh_world t) m = seen (bh_world s) m @ map chain (due itv (unat (latestBlockNumber (bh s))) (unat latest')) \<and>
    (latestBlockHash (bh t) = eth_hash (chain (unat latest')) \<or>
      latest' = latestBlockNumber (bh s) \<and> latestBlockHash (bh t) = latestBlockHash (bh s)) \<and>
    (case r of
       Inr _ \<Rightarrow> seen (bh_world t) m = seen (bh_world s) m @ map chain (due itv (unat (latestBlockNumber (bh s))) (unat cur - 1))
     | Inl e \<Rightarrow> (\<exists>h c v. latest' < h \<and> h < cur \<and> due itv (unat latest') (unat h) = [unat h] \<and>
         fst (l2BlockByNumber C (sint h) v) = Inl c \<and>
         e = EWrap (''failed to fetch block '' @ show_u64 h) (EWrap (''failed to get l2 block by number '' @ show_u64 h) c)))"
proof -
  let ?i = "latestBlockNumber (bh s) + 1" and ?s = "s\<lparr>bh_world := w\<rparr>"
  have loop: "fetch_loop C ?i cur ?s = (r, t)"
    using assms(5-7) by (simp add: fetchBlocks_def not_le [symmetric])
  have "loop_end C (blockInterval (bh ?s)) cur (fst (fetch_loop C ?i cur ?s))
      (latestBlockNumber (bh (snd (fetch_loop C ?i cur ?s))))"
    using start_after_latest [OF assms(6)] by (intro fetch_loop_end) simp_all
  with loop have fin: "loop_end C itv cur r latest'" by (simp add: assms(8,9))
  have "hash_of_last chain ?s t" using fetch_loop_hash [OF assms(2), of ?s ?i cur] loop by simp
  then have hash: "latestBlockHash (bh t) = eth_hash (chain (unat latest')) \<or>
      latest' = latestBlockNumber (bh s) \<and> latestBlockHash (bh t) = latestBlockHash (bh s)"
    by (auto simp: hash_of_last_def assms(8))
  have "delivered seen chain m s t" using fetchBlocks_delivers [OF assms(1-4)] assms(7) by simp
  then have given: "latestBlockNumber (bh s) \<le> latest'"
      "seen (bh_world t) m = seen (bh_world s) m @ map chain (due itv (unat (latestBlockNumber (bh s))) (unat latest'))"
    by (simp_all add: delivered_def Let_def assms(8,9) word_le_nat_alt)
  show ?thesis
  proof (cases r)
    case (Inl e)
    with fin hash given show ?thesis by (auto simp: loop_end_def)
  next
    case (Inr u)
    with fin have l: "latest' < cur" "due itv (unat latest') (unat cur - 1) = []" by (auto simp: loop_end_def)
    then have "due itv (unat (latestBlockNumber (bh s))) (unat cur - 1) = due itv (unat (latestBlockNumber (bh s))) (unat latest')"
      using due_append [of "unat (latestBlockNumber (bh s))" "unat latest'" "unat cur - 1" itv] given(1)
      by (simp add: word_less_nat_alt word_le_nat_alt)
    with l Inr hash given show ?thesis by simp
  qed
qed

text \<open>The head is 4 and the processor fails on every block: the tick succeeds and has given it the blocks 1 to 3.\<close>

lemma log_tick: "fst (fetchBlocks (log_calls (Inr 4)) log_start) = Inr ()"
  "latestBlockNumber (bh (snd (fetchBlocks (log_calls (Inr 4)) log_start))) = 3"
  by (simp_all add: fetchBlocks_def log_calls_def log_start_def AddProcesser_def NewL2BlockHandler_def
      fetch_loop.simps fetchBlock_def skipped_def handleBlock_def setProcessedBlock_def)

theorem tick_finishes_or_resumes_witness:
  "log_seen (bh_world (snd (fetchBlocks (log_calls (Inr 4)) log_start))) ''p'' = [chain_at 1, chain_at 2, chain_at 3]"
proof -
  have start: "l2BlockNumber (log_calls (Inr 4)) (bh_world log_start) = (Inr 4, bh_world log_start)"
    "latestBlockNumber (bh log_start) < 4" "latestBlockNumber (bh log_start) = 0" "blockInterval (bh log_start) = 0"
    "log_seen (bh_world log_start) ''p'' = []"
    by (simp_all add: log_calls_def log_start_def AddProcesser_def NewL2BlockHandler_def log_seen_def)
  have "due 0 0 3 = [1, 2, 3]" by (simp add: due_all upt_rec)
  then show ?thesis
    using tick_finishes_or_resumes [OF log_silent log_on_chain log_start_observed start(1,2)
        prod.collapse [symmetric] refl refl] log_tick start(3-5) by simp
qed

end
