(* ===== verification/HandlerConcurrency.thy ===== *)
theory HandlerConcurrency
  imports BlockHandler RelyGuarantee
begin

text \<open>
  The block handler's goroutine beside others that add processors at any time, also in the middle of a tick
  (operator/block_handler.go). \<open>handleBlock\<close> holds the read lock of the processors while it runs them all and
  \<open>AddProcesser\<close> takes the write lock, so each is one section; the lock is released before
  \<open>setProcessedBlock\<close>, which is a section of its own, as is each call of the client. The number and hash
  of the last block belong to the goroutine alone.
\<close>

subsection \<open>The goroutine in sections\<close>

text \<open>A call of the client is a section of its own.\<close>

definition clientP :: "('w \<Rightarrow> 'a res \<times> 'w) \<Rightarrow> ('w bh_sys, 'a res) prog" where
  "clientP f = actP (\<lambda>s. (fst (f (bh_world s)), s\<lparr>bh_world := snd (f (bh_world s))\<rparr>))"

definition fetchBlockP :: "'w l2_calls \<Rightarrow> u64 \<Rightarrow> ('w bh_sys, unit res) prog" where
  "fetchBlockP C number =
     bindP (clientP (l2BlockByNumber C (sint number))) (\<lambda>r. case r of
         Inl e \<Rightarrow> Ret (Inl (EWrap (''failed to get l2 block by number '' @ show_u64 number) e))
       | Inr blk \<Rightarrow> bindP (actP (handleBlock blk)) (\<lambda>r. case r of
             Inl e \<Rightarrow> Ret (Inl (EWrap (''handle block '' @ show_u64 number @ '' failed'') e))
           | Inr _ \<Rightarrow> bindP (modifyP (setProcessedBlock number (eth_hash blk))) (\<lambda>_. Ret (Inr ()))))"

text \<open>The loop over the heights from \<open>i\<close> on, of which \<open>n\<close> are left.\<close>

primrec fetch_loopP :: "'w l2_calls \<Rightarrow> nat \<Rightarrow> u64 \<Rightarrow> ('w bh_sys, unit res) prog" where
  "fetch_loopP C 0 i = Ret (Inr ())"
| "fetch_loopP C (Suc n) i = bindP (readP (\<lambda>s. skipped (blockInterval (bh s)) i)) (\<lambda>skip.
     if skip then fetch_loopP C n (i + 1)
     else bindP (fetchBlockP C i) (\<lambda>r. case r of
         Inl e \<Rightarrow> Ret (Inl (EWrap (''failed to fetch block '' @ show_u64 i) e))
       | Inr _ \<Rightarrow> fetch_loopP C n (i + 1)))"

definition fetchBlocksP :: "'w l2_calls \<Rightarrow> ('w bh_sys, unit res) prog" where
  "fetchBlocksP C =
     bindP (clientP (l2BlockNumber C)) (\<lambda>r. case r of
         Inl e \<Rightarrow> Ret (Inl (EWrap ''failed to get current block number'' e))
       | Inr cur \<Rightarrow> bindP (readP (\<lambda>s. latestBlockNumber (bh s))) (\<lambda>latest.
           if cur \<le> latest then Ret (Inr ())
           else fetch_loopP C (unat cur - unat (latest + 1)) (latest + 1)))"

text \<open>Any number of ticks, whose errors are logged; and a registration.\<close>

primrec ticksP :: "'w l2_calls \<Rightarrow> nat \<Rightarrow> ('w bh_sys, unit) prog" where
  "ticksP C 0 = Ret ()"
| "ticksP C (Suc n) = bindP (fetchBlocksP C) (\<lambda>_. ticksP C n)"

definition addP :: "string \<Rightarrow> 'w processer \<Rightarrow> ('w bh_sys, unit) prog" where
  "addP name p = modifyP (AddProcesser name p)"

subsection \<open>Alone it is the sequential tick\<close>

lemma run_fetchBlockP: "run (fetchBlockP C i) s = fetchBlock C i s"
  by (simp add: fetchBlockP_def fetchBlock_def clientP_def run_bindP split: prod.splits sum.splits)

lemma run_fetch_loopP: "n = unat cur - unat i \<Longrightarrow> run (fetch_loopP C n i) s = fetch_loop C i cur s"
proof (induction n arbitrary: i s)
  case 0
  then have "\<not> i < cur" by (simp add: word_less_nat_alt)
  then show ?case by (simp add: fetch_loop.simps)
next
  case (Suc n)
  then have lt: "i < cur" by (simp add: word_less_nat_alt)
  with Suc.prems have n: "n = unat cur - unat (i + 1)" by (simp add: u64_succ)
  from lt show ?case
    by (simp add: fetch_loop.simps [of C i cur s] run_bindP run_fetchBlockP Suc.IH [OF n] split: prod.splits sum.splits)
qed

lemma run_fetchBlocksP: "run (fetchBlocksP C) s = fetchBlocks C s"
  by (simp add: fetchBlocksP_def fetchBlocks_def clientP_def run_bindP run_fetch_loopP [OF refl] split: prod.splits sum.splits)

subsection \<open>What the others do, and what the goroutine does\<close>

text \<open>
  The others only register processors, which can be observed, and unregister none; every section of the
  goroutine continues what has been delivered to the processor \<open>m\<close>.
\<close>

definition registers :: "('w \<Rightarrow> string \<Rightarrow> eth_block list) \<Rightarrow> string \<Rightarrow> 'w bh_sys \<Rightarrow> 'w bh_sys \<Rightarrow> bool" where
  "registers seen m s t = ((\<exists>ps. t = s\<lparr>bh := (bh s)\<lparr>processers := ps\<rparr>\<rparr>) \<and> (observed seen s \<longrightarrow> observed seen t) \<and>
     (gm_get (processers (bh s)) m \<noteq> None \<longrightarrow> gm_get (processers (bh t)) m \<noteq> None))"

definition good :: "('w \<Rightarrow> string \<Rightarrow> eth_block list) \<Rightarrow> (nat \<Rightarrow> eth_block) \<Rightarrow> string \<Rightarrow> 'w bh_sys \<Rightarrow> 'w bh_sys \<Rightarrow> bool" where
  "good seen chain m s0 s = (delivered seen chain m s0 s \<and> observed seen s \<and> gm_get (processers (bh s)) m \<noteq> None \<and>
     blockInterval (bh s) = blockInterval (bh s0))"

text \<open>
  Between the delivery of the block at height \<open>i\<close> and \<open>setProcessedBlock\<close>: \<open>i\<close> is the one due
  height beyond the last block processed, and its block has been given.
\<close>

definition ahead :: "('w \<Rightarrow> string \<Rightarrow> eth_block list) \<Rightarrow> (nat \<Rightarrow> eth_block) \<Rightarrow> string \<Rightarrow> 'w bh_sys \<Rightarrow> u64 \<Rightarrow> 'w bh_sys \<Rightarrow> bool" where
  "ahead seen chain m s0 i s = (observed seen s \<and> gm_get (processers (bh s)) m \<noteq> None \<and>
     blockInterval (bh s) = blockInterval (bh s0) \<and>
     unat (latestBlockNumber (bh s0)) \<le> unat (latestBlockNumber (bh s)) \<and> unat (latestBlockNumber (bh s)) < unat i \<and>
     due (blockInterval (bh s0)) (unat (latestBlockNumber (bh s))) (unat i) = [unat i] \<and>
     seen (bh_world s) m = seen (bh_world s0) m @
       map chain (due (blockInterval (bh s0)) (unat (latestBlockNumber (bh s0))) (unat i)))"

definition continues :: "('w \<Rightarrow> string \<Rightarrow> eth_block list) \<Rightarrow> (nat \<Rightarrow> eth_block) \<Rightarrow> string \<Rightarrow> 'w bh_sys \<Rightarrow> 'w bh_sys \<Rightarrow> 'w bh_sys \<Rightarrow> bool" where
  "continues seen chain m s0 s t = (good seen chain m s0 s \<or> (\<exists>i. ahead seen chain m s0 i s) \<longrightarrow>
     good seen chain m s0 t \<or> (\<exists>i. ahead seen chain m s0 i t))"

text \<open>Before height \<open>i\<close>: nothing due is left between the last block and \<open>i\<close>.\<close>

definition next_height :: "('w \<Rightarrow> string \<Rightarrow> eth_block list) \<Rightarrow> (nat \<Rightarrow> eth_block) \<Rightarrow> string \<Rightarrow> 'w bh_sys \<Rightarrow> u64 \<Rightarrow> 'w bh_sys \<Rightarrow> bool" where
  "next_height seen chain m s0 i s = (good seen chain m s0 s \<and> unat (latestBlockNumber (bh s)) < unat i \<and>
     due (blockInterval (bh s0)) (unat (latestBlockNumber (bh s))) (unat i - 1) = [])"

lemma registers_refl: "registers seen m s s"
  by (auto simp: registers_def intro: exI [where x = "processers (bh s)"])

lemma registers_trans: "transp (registers seen m)"
  by (rule transpI) (auto simp: registers_def)

lemma registers_keeps:
  assumes "registers seen m s t"
  shows "bh_world t = bh_world s" "latestBlockNumber (bh t) = latestBlockNumber (bh s)"
    "blockInterval (bh t) = blockInterval (bh s)"
  using assms by (auto simp: registers_def)

lemma good_registers: "registers seen m s t \<Longrightarrow> good seen chain m s0 s \<Longrightarrow> good seen chain m s0 t"
  using registers_keeps [of seen m s t] by (auto simp: good_def delivered_def registers_def)

lemma stable_good: "stable (registers seen m) (good seen chain m s0)"
  by (auto simp: stable_def intro: good_registers)

lemma next_height_good [dest]: "next_height seen chain m s0 i s \<Longrightarrow> good seen chain m s0 s"
  by (simp add: next_height_def)

lemma ahead_registers: "registers seen m s t \<Longrightarrow> ahead seen chain m s0 i s \<Longrightarrow> ahead seen chain m s0 i t"
  using registers_keeps [of seen m s t] by (auto simp: ahead_def registers_def)

lemma stable_ahead: "stable (registers seen m) (ahead seen chain m s0 i)"
  by (auto simp: stable_def intro: ahead_registers)

lemma stable_next_height: "stable (registers seen m) (next_height seen chain m s0 i)"
  by (auto simp: stable_def next_height_def registers_keeps intro: good_registers)

lemma stable_conj: "stable R P \<Longrightarrow> stable R (\<lambda>s. P s \<and> b)"
  by (auto simp: stable_def)

lemma safe_addP:
  assumes "observes seen n p"
  shows "safe (\<lambda>_. True) (registers seen m) (\<lambda>_. True) (addP n p)"
  using assms by (auto simp: addP_def modifyP_def AddProcesser_def registers_def observed_def)

subsection \<open>The goroutine delivers\<close>

lemma good_world:
  "good seen chain m s0 s \<Longrightarrow> seen w m = seen (bh_world s) m \<Longrightarrow> good seen chain m s0 (s\<lparr>bh_world := w\<rparr>)"
  by (simp add: good_def delivered_def observed_def)

lemma next_height_world:
  "next_height seen chain m s0 i s \<Longrightarrow> seen w m = seen (bh_world s) m \<Longrightarrow> next_height seen chain m s0 i (s\<lparr>bh_world := w\<rparr>)"
  by (simp add: next_height_def good_world)

text \<open>The height is skipped, or its block is handled and becomes the last one.\<close>

lemma next_height_skip:
  assumes "next_height seen chain m s0 i s" "skipped (blockInterval (bh s0)) i" "unat (i + 1) = unat i + 1"
  shows "next_height seen chain m s0 (i + 1) s"
proof -
  let ?L = "unat (latestBlockNumber (bh s))"
  have L: "?L < unat i" "due (blockInterval (bh s0)) ?L (unat i - 1) = []"
    using assms(1) by (simp_all add: next_height_def)
  then have "due (blockInterval (bh s0)) ?L (unat i) = []"
    using assms(2) due_Suc [of ?L "unat i - 1" "blockInterval (bh s0)"] by simp
  with assms L show ?thesis by (simp add: next_height_def)
qed

lemma ahead_handle:
  assumes "next_height seen chain m s0 i s" "\<not> skipped (blockInterval (bh s0)) i"
  shows "ahead seen chain m s0 i (snd (handleBlock (chain (unat i)) s))"
proof -
  let ?t = "snd (handleBlock (chain (unat i)) s)" and ?itv = "blockInterval (bh s0)"
  let ?L = "unat (latestBlockNumber (bh s))" and ?M = "unat (latestBlockNumber (bh s0))"
  have g: "good seen chain m s0 s" and L: "?L < unat i" "due ?itv ?L (unat i - 1) = []"
    using assms(1) by (simp_all add: next_height_def)
  then have L0: "?M \<le> ?L" "seen (bh_world s) m = seen (bh_world s0) m @ map chain (due ?itv ?M ?L)"
    by (simp_all add: good_def delivered_def Let_def)
  have i: "due ?itv ?L (unat i) = [unat i]"
    using L assms(2) due_Suc [of ?L "unat i - 1" ?itv] by simp
  have "due ?itv ?M (unat i) = due ?itv ?M ?L @ [unat i]"
    using due_append [of ?M ?L "unat i" ?itv] L0(1) L(1) i by simp
  moreover have "seen (bh_world ?t) m = seen (bh_world s) m @ [chain (unat i)]"
    using seen_handleBlock [of seen s "chain (unat i)" m] g by (simp add: good_def)
  moreover have "observed seen ?t" using g by (simp add: good_def observed_def)
  ultimately show ?thesis using g L L0 i by (simp add: ahead_def good_def)
qed

lemma next_height_set:
  assumes "ahead seen chain m s0 i s" "unat (i + 1) = unat i + 1"
  shows "next_height seen chain m s0 (i + 1) (setProcessedBlock i h s)"
  using assms by (auto simp: ahead_def next_height_def good_def delivered_def setProcessedBlock_def observed_def)

text \<open>A call that delivers nothing keeps what is stable and does not depend on the world.\<close>

lemma rg_clientP:
  assumes "\<And>s. P s \<Longrightarrow> seen (snd (f (bh_world s))) m = seen (bh_world s) m"
    and "\<And>s w. P s \<Longrightarrow> seen w m = seen (bh_world s) m \<Longrightarrow> P (s\<lparr>bh_world := w\<rparr>)"
    and "\<And>s. P s \<Longrightarrow> good seen chain m s0 s" "stable (registers seen m) P" "\<And>w. B (fst (f w))"
  shows "rg (registers seen m) (continues seen chain m s0) (clientP f) P (\<lambda>r s. P s \<and> B r)"
  unfolding clientP_def using assms by (intro rg_actP stable_conj) (auto simp: continues_def)

text \<open>The sections that handle the block of a height that is not skipped and make it the last one.\<close>

definition finish_blockP :: "u64 \<Rightarrow> eth_block \<Rightarrow> ('w bh_sys, unit res) prog" where
  "finish_blockP number blk = bindP (actP (handleBlock blk)) (\<lambda>r. case r of
       Inl e \<Rightarrow> Ret (Inl (EWrap (''handle block '' @ show_u64 number @ '' failed'') e))
     | Inr _ \<Rightarrow> bindP (modifyP (setProcessedBlock number (eth_hash blk))) (\<lambda>_. Ret (Inr ())))"

lemma rg_finish_blockP:
  assumes i: "\<not> skipped (blockInterval (bh s0)) i" "unat (i + 1) = unat i + 1"
  shows "rg (registers seen m) (continues seen chain m s0) (finish_blockP i (chain (unat i)))
      (next_height seen chain m s0 i)
      (\<lambda>r. case r of Inl _ \<Rightarrow> good seen chain m s0 | Inr _ \<Rightarrow> next_height seen chain m s0 (i + 1))"
    (is "rg ?R ?G _ ?P ?Q")
proof -
  have set_last: "rg ?R ?G (modifyP (setProcessedBlock i h)) (ahead seen chain m s0 i)
      (\<lambda>_. next_height seen chain m s0 (i + 1))" for h
    unfolding modifyP_def by (rule rg_Act [where P' = "\<lambda>_. next_height seen chain m s0 (i + 1)"])
      (auto simp: stable_next_height continues_def intro: next_height_set [OF _ i(2)] next_height_good)
  have handle: "rg ?R ?G (actP (handleBlock (chain (unat i)))) ?P (\<lambda>r s. ahead seen chain m s0 i s \<and> r = Inr ())"
    by (rule rg_actP) (auto simp: stable_conj stable_ahead continues_def intro: ahead_handle [OF _ i(1)])
  show ?thesis
    unfolding finish_blockP_def
  proof (rule rg_bindP [OF handle])
    fix r :: "unit res"
    show "rg ?R ?G (case r of
          Inl e \<Rightarrow> Ret (Inl (EWrap (''handle block '' @ show_u64 i @ '' failed'') e))
        | Inr _ \<Rightarrow> bindP (modifyP (setProcessedBlock i (eth_hash (chain (unat i))))) (\<lambda>_. Ret (Inr ())))
        (\<lambda>s. ahead seen chain m s0 i s \<and> r = Inr ()) ?Q"
      by (cases r) (auto intro: rg_vacuous rg_bindP [OF rg_pre [OF set_last]])
  qed
qed

lemma rg_fetchBlockP:
  assumes C: "silent seen C" "on_chain C chain" and i: "\<not> skipped (blockInterval (bh s0)) i" "unat (i + 1) = unat i + 1"
  shows "rg (registers seen m) (continues seen chain m s0) (fetchBlockP C i) (next_height seen chain m s0 i)
    (\<lambda>r. case r of Inl _ \<Rightarrow> good seen chain m s0 | Inr _ \<Rightarrow> next_height seen chain m s0 (i + 1))"
proof -
  let ?Q = "\<lambda>r :: unit res. case r of Inl _ \<Rightarrow> good seen chain m s0 | Inr _ \<Rightarrow> next_height seen chain m s0 (i + 1)"
  let ?B = "\<lambda>r. \<forall>blk. r = Inr blk \<longrightarrow> blk = chain (unat i)"
  have call: "rg (registers seen m) (continues seen chain m s0) (clientP (l2BlockByNumber C (sint i)))
      (next_height seen chain m s0 i) (\<lambda>r s. next_height seen chain m s0 i s \<and> ?B r)"
  proof (rule rg_clientP)
    show "seen (snd (l2BlockByNumber C (sint i) (bh_world s))) m = seen (bh_world s) m" for s
      using C(1) by (simp add: silent_def)
    show "?B (fst (l2BlockByNumber C (sint i) w))" for w
      using C(2) by (simp add: on_chain_def)
  qed (simp_all add: next_height_world stable_next_height, simp add: next_height_def)
  show ?thesis
    unfolding fetchBlockP_def finish_blockP_def [symmetric]
  proof (rule rg_bindP [OF call])
    show "rg (registers seen m) (continues seen chain m s0) (case r of
        Inl e \<Rightarrow> Ret (Inl (EWrap (''failed to get l2 block by number '' @ show_u64 i) e))
      | Inr blk \<Rightarrow> finish_blockP i blk)
      (\<lambda>s. next_height seen chain m s0 i s \<and> ?B r) ?Q" for r
    proof (cases r)
      case (Inl e)
      then show ?thesis by (simp add: next_height_def)
    next
      case (Inr blk)
      show ?thesis
      proof (cases "blk = chain (unat i)")
        case True
        with Inr show ?thesis using rg_pre [OF rg_finish_blockP [OF i]] by simp
      next
        case False
        with Inr show ?thesis by (intro rg_vacuous) simp
      qed
    qed
  qed
qed

lemma rg_fetch_loopP:
  assumes C: "silent seen C" "on_chain C chain"
  shows "unat i + n < 2 ^ 64 \<Longrightarrow>
    rg (registers seen m) (continues seen chain m s0) (fetch_loopP C n i) (next_height seen chain m s0 i) (\<lambda>_. good seen chain m s0)"
proof (induction n arbitrary: i)
  case 0
  show ?case by (simp add: next_height_def)
next
  case (Suc n)
  then have i: "unat (i + 1) = unat i + 1" by (simp add: unat_word_ariths)
  then have rest: "rg (registers seen m) (continues seen chain m s0) (fetch_loopP C n (i + 1))
      (next_height seen chain m s0 (i + 1)) (\<lambda>_. good seen chain m s0)"
    using Suc by simp
  have read: "rg (registers seen m) (continues seen chain m s0) (readP (\<lambda>s. skipped (blockInterval (bh s)) i))
      (next_height seen chain m s0 i) (\<lambda>b s. next_height seen chain m s0 i s \<and> b = skipped (blockInterval (bh s0)) i)"
    by (rule rg_readP [OF _ stable_conj [OF stable_next_height]]) (auto simp: continues_def next_height_def good_def)
  show ?case
    unfolding fetch_loopP.simps
  proof (rule rg_bindP [OF read])
    let ?P = "\<lambda>b s. next_height seen chain m s0 i s \<and> b = skipped (blockInterval (bh s0)) i"
    let ?once = "bindP (fetchBlockP C i) (\<lambda>r. case r of
         Inl e \<Rightarrow> Ret (Inl (EWrap (''failed to fetch block '' @ show_u64 i) e))
       | Inr _ \<Rightarrow> fetch_loopP C n (i + 1))"
    show "rg (registers seen m) (continues seen chain m s0) (if b then fetch_loopP C n (i + 1) else ?once) (?P b)
        (\<lambda>_. good seen chain m s0)" for b
    proof (cases "b = skipped (blockInterval (bh s0)) i")
      case False
      then show ?thesis by (intro rg_vacuous) simp
    next
      case True
      show ?thesis
      proof (cases b)
        case True
        with \<open>b = _\<close> have "rg (registers seen m) (continues seen chain m s0) (fetch_loopP C n (i + 1)) (?P b)
            (\<lambda>_. good seen chain m s0)"
          by (intro rg_pre [OF rest]) (auto intro: next_height_skip [OF _ _ i])
        with True show ?thesis by simp
      next
        case False
        with \<open>b = _\<close> have "rg (registers seen m) (continues seen chain m s0) ?once (?P b) (\<lambda>_. good seen chain m s0)"
          by (intro rg_bindP [OF rg_pre [OF rg_fetchBlockP [OF C _ i]]]) (auto simp: rest split: sum.split)
        then show ?thesis unfolding if_not_P [OF False] .
      qed
    qed
  qed
qed

lemma rg_fetchBlocksP:
  assumes C: "silent seen C" "on_chain C chain"
  shows "rg (registers seen m) (continues seen chain m s0) (fetchBlocksP C) (good seen chain m s0) (\<lambda>_. good seen chain m s0)"
proof -
  have call: "rg (registers seen m) (continues seen chain m s0) (clientP (l2BlockNumber C)) (good seen chain m s0)
      (\<lambda>r s. good seen chain m s0 s \<and> True)"
    by (rule rg_clientP) (use C(1) in \<open>simp_all add: silent_def good_world stable_good\<close>)
  let ?P = "\<lambda>latest s. good seen chain m s0 s \<and> latestBlockNumber (bh s) = latest"
  have latest: "stable (registers seen m) (?P latest)" for latest
    by (auto simp: stable_def registers_keeps intro: good_registers)
  have read: "rg (registers seen m) (continues seen chain m s0) (readP (\<lambda>s. latestBlockNumber (bh s)))
      (\<lambda>s. good seen chain m s0 s \<and> True) ?P"
    by (rule rg_readP [OF _ latest]) (simp add: continues_def)
  have loop: "rg (registers seen m) (continues seen chain m s0)
      (fetch_loopP C (unat cur - unat (latest + 1)) (latest + 1)) (?P latest) (\<lambda>_. good seen chain m s0)"
    if "latest < cur" for latest cur
  proof (rule rg_pre [OF rg_fetch_loopP [OF C]])
    note start = start_after_latest [OF that]
    show "unat (latest + 1) + (unat cur - unat (latest + 1)) < 2 ^ 64"
      using start(2) unsigned_less [of cur, where ?'a = nat] by (simp add: word_le_nat_alt)
    show "next_height seen chain m s0 (latest + 1) s" if "?P latest s" for s
      using that start(1,3) by (auto simp: next_height_def word_less_nat_alt)
  qed
  show ?thesis
    unfolding fetchBlocksP_def
  proof (rule rg_bindP [OF call], goal_cases)
    case (1 r)
    show ?case
    proof (cases r)
      case (Inr cur)
      have "rg (registers seen m) (continues seen chain m s0)
          (if cur \<le> latest then Ret (Inr ()) else fetch_loopP C (unat cur - unat (latest + 1)) (latest + 1))
          (?P latest) (\<lambda>_. good seen chain m s0)" for latest
        using loop [of latest cur] by (auto simp: not_le)
      with Inr show ?thesis by (auto intro: rg_bindP [OF read, simplified])
    qed simp
  qed
qed

text \<open>The goroutine that \<open>Start\<close> starts: the initialization, then the ticks.\<close>

definition handlerP :: "'w l2_calls \<Rightarrow> nat \<Rightarrow> ('w bh_sys, unit) prog" where
  "handlerP C n = bindP (modifyP (initialize_handler C)) (\<lambda>_. ticksP C n)"

lemma rg_ticksP:
  assumes C: "silent seen C" "on_chain C chain"
  shows "rg (registers seen m) (continues seen chain m s0) (ticksP C n) (good seen chain m s0) (\<lambda>_. good seen chain m s0)"
  by (induction n) (auto intro!: rg_bindP [OF rg_fetchBlocksP [OF C]])

lemma good_initialize: "silent seen C \<Longrightarrow> good seen chain m s0 s \<Longrightarrow> good seen chain m s0 (initialize_handler C s)"
  by (auto simp: good_def initialize_handler_def Let_def silent_def delivered_def observed_def)

lemma rg_handlerP:
  assumes C: "silent seen C" "on_chain C chain"
  shows "rg (registers seen m) (continues seen chain m s0) (handlerP C n) (good seen chain m s0) (\<lambda>_. good seen chain m s0)"
proof -
  have "rg (registers seen m) (continues seen chain m s0) (modifyP (initialize_handler C)) (good seen chain m s0)
      (\<lambda>_. good seen chain m s0)"
    unfolding modifyP_def by (rule rg_Act [where P' = "\<lambda>_. good seen chain m s0"])
      (auto simp: continues_def stable_good good_initialize [OF C(1)])
  then show ?thesis unfolding handlerP_def by (rule rg_bindP) (rule rg_ticksP [OF C])
qed

lemma run_ticksP: "run (ticksP C n) s = ((), fold (bh_step C) (replicate n Tick) s)"
  by (induction n arbitrary: s) (simp_all add: run_bindP run_fetchBlocksP split: prod.splits)

subsection \<open>Properties\<close>

lemma handler_pool:
  assumes "silent seen C" "on_chain C chain" "observed seen s" "gm_get (processers (bh s)) m \<noteq> None"
    and "\<forall>(n, p) \<in> set adds. observes seen n p"
    and "pool_steps (s, handlerP C k # map (\<lambda>(n, p). addP n p) adds) (t, ps)"
  shows "(good seen chain m s t \<or> (\<exists>i. ahead seen chain m s i t)) \<and> (hd ps = Ret () \<longrightarrow> good seen chain m s t)"
proof -
  have start: "good seen chain m s s" using assms(3,4) by (simp add: good_def delivered_refl)
  have "\<forall>q \<in> set (map (\<lambda>(n, p). addP n p) adds). safe (\<lambda>_. True) (registers seen m) (\<lambda>_. True) q"
    using assms(5) safe_addP by fastforce
  with start have pool: "rg_pool (registers seen m) (continues seen chain m s) (\<lambda>_. good seen chain m s)
      (s, handlerP C k # map (\<lambda>(n, p). addP n p) adds)"
    unfolding rg_pool_def fst_conv snd_conv
    by (intro exI conjI) (rule refl, assumption, rule stable_good, rule rg_handlerP [OF assms(1,2)])
  have "rg_pool (registers seen m) (continues seen chain m s) (\<lambda>_. good seen chain m s) (t, ps) \<and>
      (good seen chain m s (fst (t, ps)) \<or> (\<exists>i. ahead seen chain m s i (fst (t, ps))))"
    by (rule rg_pool_steps [OF assms(6) pool registers_refl registers_trans])
      (use start in \<open>auto simp: continues_def intro: good_registers ahead_registers\<close>)
  then show ?thesis by (auto simp: rg_pool_def)
qed

text \<open>
  (C10) Blocks are delivered exactly once and in order, also while processors are added: the goroutine of
  \<open>Start\<close> runs any number of ticks, with any heads and any failures of the client, and in between any two
  of its sections, so also in the middle of a tick, other goroutines add processors. At every moment of every
  such schedule, what a processor registered before has been given are the blocks of the due heights after the
  last block processed at the start and up to some height, each once, in order and without a gap. That height
  is the last one processed now, or the one due height after it, whose block has been handled and is about to
  become the last one; and when the goroutine has returned it is the last one processed.
\<close>

theorem concurrent_delivery:
  assumes "silent seen C" "on_chain C chain" "observed seen s" "gm_get (processers (bh s)) m \<noteq> None"
    and "\<forall>(n, p) \<in> set adds. observes seen n p"
    and "pool_steps (s, handlerP C k # map (\<lambda>(n, p). addP n p) adds) (t, ps)"
  shows "\<exists>b :: u64. latestBlockNumber (bh s) \<le> latestBlockNumber (bh t) \<and> latestBlockNumber (bh t) \<le> b \<and>
    seen (bh_world t) m = seen (bh_world s) m @
      map chain (due (blockInterval (bh s)) (unat (latestBlockNumber (bh s))) (unat b)) \<and>
    (b = latestBlockNumber (bh t) \<or>
      due (blockInterval (bh s)) (unat (latestBlockNumber (bh t))) (unat b) = [unat b] \<and> hd ps \<noteq> Ret ())"
proof -
  note pool = handler_pool [OF assms]
  show ?thesis
  proof (cases "good seen chain m s t")
    case True
    then show ?thesis
      by (intro exI [of _ "latestBlockNumber (bh t)"]) (simp add: good_def delivered_def Let_def word_le_nat_alt)
  next
    case False
    with pool obtain i where "ahead seen chain m s i t" "hd ps \<noteq> Ret ()" by blast
    then show ?thesis by (intro exI [of _ i]) (simp add: ahead_def word_le_nat_alt)
  qed
qed

text \<open>A schedule for the witness: the processor \<open>q\<close> is added after the initialization, before the first tick.\<close>

definition demo_pool :: "(delivery_log bh_sys, unit) prog list" where
  "demo_pool = handlerP (log_calls (Inr 4)) 1 # map (\<lambda>(n, p). addP n p) [(''q'', failing_processer ''q'')]"

definition demo_mid :: "delivery_log bh_sys" where
  "demo_mid = AddProcesser ''q'' (failing_processer ''q'') (initialize_handler (log_calls (Inr 4)) log_start)"

lemma demo_schedule:
  "pool_steps (log_start, demo_pool) (snd (run (ticksP (log_calls (Inr 4)) 1) demo_mid),
     [Ret (), Ret ()])"
proof -
  let ?C = "log_calls (Inr 4)" and ?q = "addP ''q'' (failing_processer ''q'')"
  have "handlerP ?C 1 = Act (initialize_handler ?C) (\<lambda>_. ticksP ?C 1)"
    by (simp add: handlerP_def modifyP_def)
  then have "pool_step (log_start, demo_pool) (initialize_handler ?C log_start, demo_pool[0 := ticksP ?C 1])"
    by (intro pool_act) (simp_all add: demo_pool_def)
  then have "pool_steps (log_start, demo_pool) (initialize_handler ?C log_start, [ticksP ?C 1, ?q])"
    by (intro pool_trans [OF pool_refl]) (simp add: demo_pool_def)
  moreover have "pool_steps (initialize_handler ?C log_start, [ticksP ?C 1, ?q]) (demo_mid, [ticksP ?C 1, Ret ()])"
    using run_in_pool [of 1 "[ticksP ?C 1, ?q]" ?q "initialize_handler ?C log_start"]
    by (simp add: demo_mid_def addP_def)
  moreover have "pool_steps (demo_mid, [ticksP ?C 1, Ret ()]) (snd (run (ticksP ?C 1) demo_mid), [Ret (), Ret ()])"
    using run_in_pool [of 0 "[ticksP ?C 1, Ret ()]" "ticksP ?C 1" demo_mid] by simp
  ultimately show ?thesis by (blast intro: pool_steps_append)
qed

lemma demo_end: "latestBlockNumber (bh (snd (run (ticksP (log_calls (Inr 4)) 1) demo_mid))) = 3"
  by (simp add: run_ticksP del: ticksP.simps add: demo_mid_def initialize_handler_def fetchBlocks_def log_calls_def log_start_def AddProcesser_def
      NewL2BlockHandler_def fetch_loop.simps fetchBlock_def skipped_def handleBlock_def setProcessedBlock_def)

theorem concurrent_delivery_witness:
  "log_seen (bh_world (snd (run (ticksP (log_calls (Inr 4)) 1) demo_mid))) ''p'' = [chain_at 1, chain_at 2, chain_at 3]"
proof -
  have "log_seen (bh_world log_start) ''p'' = []" "blockInterval (bh log_start) = 0" "latestBlockNumber (bh log_start) = 0"
    by (simp_all add: log_start_def AddProcesser_def NewL2BlockHandler_def log_seen_def)
  moreover have "due 0 0 3 = [1, 2, 3]" by (simp add: due_all upt_rec)
  moreover have "\<forall>(n, p) \<in> set [(''q'', failing_processer ''q'')]. observes log_seen n p" by (simp add: log_observes)
  ultimately show ?thesis
    using concurrent_delivery [OF log_silent log_on_chain log_start_observed _ demo_schedule [unfolded demo_pool_def]] demo_end
    by auto
qed

text \<open>
  With nobody else at work, the goroutine of sections is the sequence of ticks: it returns, and in the state
  that the events of the sequential model lead to.
\<close>

lemma handler_alone_is_sequential:
  "run (handlerP C n) s = ((), run_handler C (replicate n Tick) s)"
  by (simp add: handlerP_def run_handler_def run_bindP run_ticksP)

end
