(* ===== verification/Controller.thy ===== *)
theory Controller
  imports EnvConfig
begin

text \<open>
  \<open>OrbitConsumerController\<close> (operator/fp/controllers/controller.go) and the balance gauge it
  feeds (metrics/fp_collectors.go). The rollup controller it embeds, the Babylon client, the database and
  the protobuf codec are not in the repository and are parameters. A \<open>float64\<close> is a value of a type
  \<open>'f\<close> with the two values the code makes: zero, and a 64-bit amount divided by a million.
\<close>

subsection \<open>Parameters\<close>

record ('w, 'f) babylon_calls =
  bcGetAddr :: "'w \<Rightarrow> string res \<times> 'w"
  bcMarshalRequest :: "string \<Rightarrow> string \<Rightarrow> string res"
  bcABCIQuery :: "string \<Rightarrow> string \<Rightarrow> 'w \<Rightarrow> string res \<times> 'w"
  bcUnmarshalBalance :: "string \<Rightarrow> int option res"
  bcIsRunning :: "'w \<Rightarrow> bool"
  bcStop :: "'w \<Rightarrow> unit res \<times> 'w"
  floatZero :: 'f
  floatMillionth :: "u64 \<Rightarrow> 'f"

record ('w, 'q, 't) rollup_calls =
  rcCommitPubRandList :: "'q \<Rightarrow> 'w \<Rightarrow> 't res \<times> 'w"
  rcSubmitBatchFinalitySigs :: "'q \<Rightarrow> 'w \<Rightarrow> 't res \<times> 'w"
  rcClose :: "'w \<Rightarrow> unit res \<times> 'w"

record 'w controller_deps =
  newRollupController :: "'w \<Rightarrow> unit res \<times> 'w"
  validateBabylonConfig :: "unit res"
  newBabylonClient :: "'w \<Rightarrow> unit res \<times> 'w"
  newBBoltHandler :: "string \<Rightarrow> 'w \<Rightarrow> unit res \<times> 'w"
  createInitialSchema :: "'w \<Rightarrow> unit res \<times> 'w"
  closeDB :: "'w \<Rightarrow> unit res \<times> 'w"

subsection \<open>State\<close>

text \<open>
  The controller, the gauge by address, and how many balance recordings have been spawned and have not
  run yet. \<open>l2Client\<close> is a pointer: \<open>None\<close> is nil.
\<close>

record 'h controller =
  l2Client :: "'h option"
  backHeightCount :: u64

record ('w, 'f, 'h) ctl_sys =
  ctl_world :: 'w
  balances :: "(string, 'f) gomap"
  pending :: nat
  ctl :: "'h controller"

text \<open>\<open>RecordFpBalance\<close>, and the registration of the gauge, done once per process.\<close>

definition RecordFpBalance :: "string \<Rightarrow> 'f \<Rightarrow> (string, 'f) gomap \<Rightarrow> (string, 'f) gomap" where
  "RecordFpBalance address balance g = gm_put g address balance"

definition NewFpMetrics :: "(string, 'f) gomap option \<Rightarrow> (string, 'f) gomap option" where
  "NewFpMetrics inst = (case inst of None \<Rightarrow> Some gm_empty | Some g \<Rightarrow> Some g)"

subsection \<open>The balance\<close>

text \<open>
  \<open>queryBalance\<close>: a balance missing from the answer is a nil pointer, and reading its amount panics;
  \<open>Uint64\<close> of an amount reads the low 64 bits of its absolute value.
\<close>

definition queryBalance :: "('w, 'f) babylon_calls \<Rightarrow> string \<Rightarrow> string \<Rightarrow> 'w \<Rightarrow> 'f res outcome \<times> 'w" where
  "queryBalance B address denom w = (case bcMarshalRequest B address denom of
      Inl e \<Rightarrow> (Returned (Inl (EWrap ''failed to marshal request'' e)), w)
    | Inr data \<Rightarrow> (case bcABCIQuery B ''/cosmos.bank.v1beta1.Query/Balance'' data w of
          (Inl e, w1) \<Rightarrow> (Returned (Inl (EWrap ''failed to query balance'' e)), w1)
        | (Inr val, w1) \<Rightarrow> (case bcUnmarshalBalance B val of
              Inl e \<Rightarrow> (Returned (Inl (EWrap ''failed to unmarshal balance response'' e)), w1)
            | Inr None \<Rightarrow> (Panicked ''nil balance'', w1)
            | Inr (Some amount) \<Rightarrow> (Returned (Inr (floatMillionth B (word_of_int \<bar>amount\<bar>))), w1))))"

text \<open>
  The body of the goroutine of \<open>recordFpBalance\<close>, under the metrics lock. A failed query is logged,
  and the zero it returned is recorded.
\<close>

definition record_balance :: "('w, 'f) babylon_calls \<Rightarrow> ('w, 'f, 'h) ctl_sys \<Rightarrow> ('w, 'f, 'h) ctl_sys outcome" where
  "record_balance B s = (case bcGetAddr B (ctl_world s) of
      (Inl e, w) \<Rightarrow> Returned (s\<lparr>ctl_world := w\<rparr>)
    | (Inr address, w) \<Rightarrow> (case queryBalance B address ''ubbn'' w of
          (Panicked m, _) \<Rightarrow> Panicked m
        | (Exited m, _) \<Rightarrow> Exited m
        | (Returned r, w1) \<Rightarrow>
            (let balance = (case r of Inl _ \<Rightarrow> floatZero B | Inr b \<Rightarrow> b)
             in Returned (s\<lparr>ctl_world := w1, balances := RecordFpBalance address balance (balances s)\<rparr>))))"

definition recordFpBalance :: "('w, 'f, 'h) ctl_sys \<Rightarrow> ('w, 'f, 'h) ctl_sys" where
  "recordFpBalance s = s\<lparr>pending := Suc (pending s)\<rparr>"

subsection \<open>The operations\<close>

definition after_inner :: "'t res \<times> 'w \<Rightarrow> ('w, 'f, 'h) ctl_sys \<Rightarrow> 't res \<times> ('w, 'f, 'h) ctl_sys" where
  "after_inner rw s = (case rw of
      (Inl e, w) \<Rightarrow> (Inl e, s\<lparr>ctl_world := w\<rparr>)
    | (Inr resp, w) \<Rightarrow> (Inr resp, recordFpBalance (s\<lparr>ctl_world := w\<rparr>)))"

definition CommitPubRandList ::
  "('w, 'q, 't) rollup_calls \<Rightarrow> 'q \<Rightarrow> ('w, 'f, 'h) ctl_sys \<Rightarrow> 't res \<times> ('w, 'f, 'h) ctl_sys" where
  "CommitPubRandList R req s = after_inner (rcCommitPubRandList R req (ctl_world s)) s"

definition SubmitBatchFinalitySigs ::
  "('w, 'q, 't) rollup_calls \<Rightarrow> 'q \<Rightarrow> ('w, 'f, 'h) ctl_sys \<Rightarrow> 't res \<times> ('w, 'f, 'h) ctl_sys" where
  "SubmitBatchFinalitySigs R req s = after_inner (rcSubmitBatchFinalitySigs R req (ctl_world s)) s"

text \<open>Closing the L2 client through a nil pointer panics.\<close>

definition Close_controller :: "('w, 'f) babylon_calls \<Rightarrow> ('w, 'q, 't) rollup_calls \<Rightarrow> ('h \<Rightarrow> 'w \<Rightarrow> 'w) \<Rightarrow>
    ('w, 'f, 'h) ctl_sys \<Rightarrow> unit res outcome \<times> 'w" where
  "Close_controller B R closeL2 s = (case l2Client (ctl s) of
      None \<Rightarrow> (Panicked ''nil pointer dereference'', ctl_world s)
    | Some h \<Rightarrow>
        (let w = closeL2 h (ctl_world s) in
         if bcIsRunning B w then
           (case bcStop B w of
              (Inl e, w1) \<Rightarrow> (Returned (Inl (EWrap ''failed to stop Babylon client'' e)), w1)
            | (Inr _, w1) \<Rightarrow> (case rcClose R w1 of (r, w2) \<Rightarrow> (Returned r, w2)))
         else (case rcClose R w of (r, w2) \<Rightarrow> (Returned r, w2))))"

text \<open>
  \<open>NewOrbitConsumerController\<close>: the database is opened only to create its schema and is closed when
  the constructor returns, an error of closing being logged; the goroutine it starts records a balance
  at once.
\<close>

definition NewOrbitConsumerController ::
  "'w controller_deps \<Rightarrow> string \<Rightarrow> u64 \<Rightarrow> 'w \<Rightarrow> ('w, 'f, 'h) ctl_sys res \<times> 'w" where
  "NewOrbitConsumerController D dbPath backHeight w = (case newRollupController D w of
      (Inl e, w1) \<Rightarrow> (Inl (EWrap ''failed to create rpc client for the consumer chain rollup'' e), w1)
    | (Inr _, w1) \<Rightarrow> (case validateBabylonConfig D of
          Inl e \<Rightarrow> (Inl (EWrap ''invalid config for Babylon client'' e), w1)
        | Inr _ \<Rightarrow> (case newBabylonClient D w1 of
              (Inl e, w2) \<Rightarrow> (Inl (EWrap ''failed to create Babylon client'' e), w2)
            | (Inr _, w2) \<Rightarrow> (case newBBoltHandler D dbPath w2 of
                  (Inl e, w3) \<Rightarrow> (Inl (EWrap ''failed to create DB handler'' e), w3)
                | (Inr _, w3) \<Rightarrow> (case createInitialSchema D w3 of
                      (Inl e, w4) \<Rightarrow> (Inl (EWrap ''create initial buckets error'' e), snd (closeDB D w4))
                    | (Inr _, w4) \<Rightarrow>
                        (let w5 = snd (closeDB D w4) in
                         (Inr (recordFpBalance \<lparr>ctl_world = w5, balances = gm_empty, pending = 0,
                            ctl = \<lparr>l2Client = None, backHeightCount = backHeight\<rparr>\<rparr>), w5)))))))"

text \<open>
  The life of a controller: calls of its operations, its ticker, and its spawned recordings, which run
  one at a time under the lock.
\<close>

inductive ctl_step :: "('w, 'f) babylon_calls \<Rightarrow> ('w, 'q, 't) rollup_calls \<Rightarrow>
    ('w, 'f, 'h) ctl_sys \<Rightarrow> ('w, 'f, 'h) ctl_sys \<Rightarrow> bool" for B R where
  ctl_commit: "ctl_step B R s (snd (CommitPubRandList R req s))"
| ctl_submit: "ctl_step B R s (snd (SubmitBatchFinalitySigs R req s))"
| ctl_ticker: "ctl_step B R s (recordFpBalance s)"
| ctl_record: "0 < pending s \<Longrightarrow> record_balance B (s\<lparr>pending := pending s - 1\<rparr>) = Returned t \<Longrightarrow> ctl_step B R s t"

inductive ctl_reach :: "('w, 'f) babylon_calls \<Rightarrow> ('w, 'q, 't) rollup_calls \<Rightarrow>
    ('w, 'f, 'h) ctl_sys \<Rightarrow> ('w, 'f, 'h) ctl_sys \<Rightarrow> bool" for B R s where
  reach_refl: "ctl_reach B R s s"
| reach_step: "ctl_reach B R s t \<Longrightarrow> ctl_step B R t u \<Longrightarrow> ctl_reach B R s u"

inductive_cases ctl_stepE: "ctl_step B R s t"

lemma after_inner_keeps: "ctl (snd (after_inner rw s)) = ctl s \<and> balances (snd (after_inner rw s)) = balances s"
  by (simp add: after_inner_def recordFpBalance_def split: prod.splits sum.splits)

lemma record_balance_keeps: "record_balance B s = Returned t \<Longrightarrow> ctl t = ctl s"
  by (auto simp: record_balance_def Let_def split: prod.splits sum.splits outcome.splits)

lemma ctl_step_keeps: "ctl_step B R s t \<Longrightarrow> ctl t = ctl s"
  by (erule ctl_stepE)
    (auto simp: CommitPubRandList_def SubmitBatchFinalitySigs_def after_inner_keeps recordFpBalance_def
      dest: record_balance_keeps)

lemma ctl_reach_keeps: "ctl_reach B R s t \<Longrightarrow> ctl t = ctl s"
  by (induction rule: ctl_reach.induct) (auto dest: ctl_step_keeps)

subsection \<open>Properties\<close>

definition demo_babylon :: "int option res \<Rightarrow> (nat, nat) babylon_calls" where
  "demo_babylon balance = \<lparr>bcGetAddr = (\<lambda>w. (Inr ''bbn1'', w)), bcMarshalRequest = (\<lambda>a d. Inr (a @ d)),
     bcABCIQuery = (\<lambda>p d w. (Inr d, Suc w)), bcUnmarshalBalance = (\<lambda>v. balance),
     bcIsRunning = (\<lambda>w. True), bcStop = (\<lambda>w. (Inr (), w)), floatZero = 0, floatMillionth = (\<lambda>n. unat n div 1000000)\<rparr>"

definition demo_rollup :: "(nat, string, string) rollup_calls" where
  "demo_rollup = \<lparr>rcCommitPubRandList = (\<lambda>q w. (Inr (''tx'' @ q), Suc w)),
     rcSubmitBatchFinalitySigs = (\<lambda>q w. (Inr (''tx'' @ q), Suc w)), rcClose = (\<lambda>w. (Inr (), w))\<rparr>"

definition demo_deps :: "nat controller_deps" where
  "demo_deps = \<lparr>newRollupController = (\<lambda>w. (Inr (), w)), validateBabylonConfig = Inr (),
     newBabylonClient = (\<lambda>w. (Inr (), w)), newBBoltHandler = (\<lambda>p w. (Inr (), w)),
     createInitialSchema = (\<lambda>w. (Inr (), w)), closeDB = (\<lambda>w. (Inr (), w))\<rparr>"

definition demo_ctl :: "(nat, nat, nat) ctl_sys" where
  "demo_ctl = \<lparr>ctl_world = 0, balances = gm_empty, pending = 1, ctl = \<lparr>l2Client = None, backHeightCount = 0\<rparr>\<rparr>"

lemma demo_controller: "NewOrbitConsumerController demo_deps ''db'' 0 0 = (Inr demo_ctl, 0)"
  by (simp add: NewOrbitConsumerController_def demo_deps_def demo_ctl_def recordFpBalance_def)

text \<open>
  (C38) A controller made by its constructor cannot be closed: nothing ever sets its L2 client, so after
  any operations, ticks and recordings \<open>Close\<close> panics before it stops the Babylon client or the rollup
  controller.
\<close>

theorem controller_close_panics:
  assumes "NewOrbitConsumerController D path back w = (Inr s, w')" "ctl_reach B R s t"
  shows "Close_controller B R closeL2 t = (Panicked ''nil pointer dereference'', ctl_world t)"
proof -
  have "l2Client (ctl s) = None"
    using assms(1)
    by (auto simp: NewOrbitConsumerController_def recordFpBalance_def Let_def split: prod.splits sum.splits)
  with ctl_reach_keeps [OF assms(2)] show ?thesis by (simp add: Close_controller_def)
qed

theorem controller_close_panics_witness:
  "Close_controller (demo_babylon (Inr (Some 5000000))) demo_rollup (\<lambda>h w. w)
     (snd (CommitPubRandList demo_rollup ''q'' demo_ctl)) = (Panicked ''nil pointer dereference'', 1)"
proof -
  have "ctl_reach (demo_babylon (Inr (Some 5000000))) demo_rollup demo_ctl (snd (CommitPubRandList demo_rollup ''q'' demo_ctl))"
    by (rule reach_step [OF reach_refl ctl_commit])
  from controller_close_panics [OF demo_controller this] show ?thesis
    by (simp add: CommitPubRandList_def after_inner_def demo_rollup_def recordFpBalance_def demo_ctl_def)
qed

text \<open>
  Commits and submissions return what the rollup controller returned, error or response; they spawn
  a recording exactly when it succeeded, and never write the gauge themselves.
\<close>

theorem operations_delegate:
  "fst (CommitPubRandList R req s) = fst (rcCommitPubRandList R req (ctl_world s)) \<and>
   fst (SubmitBatchFinalitySigs R req s) = fst (rcSubmitBatchFinalitySigs R req (ctl_world s)) \<and>
   pending (snd (CommitPubRandList R req s)) =
     pending s + (if is_ok (fst (rcCommitPubRandList R req (ctl_world s))) then 1 else 0) \<and>
   pending (snd (SubmitBatchFinalitySigs R req s)) =
     pending s + (if is_ok (fst (rcSubmitBatchFinalitySigs R req (ctl_world s))) then 1 else 0) \<and>
   balances (snd (CommitPubRandList R req s)) = balances s \<and>
   balances (snd (SubmitBatchFinalitySigs R req s)) = balances s"
  by (simp add: CommitPubRandList_def SubmitBatchFinalitySigs_def after_inner_def recordFpBalance_def
      split: prod.splits sum.splits)

text \<open>
  What the node says of an address in a world: the request is marshalled, the node answers it with a value,
  and the value holds an amount. The gauge shows that amount over a million, and zero where there is none.
\<close>

definition answered :: "('w, 'f) babylon_calls \<Rightarrow> string \<Rightarrow> 'w \<Rightarrow> int \<Rightarrow> bool" where
  "answered B a w n = (\<exists>data val w1. bcMarshalRequest B a ''ubbn'' = Inr data \<and>
     bcABCIQuery B ''/cosmos.bank.v1beta1.Query/Balance'' data w = (Inr val, w1) \<and> bcUnmarshalBalance B val = Inr (Some n))"

definition gauge_shows :: "('w, 'f) babylon_calls \<Rightarrow> string \<Rightarrow> 'w \<Rightarrow> 'f \<Rightarrow> bool" where
  "gauge_shows B a w v = (if \<exists>n. answered B a w n
     then \<exists>n. answered B a w n \<and> v = floatMillionth B (word_of_int \<bar>n\<bar>) else v = floatZero B)"

lemma queryBalance_shows:
  "queryBalance B a ''ubbn'' w = (Returned r, w1) \<Longrightarrow>
    gauge_shows B a w (case r of Inl _ \<Rightarrow> floatZero B | Inr b \<Rightarrow> b)"
  by (auto simp: queryBalance_def gauge_shows_def answered_def split: sum.splits prod.splits option.splits)

lemma record_balance_cases:
  assumes "record_balance B s = Returned t"
  shows "balances t = balances s \<or> (\<exists>a w v. bcGetAddr B (ctl_world s) = (Inr a, w) \<and> gauge_shows B a w v \<and>
    balances t = gm_put (balances s) a v)"
  using assms
  by (auto simp: record_balance_def RecordFpBalance_def Let_def split: prod.splits sum.splits outcome.splits
      dest!: queryBalance_shows)

lemma ctl_step_gauge:
  assumes "ctl_step B R s t"
  shows "balances t = balances s \<or> (\<exists>a w v. bcGetAddr B (ctl_world s) = (Inr a, w) \<and> gauge_shows B a w v \<and>
    balances t = gm_put (balances s) a v)"
  using assms
proof (cases rule: ctl_step.cases)
  case ctl_record
  from record_balance_cases [OF ctl_record(2)] show ?thesis by simp
qed (simp_all add: CommitPubRandList_def SubmitBatchFinalitySigs_def after_inner_keeps recordFpBalance_def)

text \<open>
  (C37) Over the whole life of a controller whose client has one address, the gauge gains at most that address, and
  what it shows there is what the node said of the address in the last recording that set the gauge: the amount
  of the answer over a million, or zero when there was no answer.
\<close>

theorem gauge_holds_own_balance:
  assumes "ctl_reach B R s t" "\<forall>w a'. fst (bcGetAddr B w) = Inr a' \<longrightarrow> a' = a"
    and "gm_get (balances t) k = Some v"
  shows "gm_get (balances s) k = Some v \<or>
    (k = a \<and> (\<exists>u u' w. ctl_reach B R s u \<and> ctl_step B R u u' \<and> ctl_reach B R u' t \<and> balances t = balances u' \<and>
       bcGetAddr B (ctl_world u) = (Inr a, w) \<and> gauge_shows B a w v))"
  using assms(1,3)
proof (induction rule: ctl_reach.induct)
  case (reach_step t t')
  from ctl_step_gauge [OF reach_step(2)] show ?case
  proof
    assume same: "balances t' = balances t"
    with reach_step(3,4) show ?case
      by (metis ctl_reach.reach_step [OF _ reach_step(2)])
  next
    assume "\<exists>a w v. bcGetAddr B (ctl_world t) = (Inr a, w) \<and> gauge_shows B a w v \<and> balances t' = gm_put (balances t) a v"
    then obtain a' w x where put: "bcGetAddr B (ctl_world t) = (Inr a', w)" "gauge_shows B a' w x"
        "balances t' = gm_put (balances t) a' x" by blast
    with assms(2) have "a' = a" by (metis fst_conv)
    with put reach_step ctl_reach.reach_refl show ?case by (metis gm_get_put option.inject)
  qed
qed simp

definition recorded_ctl :: "(nat, nat, nat) ctl_sys" where
  "recorded_ctl = demo_ctl\<lparr>pending := 0, ctl_world := 1, balances := gm_put gm_empty ''bbn1'' 5\<rparr>"

text \<open>The node answers 5000000, and the gauge shows 5, which is all it may show.\<close>

lemma demo_gauge_shows: "gauge_shows (demo_babylon (Inr (Some 5000000))) ''bbn1'' w v \<longleftrightarrow> v = 5"
  by (simp add: gauge_shows_def answered_def demo_babylon_def)

theorem gauge_holds_own_balance_witness:
  "gm_get (balances recorded_ctl) ''bbn1'' = Some 5 \<and> gm_get (balances demo_ctl) ''bbn1'' = None \<and>
   (\<exists>u u' w. ctl_reach (demo_babylon (Inr (Some 5000000))) demo_rollup demo_ctl u \<and>
      ctl_step (demo_babylon (Inr (Some 5000000))) demo_rollup u u' \<and> balances recorded_ctl = balances u' \<and>
      gauge_shows (demo_babylon (Inr (Some 5000000))) ''bbn1'' w 5) \<and>
   (\<forall>w v. gauge_shows (demo_babylon (Inr (Some 5000000))) ''bbn1'' w v = (v = 5))"
proof -
  let ?B = "demo_babylon (Inr (Some 5000000))"
  have "record_balance ?B (demo_ctl\<lparr>pending := pending demo_ctl - 1\<rparr>) = Returned recorded_ctl"
    by (simp add: record_balance_def queryBalance_def demo_babylon_def demo_ctl_def recorded_ctl_def RecordFpBalance_def)
  then have "ctl_step ?B demo_rollup demo_ctl recorded_ctl"
    by (intro ctl_record) (simp_all add: demo_ctl_def)
  then have "ctl_reach ?B demo_rollup demo_ctl recorded_ctl"
    by (rule reach_step [OF reach_refl])
  moreover have "\<forall>w a'. fst (bcGetAddr ?B w) = Inr a' \<longrightarrow> a' = ''bbn1''" by (simp add: demo_babylon_def)
  moreover have now: "gm_get (balances recorded_ctl) ''bbn1'' = Some 5" by (simp add: recorded_ctl_def)
  moreover have before: "gm_get (balances demo_ctl) ''bbn1'' = None" by (simp add: demo_ctl_def)
  ultimately show ?thesis
    using gauge_holds_own_balance [of ?B demo_rollup demo_ctl recorded_ctl "''bbn1''" "''bbn1''" 5] by (auto simp: demo_gauge_shows)
qed

end
