(* ===== verification/Startup.thy ===== *)
theory Startup
  imports Provider NetAddr Controller FpApp
begin

text \<open>
  How the services come up: reading the configuration (core/utils/config_reader.go), the loggers
  (core/logging/zap.go), the client of the L2 chain (client/l2eth/l2client.go), the constructors of the
  provider and of the RPC server, and the actions of the three commands. What they connect to is a
  parameter; a configuration is passed by pointer, so a function that writes it returns it.
\<close>

subsection \<open>Configuration and loggers\<close>

text \<open>The file system and the YAML decoder, for configurations of type \<open>'c\<close>.\<close>

record 'c config_source =
  csExists :: "string \<Rightarrow> bool"
  csRead :: "string \<Rightarrow> string res"
  csUnmarshal :: "string \<Rightarrow> 'c res"

definition readYamlConfig :: "'c config_source \<Rightarrow> string \<Rightarrow> 'c res outcome" where
  "readYamlConfig Y path =
     (if \<not> csExists Y path then Exited (''Path '' @ path @ '' does not exist'')
      else case csRead Y path of
          Inl e \<Rightarrow> Returned (Inl e)
        | Inr b \<Rightarrow> (case csUnmarshal Y b of
              Inl e \<Rightarrow> Exited (''unable to parse file with error '' @ err_string e)
            | Inr c \<Rightarrow> Returned (Inr c)))"

definition ReadConfig :: "'c config_source \<Rightarrow> string \<Rightarrow> string \<Rightarrow> 'c res outcome" where
  "ReadConfig Y configFilePath defaultPath =
     readYamlConfig Y (if configFilePath = [] then defaultPath else configFilePath)"

text \<open>Every command exits when its configuration cannot be read and panics when a variable does not parse.\<close>

definition load_config :: "'c config_source \<Rightarrow> (env \<Rightarrow> 'c \<Rightarrow> 'c res) \<Rightarrow> env \<Rightarrow> string \<Rightarrow> string \<Rightarrow> 'c outcome" where
  "load_config Y with_env env configFilePath defaultPath = (case ReadConfig Y configFilePath defaultPath of
      Exited m \<Rightarrow> Exited m
    | Panicked m \<Rightarrow> Panicked m
    | Returned (Inl e) \<Rightarrow> Exited (''read config failed by '' @ err_string e)
    | Returned (Inr c) \<Rightarrow> (case with_env env c of Inl e \<Rightarrow> Panicked (err_string e) | Inr d \<Rightarrow> Returned d))"

datatype LogLevel = DevelopmentLevel | ProductionLevel

definition NewLogLevel :: "bool \<Rightarrow> LogLevel" where
  "NewLogLevel isProduction = (if isProduction then ProductionLevel else DevelopmentLevel)"

record zap_config =
  zBase :: LogLevel
  zDisableStacktrace :: bool
  zEncoding :: string
  zEncodeTime :: string
  zEncodeLevel :: string

text \<open>The zap configuration both constructors build; they differ in the callers skipped.\<close>

definition zap_config_of :: "LogLevel \<Rightarrow> zap_config" where
  "zap_config_of env = \<lparr>zBase = env, zDisableStacktrace = True, zEncoding = ''console'', zEncodeTime = ''ISO8601'',
     zEncodeLevel = (if env = DevelopmentLevel then ''CapitalColor'' else ''Capital'')\<rparr>"

definition NewZapLogger :: "(zap_config \<Rightarrow> nat \<Rightarrow> 'l res) \<Rightarrow> LogLevel \<Rightarrow> 'l res outcome" where
  "NewZapLogger build env = (case build (zap_config_of env) 1 of
      Inl e \<Rightarrow> Panicked (err_string e) | Inr l \<Rightarrow> Returned (Inr l))"

definition NewZapLoggerInner :: "(zap_config \<Rightarrow> nat \<Rightarrow> 'l res) \<Rightarrow> LogLevel \<Rightarrow> 'l res outcome" where
  "NewZapLoggerInner build env = (case build (zap_config_of env) 0 of
      Inl e \<Rightarrow> Panicked (err_string e) | Inr l \<Rightarrow> Returned (Inr l))"

subsection \<open>The client of the L2 chain\<close>

record ('w, 'h) eth_rpc =
  ethDial :: "string \<Rightarrow> 'w \<Rightarrow> 'h res \<times> 'w"
  ethChainID :: "'h \<Rightarrow> 'w \<Rightarrow> int res \<times> 'w"

text \<open>
  \<open>NewL2EthClient\<close> returns the client, and the configuration, whose chain id it fills in when it
  was zero. A chain id is cut to 64 bits.
\<close>

definition NewL2EthClient :: "('w, 'h) eth_rpc \<Rightarrow> L2Config \<Rightarrow> 'w \<Rightarrow> 'h res \<times> L2Config \<times> 'w" where
  "NewL2EthClient E cfg w = (case ethDial E (EthRpcUrl cfg) w of
      (Inl e, w1) \<Rightarrow> (Inl (EWrap (''failed to create L2 eth client by '' @ EthRpcUrl cfg) e), cfg, w1)
    | (Inr cli, w1) \<Rightarrow> (case ethChainID E cli w1 of
          (Inl e, w2) \<Rightarrow> (Inl (EWrap (''failed to got chain id from '' @ EthRpcUrl cfg) e), cfg, w2)
        | (Inr chainId, w2) \<Rightarrow>
            (let got = (word_of_int chainId :: u64) in
             if ChainId cfg \<noteq> 0 then
               (if ChainId cfg \<noteq> got then
                  (Inl (EText (''the chain id from '' @ EthRpcUrl cfg @ '' expected '' @ show_u64 (ChainId cfg) @
                     '', got '' @ show_u64 got)), cfg, w2)
                else (Inr cli, cfg, w2))
             else (Inr cli, cfg\<lparr>ChainId := got\<rparr>, w2))))"

subsection \<open>The provider and the RPC server\<close>

record BTCConfig =
  RPCHost :: string
  RPCUser :: string
  RPCPass :: string
  DisableTLS :: bool

definition btc_config_of :: "BTCConfig \<Rightarrow> GadgetConfig \<Rightarrow> BTCConfig" where
  "btc_config_of defaults g =
     (let c1 = defaults\<lparr>RPCHost := BitcoinRPCHost g\<rparr>;
          c2 = (if BitcoinRPCUser g \<noteq> [] \<and> BitcoinRPCPass g \<noteq> []
                then c1\<lparr>RPCUser := BitcoinRPCUser g, RPCPass := BitcoinRPCPass g\<rparr> else c1)
      in if BitcoinDisableTLS g then c2\<lparr>DisableTLS := True\<rparr> else c2)"

record ('w, 'h) provider_deps =
  pdEth :: "('w, 'h) eth_rpc"
  pdNewBabylon :: "string \<Rightarrow> string \<Rightarrow> 'w \<Rightarrow> unit res \<times> 'w"
  pdDefaultBTC :: BTCConfig
  pdNewMockBitcoin :: "BTCConfig \<Rightarrow> 'w \<Rightarrow> unit res \<times> 'w"
  pdNewBitcoin :: "BTCConfig \<Rightarrow> 'w \<Rightarrow> unit res \<times> 'w"

text \<open>
  \<open>NewFinalizedStateProvider\<close>: the query client of the Babylon client is read before the error of
  creating it is checked, so that error is a nil dereference.
\<close>

definition NewFinalizedStateProvider ::
  "('w, 'h) provider_deps \<Rightarrow> OperatorConfig \<Rightarrow> 'w \<Rightarrow> ('h \<times> provider) res outcome \<times> OperatorConfig \<times> 'w" where
  "NewFinalizedStateProvider D cfg w =
     (let g = FinalityGadgetCfg (oBabylon cfg); btc = btc_config_of (pdDefaultBTC D) g in
      case pdNewBabylon D (BBNRPCAddress g) (BBNChainID g) w of
        (Inl e, w1) \<Rightarrow> (Panicked ''nil pointer dereference'', cfg, w1)
      | (Inr _, w1) \<Rightarrow>
          (case (if BitcoinRPCHost g = ''mock-btc-client'' then pdNewMockBitcoin D btc w1 else pdNewBitcoin D btc w1) of
             (Inl e, w2) \<Rightarrow> (Returned (Inl e), cfg, w2)
           | (Inr _, w2) \<Rightarrow> (case NewL2EthClient (pdEth D) (oLayer2 cfg) w2 of
                 (Inl e, l2, w3) \<Rightarrow>
                   (Returned (Inl (EWrap ''failed to create l2 eth client'' e)), cfg\<lparr>oLayer2 := l2\<rparr>, w3)
               | (Inr h, l2, w3) \<Rightarrow> (Returned (Inr (h, newProvider)), cfg\<lparr>oLayer2 := l2\<rparr>, w3))))"

text \<open>The server's own L2 client, then the provider's, over the same configuration.\<close>

definition NewJsonRpcServer ::
  "('w, 'h) provider_deps \<Rightarrow> OperatorConfig \<Rightarrow> 'w \<Rightarrow> ('h \<times> 'h \<times> provider) res outcome \<times> OperatorConfig \<times> 'w" where
  "NewJsonRpcServer D cfg w = (case NewL2EthClient (pdEth D) (oLayer2 cfg) w of
      (Inl e, l2, w1) \<Rightarrow> (Returned (Inl (EWrap ''failed to create l2 eth client'' e)), cfg\<lparr>oLayer2 := l2\<rparr>, w1)
    | (Inr h, l2, w1) \<Rightarrow> (case NewFinalizedStateProvider D (cfg\<lparr>oLayer2 := l2\<rparr>) w1 of
          (Panicked m, cfg2, w2) \<Rightarrow> (Panicked m, cfg2, w2)
        | (Exited m, cfg2, w2) \<Rightarrow> (Exited m, cfg2, w2)
        | (Returned (Inl e), cfg2, w2) \<Rightarrow>
            (Returned (Inl (EWrap ''failed to create finalizedStateProvider'' e)), cfg2, w2)
        | (Returned (Inr (hp, p)), cfg2, w2) \<Rightarrow> (Returned (Inr (h, hp, p)), cfg2, w2)))"

subsection \<open>The operator's application\<close>

record 'w app_deps =
  adNewEots :: "string \<Rightarrow> 'w \<Rightarrow> unit res \<times> 'w"
  adNewBabylonController :: "'w \<Rightarrow> unit res \<times> 'w"
  adController :: "'w controller_deps"
  adNewPubRandStore :: "'w \<Rightarrow> unit res \<times> 'w"
  adNewService :: "'w \<Rightarrow> unit res \<times> 'w"

definition NewEOTSManagerClient :: "'w app_deps \<Rightarrow> EOTSConfig \<Rightarrow> 'w \<Rightarrow> unit res \<times> 'w" where
  "NewEOTSManagerClient A cfg w = (case adNewEots A (RemoteAddr cfg) w of
      (Inl e, w1) \<Rightarrow> (Inl (EWrap (''create eotsmanager client failed: '' @ RemoteAddr cfg) e), w1)
    | (Inr c, w1) \<Rightarrow> (Inr c, w1))"

definition NewFinalityProviderApp :: "'w app_deps \<Rightarrow> bool \<Rightarrow> string \<Rightarrow> 'w \<Rightarrow> 'w fp_app res \<times> 'w" where
  "NewFinalityProviderApp A rpc addr w = (case adNewPubRandStore A w of
      (Inl e, w1) \<Rightarrow> (Inl (EWrap ''failed to initiate public randomness store'' e), w1)
    | (Inr _, w1) \<Rightarrow> (case adNewService A w1 of
          (Inl e, w2) \<Rightarrow> (Inl (EWrap ''failed to create finality-provider manager'' e), w2)
        | (Inr _, w2) \<Rightarrow> (Inr (newApp w2 rpc addr), w2)))"

definition rpc_for_app :: "('w, 'h) provider_deps \<Rightarrow> OperatorConfig \<Rightarrow> 'w \<Rightarrow> bool res outcome \<times> OperatorConfig \<times> 'w" where
  "rpc_for_app D cfg w =
     (if RpcServerIpPortAddress (oCommon cfg) \<noteq> [] then
        (case NewJsonRpcServer D cfg w of
           (Panicked m, c, w1) \<Rightarrow> (Panicked m, c, w1)
         | (Exited m, c, w1) \<Rightarrow> (Exited m, c, w1)
         | (Returned (Inl e), c, w1) \<Rightarrow> (Returned (Inl (EWrap ''failed to create NewJsonRpcServer'' e)), c, w1)
         | (Returned (Inr _), c, w1) \<Rightarrow> (Returned (Inr True), c, w1))
      else (Returned (Inr False), cfg, w))"

definition NewFinalityProviderAppFromConfig ::
  "('w, 'h) provider_deps \<Rightarrow> 'w app_deps \<Rightarrow> OperatorConfig \<Rightarrow> 'w \<Rightarrow> 'w fp_app res outcome \<times> 'w" where
  "NewFinalityProviderAppFromConfig D A cfg w = (case NewEOTSManagerClient A (oEOTSManagerConfig cfg) w of
      (Inl e, w1) \<Rightarrow> (Returned (Inl (EWrap ''NewEOTSManagerClient failed'' e)), w1)
    | (Inr _, w1) \<Rightarrow> (case adNewBabylonController A w1 of
          (Inl e, w2) \<Rightarrow> (Returned (Inl (EWrap ''NewBabylonController failed'' e)), w2)
        | (Inr _, w2) \<Rightarrow>
            (case (NewOrbitConsumerController (adController A) (DBFilePath (FinalityGadgetCfg (oBabylon cfg)))
                    (BackHeightCount (oLayer2 cfg)) w2 :: ('w, unit, unit) ctl_sys res \<times> 'w) of
               (Inl e, w3) \<Rightarrow> (Returned (Inl (EWrap ''NewOrbitConsumerController failed'' e)), w3)
             | (Inr _, w3) \<Rightarrow> (case rpc_for_app D cfg w3 of
                   (Panicked m, c, w4) \<Rightarrow> (Panicked m, w4)
                 | (Exited m, c, w4) \<Rightarrow> (Exited m, w4)
                 | (Returned (Inl e), c, w4) \<Rightarrow> (Returned (Inl e), w4)
                 | (Returned (Inr rpc), c, w4) \<Rightarrow>
                     (case NewFinalityProviderApp A rpc (RpcServerIpPortAddress (oCommon c)) w4 of
                        (r, w5) \<Rightarrow> (Returned r, w5))))))"

subsection \<open>The commands\<close>

text \<open>What the two long-running commands share: \<open>body\<close> runs between the start and the stop of the
  metrics server, which is deferred, so it runs on a panic but not when the process exits.\<close>

record ('w, 'l) service_deps =
  sdConfig :: "OperatorConfig config_source"
  sdBuildLogger :: "zap_config \<Rightarrow> nat \<Rightarrow> 'l res"
  sdMetricsStart :: "string \<Rightarrow> 'w \<Rightarrow> 'w"
  sdMetricsStop :: "'w \<Rightarrow> 'w"
  sdLoadFpConfig :: "string \<Rightarrow> 'w \<Rightarrow> unit res \<times> 'w"
  sdGetDBBackend :: "'w \<Rightarrow> unit res \<times> 'w"

definition service_loggers :: "('w, 'l) service_deps \<Rightarrow> OperatorConfig \<Rightarrow> unit outcome" where
  "service_loggers S cfg = (let level = NewLogLevel (Production (oCommon cfg)) in
     case NewZapLogger (sdBuildLogger S) level of
       Panicked m \<Rightarrow> Panicked m | Exited m \<Rightarrow> Exited m
     | Returned (Inl e) \<Rightarrow> Exited (''new logger failed by '' @ err_string e)
     | Returned (Inr _) \<Rightarrow> (case NewZapLoggerInner (sdBuildLogger S) level of
           Panicked m \<Rightarrow> Panicked m | Exited m \<Rightarrow> Exited m
         | Returned (Inl e) \<Rightarrow> Exited (''new logger failed by '' @ err_string e)
         | Returned (Inr _) \<Rightarrow> Returned ()))"

definition service_main :: "('w, 'l) service_deps \<Rightarrow> (OperatorConfig \<Rightarrow> 'w \<Rightarrow> unit res outcome \<times> 'w) \<Rightarrow>
    env \<Rightarrow> string \<Rightarrow> string \<Rightarrow> 'w \<Rightarrow> unit res outcome \<times> 'w" where
  "service_main S body env path defaultPath w = (case load_config (sdConfig S) operator_WithEnv env path defaultPath of
      Panicked m \<Rightarrow> (Panicked m, w) | Exited m \<Rightarrow> (Exited m, w)
    | Returned cfg \<Rightarrow> (case service_loggers S cfg of
          Panicked m \<Rightarrow> (Panicked m, w) | Exited m \<Rightarrow> (Exited m, w)
        | Returned _ \<Rightarrow> (case Address (oMetricsConfig cfg) of
              Inl e \<Rightarrow> (Returned (Inl (EWrap ''failed to get prometheus address'' e)), w)
            | Inr promAddr \<Rightarrow> (case body cfg (sdMetricsStart S promAddr w) of
                  (Returned r, w1) \<Rightarrow> (Returned r, sdMetricsStop S w1)
                | (Panicked m, w1) \<Rightarrow> (Panicked m, sdMetricsStop S w1)
                | (Exited m, w1) \<Rightarrow> (Exited m, w1)))))"

text \<open>The logger that each \<open>newApp\<close> builds once more for itself; a failure exits the process.\<close>

definition app_logger :: "('w, 'l) service_deps \<Rightarrow> OperatorConfig \<Rightarrow> unit outcome" where
  "app_logger S cfg = (case NewZapLoggerInner (sdBuildLogger S) (NewLogLevel (Production (oCommon cfg))) of
      Panicked m \<Rightarrow> Panicked m | Exited m \<Rightarrow> Exited m
    | Returned (Inl e) \<Rightarrow> Exited (''new logger failed by '' @ err_string e)
    | Returned (Inr _) \<Rightarrow> Returned ())"

definition rpc_body :: "('w, 'l) service_deps \<Rightarrow> ('w, 'h) provider_deps \<Rightarrow> ('h \<times> 'h \<times> provider \<Rightarrow> string \<Rightarrow> 'w \<Rightarrow> 'w) \<Rightarrow>
    OperatorConfig \<Rightarrow> 'w \<Rightarrow> unit res outcome \<times> 'w" where
  "rpc_body S D serve cfg w = (case sdLoadFpConfig S (FinalityProviderHomePath cfg) w of
      (Inl e, w1) \<Rightarrow> (Returned (Inl (EWrap ''new provider failed'' (EWrap ''failed to load configuration'' e))), w1)
    | (Inr _, w1) \<Rightarrow> (case app_logger S cfg of
          Panicked m \<Rightarrow> (Panicked m, w1) | Exited m \<Rightarrow> (Exited m, w1)
        | Returned _ \<Rightarrow> (case NewJsonRpcServer D cfg w1 of
              (Panicked m, c, w2) \<Rightarrow> (Panicked m, w2)
            | (Exited m, c, w2) \<Rightarrow> (Exited m, w2)
            | (Returned (Inl e), c, w2) \<Rightarrow>
                (Returned (Inl (EWrap ''new provider failed'' (EWrap ''failed to create NewJsonRpcServer'' e))), w2)
            | (Returned (Inr server), c, w2) \<Rightarrow>
                (Returned (Inr ()), serve server (RpcServerIpPortAddress (oCommon c)) w2))))"

definition operator_body :: "('w, 'l) service_deps \<Rightarrow> ('w, 'h) provider_deps \<Rightarrow> 'w app_deps \<Rightarrow>
    ('w fp_app \<Rightarrow> string \<Rightarrow> 'w \<Rightarrow> unit res \<times> 'w) \<Rightarrow> OperatorConfig \<Rightarrow> 'w \<Rightarrow> unit res outcome \<times> 'w" where
  "operator_body S D A start cfg w =
     (let failed = (\<lambda>e. Returned (Inl (EWrap ''failed to create NewFinalityProviderAppFromConfig for app'' e))) in
      case app_logger S cfg of
        Panicked m \<Rightarrow> (Panicked m, w) | Exited m \<Rightarrow> (Exited m, w)
      | Returned _ \<Rightarrow> (case sdLoadFpConfig S (FinalityProviderHomePath cfg) w of
            (Inl e, w1) \<Rightarrow> (failed (EWrap ''failed to create params for app'' (EWrap ''failed to load configuration'' e)), w1)
          | (Inr _, w1) \<Rightarrow> (case sdGetDBBackend S w1 of
                (Inl e, w2) \<Rightarrow> (failed (EWrap ''failed to create params for app'' (EWrap ''failed to create db backend'' e)), w2)
              | (Inr _, w2) \<Rightarrow> (case NewFinalityProviderAppFromConfig D A cfg w2 of
                    (Panicked m, w3) \<Rightarrow> (Panicked m, w3)
                  | (Exited m, w3) \<Rightarrow> (Exited m, w3)
                  | (Returned (Inl e), w3) \<Rightarrow>
                      (failed (EWrap ''failed to create NewFinalityProviderAppFromConfig for app'' e), w3)
                  | (Returned (Inr app), w3) \<Rightarrow> (case start app (BtcPk cfg) w3 of
                        (Inl e, w4) \<Rightarrow> (Returned (Inl (EWrap ''failed to create Start for app'' e)), w4)
                      | (Inr _, w4) \<Rightarrow> (Returned (Inr ()), w4))))))"

definition rpcService where
  "rpcService S D serve env path = service_main S (rpc_body S D serve) env path ''./finality-gadget-rpc-services.yaml''"

definition finalityProvider where
  "finalityProvider S D A start env path =
     service_main S (operator_body S D A start) env path ''./finality-gadget-operator.yaml''"

subsection \<open>Properties\<close>

lemma NewL2EthClient_ok:
  assumes "NewL2EthClient E cfg w = (Inr h, cfg', w')"
  shows "\<exists>n v. ethChainID E h v = (Inr n, w') \<and> cfg' = cfg\<lparr>ChainId := word_of_int n\<rparr> \<and>
    (ChainId cfg \<noteq> 0 \<longrightarrow> ChainId cfg = word_of_int n)"
  using assms by (auto simp: NewL2EthClient_def Let_def split: prod.splits sum.splits if_splits)

lemma NewProvider_ok:
  assumes "NewFinalizedStateProvider D cfg w = (Returned (Inr (h, p)), cfg', w')"
  shows "p = newProvider \<and> (\<exists>l2 v. NewL2EthClient (pdEth D) (oLayer2 cfg) v = (Inr h, l2, w') \<and> cfg' = cfg\<lparr>oLayer2 := l2\<rparr>)"
  using assms by (auto simp: NewFinalizedStateProvider_def Let_def split: prod.splits sum.splits if_splits)

lemma NewJsonRpcServer_ok:
  assumes "NewJsonRpcServer D cfg w = (Returned (Inr (h, hp, p)), cfg', w')"
  shows "\<exists>l2 l2' v v'. NewL2EthClient (pdEth D) (oLayer2 cfg) w = (Inr h, l2, v) \<and> p = newProvider \<and>
    NewL2EthClient (pdEth D) l2 v' = (Inr hp, l2', w') \<and> cfg' = cfg\<lparr>oLayer2 := l2'\<rparr>"
proof -
  obtain r l2 v where c: "NewL2EthClient (pdEth D) (oLayer2 cfg) w = (r, l2, v)" by (metis prod_cases3)
  show ?thesis
  proof (cases r)
    case (Inl e)
    with assms c show ?thesis by (simp add: NewJsonRpcServer_def)
  next
    case (Inr h0)
    with assms c have h: "h0 = h"
      and p: "NewFinalizedStateProvider D (cfg\<lparr>oLayer2 := l2\<rparr>) v = (Returned (Inr (hp, p)), cfg', w')"
      by (auto simp: NewJsonRpcServer_def split: prod.splits sum.splits outcome.splits)
    from NewProvider_ok [OF p] obtain l2' v' where "p = newProvider"
      "NewL2EthClient (pdEth D) l2 v' = (Inr hp, l2', w')" "cfg' = cfg\<lparr>oLayer2 := l2'\<rparr>" by auto
    with c Inr h show ?thesis by blast
  qed
qed

text \<open>
  (C36) The RPC server uses two clients of the L2 chain. When its construction succeeds, each client has
  named a chain id, the configuration ends with the second one's; a configured id other than zero is kept,
  and unless the first chain's id is zero in 64 bits the two clients are on the same chain.
\<close>

theorem rpc_clients_same_chain:
  assumes "NewJsonRpcServer D cfg w = (Returned (Inr (h, hp, p)), cfg', w')"
  shows "\<exists>n m v v'. fst (ethChainID (pdEth D) h v) = Inr n \<and> fst (ethChainID (pdEth D) hp v') = Inr m \<and>
    ChainId (oLayer2 cfg') = word_of_int m \<and> p = newProvider \<and>
    (ChainId (oLayer2 cfg) \<noteq> 0 \<longrightarrow> ChainId (oLayer2 cfg') = ChainId (oLayer2 cfg)) \<and>
    ((word_of_int n :: u64) \<noteq> 0 \<longrightarrow> (word_of_int n :: u64) = word_of_int m)"
proof -
  obtain l2 l2' v v' where c: "NewL2EthClient (pdEth D) (oLayer2 cfg) w = (Inr h, l2, v)" "p = newProvider"
    "NewL2EthClient (pdEth D) l2 v' = (Inr hp, l2', w')" "cfg' = cfg\<lparr>oLayer2 := l2'\<rparr>"
    using NewJsonRpcServer_ok [OF assms] by blast
  obtain n u where n: "ethChainID (pdEth D) h u = (Inr n, v)" "l2 = (oLayer2 cfg)\<lparr>ChainId := word_of_int n\<rparr>"
    "ChainId (oLayer2 cfg) \<noteq> 0 \<longrightarrow> ChainId (oLayer2 cfg) = word_of_int n" using NewL2EthClient_ok [OF c(1)] by blast
  obtain m u' where m: "ethChainID (pdEth D) hp u' = (Inr m, w')" "l2' = l2\<lparr>ChainId := word_of_int m\<rparr>"
    "ChainId l2 \<noteq> 0 \<longrightarrow> ChainId l2 = word_of_int m" using NewL2EthClient_ok [OF c(3)] by blast
  from n m c(2,4) show ?thesis
    by (intro exI [where x = n] exI [where x = m] exI [where x = u] exI [where x = u']) auto
qed

definition demo_eth :: "(nat, nat) eth_rpc" where
  "demo_eth = \<lparr>ethDial = (\<lambda>url w. (Inr w, Suc w)), ethChainID = (\<lambda>h w. (Inr 42, w))\<rparr>"

definition demo_provider_deps :: "(nat, nat) provider_deps" where
  "demo_provider_deps = \<lparr>pdEth = demo_eth, pdNewBabylon = (\<lambda>a c w. (if a = [] then Inl (EText ''no address'') else Inr (), w)),
     pdDefaultBTC = \<lparr>RPCHost = [], RPCUser = [], RPCPass = [], DisableTLS = False\<rparr>,
     pdNewMockBitcoin = (\<lambda>c w. (Inr (), w)), pdNewBitcoin = (\<lambda>c w. (Inr (), w))\<rparr>"

definition demo_cfg :: OperatorConfig where
  "demo_cfg = demo_operator\<lparr>oLayer2 := \<lparr>EthRpcUrl = ''url'', ChainId = 0, BackHeightCount = 0\<rparr>,
     oBabylon := \<lparr>FinalityGadgetCfg = (FinalityGadgetCfg (oBabylon demo_operator))\<lparr>BBNRPCAddress := ''bbn''\<rparr>\<rparr>\<rparr>"

lemma demo_server: "NewJsonRpcServer demo_provider_deps demo_cfg 0 =
    (Returned (Inr (0, 1, newProvider)), demo_cfg\<lparr>oLayer2 := (oLayer2 demo_cfg)\<lparr>ChainId := 42\<rparr>\<rparr>, 2)"
  by (simp add: NewJsonRpcServer_def NewFinalizedStateProvider_def NewL2EthClient_def demo_provider_deps_def demo_eth_def
      demo_cfg_def Let_def)

theorem rpc_clients_same_chain_witness:
  "\<exists>n m v v'. fst (ethChainID demo_eth 0 v) = Inr n \<and> fst (ethChainID demo_eth 1 v') = Inr m \<and>
     (word_of_int n :: u64) = word_of_int m"
  using rpc_clients_same_chain [OF demo_server] by (auto simp: demo_provider_deps_def demo_eth_def)

text \<open>
  The provider's constructor panics exactly when the Babylon client cannot be created: the check of
  that error comes after the client has been dereferenced.
\<close>

theorem provider_constructor_panics:
  "(\<exists>m. fst (NewFinalizedStateProvider D cfg w) = Panicked m) \<longleftrightarrow>
   \<not> is_ok (fst (pdNewBabylon D (BBNRPCAddress (FinalityGadgetCfg (oBabylon cfg)))
                               (BBNChainID (FinalityGadgetCfg (oBabylon cfg))) w))"
  by (auto simp: NewFinalizedStateProvider_def Let_def split: prod.splits sum.splits if_splits)

lemma NewProvider_common: "oCommon (fst (snd (NewFinalizedStateProvider D cfg w))) = oCommon cfg"
  by (simp add: NewFinalizedStateProvider_def Let_def split: prod.splits sum.splits)

lemma NewJsonRpcServer_common:
  assumes "NewJsonRpcServer D cfg w = (r, c, w')"
  shows "oCommon c = oCommon cfg"
proof -
  obtain q l2 v where q: "NewL2EthClient (pdEth D) (oLayer2 cfg) w = (q, l2, v)" by (metis prod_cases3)
  obtain x c2 v2 where x: "NewFinalizedStateProvider D (cfg\<lparr>oLayer2 := l2\<rparr>) v = (x, c2, v2)" by (metis prod_cases3)
  have "oCommon c2 = oCommon cfg" using NewProvider_common [of D "cfg\<lparr>oLayer2 := l2\<rparr>" v] x by simp
  with assms q x show ?thesis
    by (auto simp: NewJsonRpcServer_def split: sum.splits outcome.splits)
qed

lemma rpc_for_app_ok:
  assumes "rpc_for_app D cfg w = (Returned (Inr rpc), c, w')"
  shows "oCommon c = oCommon cfg \<and> rpc = (RpcServerIpPortAddress (oCommon cfg) \<noteq> [])"
proof (cases "RpcServerIpPortAddress (oCommon cfg) = []")
  case False
  obtain r c2 v where r: "NewJsonRpcServer D cfg w = (r, c2, v)" by (metis prod_cases3)
  from assms False r NewJsonRpcServer_common [OF r] show ?thesis
    by (auto simp: rpc_for_app_def split: outcome.splits sum.splits)
qed (use assms in \<open>simp add: rpc_for_app_def\<close>)

lemma NewApp_ok:
  assumes "NewFinalityProviderAppFromConfig D A cfg w = (Returned (Inr app), w')"
  shows "\<exists>v. app = newApp v (RpcServerIpPortAddress (oCommon cfg) \<noteq> []) (RpcServerIpPortAddress (oCommon cfg))"
proof -
  have a: "\<exists>v. app = newApp v rpc addr" if "NewFinalityProviderApp A rpc addr u = (Inr app, w')" for rpc addr u
    using that by (auto simp: NewFinalityProviderApp_def split: prod.splits sum.splits)
  note defs = NewFinalityProviderAppFromConfig_def
  obtain x1 w1 where 1: "NewEOTSManagerClient A (oEOTSManagerConfig cfg) w = (x1, w1)" by fastforce
  obtain x2 w2 where 2: "adNewBabylonController A w1 = (x2, w2)" by fastforce
  obtain x3 w3 where 3: "(NewOrbitConsumerController (adController A) (DBFilePath (FinalityGadgetCfg (oBabylon cfg)))
      (BackHeightCount (oLayer2 cfg)) w2 :: ('a, unit, unit) ctl_sys res \<times> 'a) = (x3, w3)" by fastforce
  obtain x4 c w4 where 4: "rpc_for_app D cfg w3 = (x4, c, w4)" by (metis prod_cases3)
  have "\<exists>u1. x1 = Inr u1" using assms 1 by (cases x1) (simp_all add: defs)
  moreover from this have "\<exists>u2. x2 = Inr u2" using assms 1 2 by (cases x2) (auto simp: defs)
  moreover from calculation have "\<exists>u3. x3 = Inr u3" using assms 1 2 3 by (cases x3) (auto simp: defs)
  ultimately have rest: "(case (x4, c, w4) of
       (Panicked m, c, w4) \<Rightarrow> (Panicked m, w4)
     | (Exited m, c, w4) \<Rightarrow> (Exited m, w4)
     | (Returned (Inl e), c, w4) \<Rightarrow> (Returned (Inl e), w4)
     | (Returned (Inr rpc), c, w4) \<Rightarrow>
         (case NewFinalityProviderApp A rpc (RpcServerIpPortAddress (oCommon c)) w4 of
            (r, w5) \<Rightarrow> (Returned r, w5))) = (Returned (Inr app), w')"
    using assms 1 2 3 4 by (auto simp: defs)
  show ?thesis
  proof (cases x4)
    case (Returned y)
    with rest obtain rpc where "y = Inr rpc" "NewFinalityProviderApp A rpc (RpcServerIpPortAddress (oCommon c)) w4 = (Inr app, w')"
      by (cases y) (auto split: prod.splits)
    with a rpc_for_app_ok [of D cfg w3 rpc c w4] 4 Returned show ?thesis by auto
  qed (use rest in simp_all)
qed

lemma instance_no_rpc:
  "RpcSpawned \<in> set (effects (start_instance B pk m s)) \<longleftrightarrow> RpcSpawned \<in> set (effects s)"
  by (auto simp: start_instance_def fail_def mark_def split: prod.splits sum.splits)

lemma start_spawns_rpc:
  assumes "is_ok (fst (acStart B (app_world s)))" "effects s = []"
  shows "RpcSpawned \<in> set (effects (Start_app B key s)) \<longleftrightarrow> jsonRpcServerIpPortAddr s \<noteq> [] \<and> has_rpc s"
proof -
  have "RpcSpawned \<in> set (effects (start_by_key B key u)) \<longleftrightarrow> RpcSpawned \<in> set (effects u)"
    "RpcSpawned \<in> set (effects (start_by_store B u)) \<longleftrightarrow> RpcSpawned \<in> set (effects u)" for u
    by (auto simp: start_by_key_def start_by_store_def Let_def fail_def instance_no_rpc split: prod.splits sum.splits if_splits)
  note start = this
  obtain u w where w: "acStart B (app_world s) = (Inr u, w)"
    using assms(1) by (cases "acStart B (app_world s)") (auto simp: is_ok_iff)
  have "RpcSpawned \<in> set (effects (start_rpc (mark DaemonStarted (s\<lparr>app_world := w\<rparr>)))) \<longleftrightarrow>
      jsonRpcServerIpPortAddr s \<noteq> [] \<and> has_rpc s"
    using assms(2) by (simp add: start_rpc_def mark_def)
  then show ?thesis
    by (simp add: Start_app_seq Let_def w start)
qed

text \<open>
  The operator serves RPC exactly when an address is configured: the application built from a
  configuration has the address and, if it is not empty, a server; so once the daemon has started, the
  server's goroutine is spawned if and only if the address is not empty.
\<close>

theorem app_serves_rpc_iff_address:
  assumes "NewFinalityProviderAppFromConfig D A cfg w = (Returned (Inr app), w')"
    and "is_ok (fst (acStart B (app_world app)))"
  shows "jsonRpcServerIpPortAddr app = RpcServerIpPortAddress (oCommon cfg) \<and>
    (RpcSpawned \<in> set (effects (Start_app B key app)) \<longleftrightarrow> RpcServerIpPortAddress (oCommon cfg) \<noteq> [])"
proof -
  obtain v where v: "app = newApp v (RpcServerIpPortAddress (oCommon cfg) \<noteq> []) (RpcServerIpPortAddress (oCommon cfg))"
    using NewApp_ok [OF assms(1)] by blast
  then have "effects app = []" by (simp add: newApp_def)
  from start_spawns_rpc [OF assms(2) this] v show ?thesis by (simp add: newApp_def)
qed

definition demo_app_deps :: "nat app_deps" where
  "demo_app_deps = \<lparr>adNewEots = (\<lambda>a w. (Inr (), w)), adNewBabylonController = (\<lambda>w. (Inr (), w)),
     adController = demo_deps, adNewPubRandStore = (\<lambda>w. (Inr (), w)), adNewService = (\<lambda>w. (Inr (), w))\<rparr>"

theorem app_serves_rpc_iff_address_witness:
  "RpcSpawned \<notin> set (effects (Start_app (demo_app_calls [] (Inr ())) [] (newApp 0 False [])))"
proof -
  have addr: "RpcServerIpPortAddress (oCommon demo_cfg) = []"
    by (simp add: demo_cfg_def demo_operator_def)
  have ctl: "NewOrbitConsumerController demo_deps p b w = (Inr (recordFpBalance \<lparr>ctl_world = w, balances = gm_empty,
      pending = 0, ctl = \<lparr>l2Client = None, backHeightCount = b\<rparr>\<rparr>), w)" for p b w
    by (simp add: NewOrbitConsumerController_def demo_deps_def)
  have "NewFinalityProviderAppFromConfig demo_provider_deps demo_app_deps demo_cfg 0 =
      (Returned (Inr (newApp 0 False [])), 0)"
    by (simp add: NewFinalityProviderAppFromConfig_def NewEOTSManagerClient_def NewFinalityProviderApp_def
        rpc_for_app_def addr demo_app_deps_def ctl)
  from app_serves_rpc_iff_address [OF this, of "demo_app_calls [] (Inr ())" "[]"] addr show ?thesis
    by (simp add: demo_app_calls_def newApp_def)
qed

end
