(* ===== verification/FpRestore.thy ===== *)
theory FpRestore
  imports GoBase
begin

text \<open>
  The \<open>fps restore\<close> and \<open>fps show\<close> commands (operator/fp/fp.go): bring the local store of
  finality providers in line with what the Babylon chain says of one. The store, the Babylon and consumer
  controllers and the parsing of keys and addresses are not in the repository and are parameters.
\<close>

subsection \<open>Data\<close>

datatype FinalityProviderStatus = ACTIVE | SLASHED | JAILED | INACTIVE | REGISTERED

text \<open>What the chain answers about a provider; a missing commission is a nil pointer.\<close>

record fp_response =
  rBtcPk :: string
  rAddr :: string
  rDescription :: string
  rCommission :: "nat option"
  rCommissionInfo :: "(nat \<times> nat) option"
  rSlashedBtcHeight :: u64
  rJailed :: bool
  rHighestVotedHeight :: u32
  rHeight :: u64

text \<open>An entry of the store, and the commission rates it is created with.\<close>

record commission_rates =
  crRate :: nat
  crMaxRate :: nat
  crMaxChangeRate :: nat

text \<open>The finality provider store, as a table the commands call; its state is in the world.\<close>

record ('w, 'f, 'i) fp_store =
  stGetFinalityProvider :: "string \<Rightarrow> 'w \<Rightarrow> 'f res \<times> 'w"
  stCreateFinalityProvider ::
    "string \<Rightarrow> string \<Rightarrow> string \<Rightarrow> commission_rates \<Rightarrow> string \<Rightarrow> 'w \<Rightarrow> unit res \<times> 'w"
  stSetFpDescription :: "string \<Rightarrow> string \<Rightarrow> nat option \<Rightarrow> 'w \<Rightarrow> unit res \<times> 'w"
  stSetFpLastVotedHeight :: "string \<Rightarrow> u64 \<Rightarrow> 'w \<Rightarrow> unit res \<times> 'w"
  stSetFpStatus :: "string \<Rightarrow> FinalityProviderStatus \<Rightarrow> 'w \<Rightarrow> unit res \<times> 'w"
  stGetAllStored :: "'w \<Rightarrow> 'f list res \<times> 'w"
  stInfo :: "'f \<Rightarrow> 'i"
  stNotFound :: err

record 'w fp_calls =
  fcParsePk :: "string \<Rightarrow> string res"
  fcToBTCPK :: "string \<Rightarrow> string"
  fcMarshalHex :: "string \<Rightarrow> string"
  fcAccAddress :: "string \<Rightarrow> string res"
  fcQueryFinalityProvider :: "string \<Rightarrow> 'w \<Rightarrow> fp_response option res \<times> 'w"
  fcQueryHasPower :: "string \<Rightarrow> u64 \<Rightarrow> 'w \<Rightarrow> bool res \<times> 'w"

text \<open>Sequencing of calls on the world, wrapping an error with a message or passing it on.\<close>

definition thenW :: "(err \<Rightarrow> err) \<Rightarrow> ('a res \<times> 'w) \<Rightarrow> ('a \<Rightarrow> 'w \<Rightarrow> 'b res \<times> 'w) \<Rightarrow> 'b res \<times> 'w" where
  "thenW wrap rw k = (case rw of (Inl e, w) \<Rightarrow> (Inl (wrap e), w) | (Inr v, w) \<Rightarrow> k v w)"

lemma thenW_simps [simp]:
  "thenW wrap (Inl e, w) k = (Inl (wrap e), w)" "thenW wrap (Inr v, w) k = k v w"
  by (simp_all add: thenW_def)

lemma thenW_Inr: "thenW wrap rw k = (Inr v, t) \<longleftrightarrow> (\<exists>u w. rw = (Inr u, w) \<and> k u w = (Inr v, t))"
  by (auto simp: thenW_def split: prod.splits sum.splits)

subsection \<open>The commands\<close>

definition ListAllFinalityProvidersInfo :: "('w, 'f, 'i) fp_store \<Rightarrow> 'w \<Rightarrow> 'i list res \<times> 'w" where
  "ListAllFinalityProvidersInfo S w =
     thenW (EWrap ''failed to get all stored finality providers'') (stGetAllStored S w)
       (\<lambda>storedFps w1. (Inr (map (stInfo S) storedFps), w1))"

definition fp_status :: "bool \<Rightarrow> fp_response \<Rightarrow> FinalityProviderStatus" where
  "fp_status hasPower fp =
     (if hasPower then ACTIVE
      else if rSlashedBtcHeight fp > 0 then SLASHED
      else if rJailed fp then JAILED
      else INACTIVE)"

definition createFp :: "('w, 'f, 'i) fp_store \<Rightarrow> 'w fp_calls \<Rightarrow> fp_response \<Rightarrow> string \<Rightarrow> 'w \<Rightarrow> unit res \<times> 'w" where
  "createFp S F fp chainID w = (case fcAccAddress F (rAddr fp) of
      Inl e \<Rightarrow> (Inl (EWrap ''err converting fp addr'' e), w)
    | Inr addr \<Rightarrow> (case rCommission fp of
          None \<Rightarrow> (Inl (EText ''nil Commission in FinalityProviderResponse''), w)
        | Some commission \<Rightarrow> (case rCommissionInfo fp of
              None \<Rightarrow> (Inl (EText ''nil CommissionInfo in FinalityProviderResponse''), w)
            | Some (maxRate, maxChangeRate) \<Rightarrow>
                thenW (EWrap ''failed to save finality-provider'')
                  (stCreateFinalityProvider S addr (fcToBTCPK F (rBtcPk fp)) (rDescription fp)
                     \<lparr>crRate = commission, crMaxRate = maxRate, crMaxChangeRate = maxChangeRate\<rparr> chainID w)
                  (\<lambda>_ w1. (Inr (), w1)))))"

definition updateFp :: "('w, 'f, 'i) fp_store \<Rightarrow> 'w fp_calls \<Rightarrow> fp_response \<Rightarrow> 'w \<Rightarrow> unit res \<times> 'w" where
  "updateFp S F fp w =
     (let btcPk = fcToBTCPK F (rBtcPk fp); hex = fcMarshalHex F (rBtcPk fp) in
      thenW (\<lambda>e. e) (stSetFpDescription S btcPk (rDescription fp) (rCommission fp) w) (\<lambda>_ w1.
      thenW (\<lambda>e. e) (stSetFpLastVotedHeight S btcPk (ucast (rHighestVotedHeight fp)) w1) (\<lambda>_ w2.
      thenW (EWrap (''failed to query voting power for finality provider '' @ hex))
        (fcQueryHasPower F btcPk (rHeight fp) w2) (\<lambda>hasPower w3.
      thenW (EWrap (''failed to update status for finality provider '' @ hex))
        (stSetFpStatus S btcPk (fp_status hasPower fp) w3) (\<lambda>_ w4. (Inr (), w4))))))"

definition putFpFromResponse ::
  "('w, 'f, 'i) fp_store \<Rightarrow> 'w fp_calls \<Rightarrow> fp_response \<Rightarrow> string \<Rightarrow> 'w \<Rightarrow> unit res \<times> 'w" where
  "putFpFromResponse S F fp chainID w = (case stGetFinalityProvider S (fcToBTCPK F (rBtcPk fp)) w of
      (Inl e, w1) \<Rightarrow> if err_is e (stNotFound S) then createFp S F fp chainID w1 else (Inl e, w1)
    | (Inr _, w1) \<Rightarrow> updateFp S F fp w1)"

text \<open>
  \<open>RestoreFP\<close>. Its key name argument is not used. When the key does not parse, the message prints the
  key, which is then nil, and not the string.
\<close>

definition nil_key :: string where
  "nil_key = ''<nil>''"

definition RestoreFP ::
  "('w, 'f, 'i) fp_store \<Rightarrow> 'w fp_calls \<Rightarrow> string \<Rightarrow> string \<Rightarrow> string \<Rightarrow> 'w \<Rightarrow> unit res \<times> 'w" where
  "RestoreFP S F keyName chainID fpBtpPkStr w = (case fcParsePk F fpBtpPkStr of
      Inl e \<Rightarrow> (Inl (EWrap (''failed to NewBIP340PubKeyFromHex by '' @ nil_key) e), w)
    | Inr fpBtpPk \<Rightarrow>
        thenW (\<lambda>e. if \<not> contains_sub (err_string e) ''the finality provider is not found''
                   then EWrap ''err getting finality provider'' e
                   else EWrap (''query finality provider '' @ fpBtpPkStr @ '' failed'') e)
          (fcQueryFinalityProvider F (fcToBTCPK F fpBtpPk) w) (\<lambda>resp w1.
        case resp of
          None \<Rightarrow> (Inl (EText (''no found finality provider by '' @ fpBtpPkStr)), w1)
        | Some fp \<Rightarrow>
            thenW (EWrap ''putFpFromResponse failed'') (putFpFromResponse S F fp chainID w1) (\<lambda>_ w2.
            thenW (EWrap ''GetFinalityProvider failed'') (stGetFinalityProvider S (fcToBTCPK F fpBtpPk) w2)
              (\<lambda>_ w3. (Inr (), w3)))))"

subsection \<open>What the store keeps\<close>

text \<open>
  \<open>view w k\<close> is the entry of key \<open>k\<close> in the store. Each operation of the store is one database
  transaction: it does its update or fails and changes nothing; setting the last voted height only raises it
  (the store documents that it increases monotonically); a fresh entry is registered, with no
  height voted. Queries of the chains do not write the store. Decimals are counts of \<open>10 ^ -18\<close>.
\<close>

record fp_entry =
  eAddr :: string
  eDescription :: string
  eCommission :: "nat option"
  eChainID :: string
  eLastVotedHeight :: u64
  eStatus :: FinalityProviderStatus

type_synonym 'w store_view = "'w \<Rightarrow> string \<Rightarrow> fp_entry option"

definition reads_entry :: "'w store_view \<Rightarrow> err \<Rightarrow> string \<Rightarrow> 'w \<Rightarrow> 'f res \<times> 'w \<Rightarrow> bool" where
  "reads_entry view notFound k w rw = (view (snd rw) = view w \<and>
     (case fst rw of Inl e \<Rightarrow> err_is e notFound \<longrightarrow> view w k = None | Inr _ \<Rightarrow> view w k \<noteq> None))"

definition changes_entry :: "'w store_view \<Rightarrow> string \<Rightarrow> (fp_entry \<Rightarrow> fp_entry) \<Rightarrow> 'w \<Rightarrow> unit res \<times> 'w \<Rightarrow> bool" where
  "changes_entry view k f w rw = (case fst rw of
      Inl _ \<Rightarrow> view (snd rw) = view w
    | Inr _ \<Rightarrow> (\<exists>en. view w k = Some en \<and> view (snd rw) = (view w)(k \<mapsto> f en)))"

definition creates_entry :: "'w store_view \<Rightarrow> string \<Rightarrow> fp_entry \<Rightarrow> 'w \<Rightarrow> unit res \<times> 'w \<Rightarrow> bool" where
  "creates_entry view k en w rw =
     (view (snd rw) = (case fst rw of Inl _ \<Rightarrow> view w | Inr _ \<Rightarrow> (view w)(k \<mapsto> en)))"

definition store_ok :: "'w store_view \<Rightarrow> ('w, 'f, 'i) fp_store \<Rightarrow> 'w fp_calls \<Rightarrow> bool" where
  "store_ok view S F = (\<forall>w k.
     reads_entry view (stNotFound S) k w (stGetFinalityProvider S k w) \<and>
     (\<forall>a d cr c. creates_entry view k
        \<lparr>eAddr = a, eDescription = d, eCommission = Some (crRate cr), eChainID = c, eLastVotedHeight = 0, eStatus = REGISTERED\<rparr>
        w (stCreateFinalityProvider S a k d cr c w)) \<and>
     (\<forall>d c. changes_entry view k (\<lambda>en. en\<lparr>eDescription := d, eCommission := c\<rparr>) w (stSetFpDescription S k d c w)) \<and>
     (\<forall>h. changes_entry view k (\<lambda>en. en\<lparr>eLastVotedHeight := max (eLastVotedHeight en) h\<rparr>) w (stSetFpLastVotedHeight S k h w)) \<and>
     (\<forall>st. changes_entry view k (\<lambda>en. en\<lparr>eStatus := st\<rparr>) w (stSetFpStatus S k st w)) \<and>
     view (snd (fcQueryFinalityProvider F k w)) = view w \<and>
     (\<forall>h. view (snd (fcQueryHasPower F k h w)) = view w))"

lemma store_okD:
  assumes "store_ok view S F"
  shows "stGetFinalityProvider S k w = (r, w1) \<Longrightarrow> reads_entry view (stNotFound S) k w (r, w1)"
    and "stCreateFinalityProvider S a k d cr c w = (u, w1) \<Longrightarrow> creates_entry view k
        \<lparr>eAddr = a, eDescription = d, eCommission = Some (crRate cr), eChainID = c, eLastVotedHeight = 0, eStatus = REGISTERED\<rparr>
        w (u, w1)"
    and "stSetFpDescription S k d co w = (u, w1) \<Longrightarrow>
        changes_entry view k (\<lambda>en. en\<lparr>eDescription := d, eCommission := co\<rparr>) w (u, w1)"
    and "stSetFpLastVotedHeight S k h w = (u, w1) \<Longrightarrow>
        changes_entry view k (\<lambda>en. en\<lparr>eLastVotedHeight := max (eLastVotedHeight en) h\<rparr>) w (u, w1)"
    and "stSetFpStatus S k st w = (u, w1) \<Longrightarrow> changes_entry view k (\<lambda>en. en\<lparr>eStatus := st\<rparr>) w (u, w1)"
    and "fcQueryFinalityProvider F k w = (q, w1) \<Longrightarrow> view w1 = view w"
    and "fcQueryHasPower F k h w = (p, w1) \<Longrightarrow> view w1 = view w"
proof -
  note law = assms [unfolded store_ok_def, rule_format, where w = w and k = k]
  show "stGetFinalityProvider S k w = (r, w1) \<Longrightarrow> reads_entry view (stNotFound S) k w (r, w1)"
    using law by metis
  show "stCreateFinalityProvider S a k d cr c w = (u, w1) \<Longrightarrow> creates_entry view k
        \<lparr>eAddr = a, eDescription = d, eCommission = Some (crRate cr), eChainID = c, eLastVotedHeight = 0, eStatus = REGISTERED\<rparr>
        w (u, w1)"
    using law by metis
  show "stSetFpDescription S k d co w = (u, w1) \<Longrightarrow>
        changes_entry view k (\<lambda>en. en\<lparr>eDescription := d, eCommission := co\<rparr>) w (u, w1)"
    using law by metis
  show "stSetFpLastVotedHeight S k h w = (u, w1) \<Longrightarrow>
        changes_entry view k (\<lambda>en. en\<lparr>eLastVotedHeight := max (eLastVotedHeight en) h\<rparr>) w (u, w1)"
    by (drule sym) (simp add: law)
  show "stSetFpStatus S k st w = (u, w1) \<Longrightarrow> changes_entry view k (\<lambda>en. en\<lparr>eStatus := st\<rparr>) w (u, w1)"
    using law by metis
  show "fcQueryFinalityProvider F k w = (q, w1) \<Longrightarrow> view w1 = view w"
    using law by (metis snd_conv)
  show "fcQueryHasPower F k h w = (p, w1) \<Longrightarrow> view w1 = view w"
    using law by (metis snd_conv)
qed

text \<open>
  What a response makes of an entry that exists, given whether the provider has power, and of one that
  does not. The status is by precedence: power, then slashing, then jailing.
\<close>

definition updated_entry :: "bool \<Rightarrow> fp_response \<Rightarrow> fp_entry \<Rightarrow> fp_entry" where
  "updated_entry hasPower fp en = en\<lparr>eDescription := rDescription fp, eCommission := rCommission fp,
     eLastVotedHeight := max (eLastVotedHeight en) (ucast (rHighestVotedHeight fp)),
     eStatus := (if hasPower then ACTIVE else if rSlashedBtcHeight fp \<noteq> 0 then SLASHED
       else if rJailed fp then JAILED else INACTIVE)\<rparr>"

definition created_entry :: "string \<Rightarrow> string \<Rightarrow> fp_response \<Rightarrow> fp_entry" where
  "created_entry addr chainID fp = \<lparr>eAddr = addr, eDescription = rDescription fp, eCommission = rCommission fp,
     eChainID = chainID, eLastVotedHeight = 0, eStatus = REGISTERED\<rparr>"

text \<open>The world in which the power is asked for: the entry was read and its description and height written.\<close>

definition asked_in :: "('w, 'f, 'i) fp_store \<Rightarrow> 'w fp_calls \<Rightarrow> fp_response \<Rightarrow> 'w \<Rightarrow> 'w" where
  "asked_in S F fp w = (let k = fcToBTCPK F (rBtcPk fp) in
     snd (stSetFpLastVotedHeight S k (ucast (rHighestVotedHeight fp))
       (snd (stSetFpDescription S k (rDescription fp) (rCommission fp) (snd (stGetFinalityProvider S k w))))))"

lemma updateFp_ok:
  assumes "store_ok view S F" "updateFp S F fp w = (Inr u, w')" "w = snd (stGetFinalityProvider S (fcToBTCPK F (rBtcPk fp)) w0)"
  shows "\<exists>en hasPower. view w (fcToBTCPK F (rBtcPk fp)) = Some en \<and>
    fst (fcQueryHasPower F (fcToBTCPK F (rBtcPk fp)) (rHeight fp) (asked_in S F fp w0)) = Inr hasPower \<and>
    view w' = (view w)(fcToBTCPK F (rBtcPk fp) \<mapsto> updated_entry hasPower fp en)"
proof -
  let ?k = "fcToBTCPK F (rBtcPk fp)"
  obtain w1 w2 w3 hp u1 u2 u4 where
    s: "stSetFpDescription S ?k (rDescription fp) (rCommission fp) w = (Inr u1, w1)"
      "stSetFpLastVotedHeight S ?k (ucast (rHighestVotedHeight fp)) w1 = (Inr u2, w2)"
      "fcQueryHasPower F ?k (rHeight fp) w2 = (Inr hp, w3)"
      "stSetFpStatus S ?k (fp_status hp fp) w3 = (Inr u4, w')"
    using assms(2) by (auto simp: updateFp_def Let_def thenW_Inr)
  have "asked_in S F fp w0 = w2" using s(1,2) by (simp add: asked_in_def Let_def assms(3) [symmetric])
  note laws = store_okD(3) [OF assms(1) s(1)] store_okD(4) [OF assms(1) s(2)]
    store_okD(7) [OF assms(1) s(3)] store_okD(5) [OF assms(1) s(4)]
  have "fp_status hp fp = (if hp then ACTIVE else if rSlashedBtcHeight fp \<noteq> 0 then SLASHED
       else if rJailed fp then JAILED else INACTIVE)"
    by (simp add: fp_status_def word_gt_0)
  with laws have "\<exists>en. view w ?k = Some en \<and> view w' = (view w)(?k \<mapsto> updated_entry hp fp en)"
    by (auto simp: changes_entry_def updated_entry_def)
  with s(3) \<open>asked_in S F fp w0 = w2\<close> show ?thesis by auto
qed

lemma createFp_ok:
  assumes "store_ok view S F" "createFp S F fp chainID w = (Inr u, w')"
  shows "\<exists>addr. fcAccAddress F (rAddr fp) = Inr addr \<and> rCommissionInfo fp \<noteq> None \<and> rCommission fp \<noteq> None \<and>
    view w' = (view w)(fcToBTCPK F (rBtcPk fp) \<mapsto> created_entry addr chainID fp)"
  using assms(2)
  by (auto simp: createFp_def thenW_Inr creates_entry_def created_entry_def
      dest!: store_okD(2) [OF assms(1)] split: sum.splits option.splits)

lemma createFp_error:
  assumes "store_ok view S F" "createFp S F fp chainID w = (Inl e, w')"
  shows "view w' = view w"
  using assms(2)
  by (auto simp: createFp_def thenW_def creates_entry_def
      dest!: store_okD(2) [OF assms(1)] split: sum.splits option.splits prod.splits)

lemma changes_entry_frame: "changes_entry view k f w rw \<Longrightarrow> k' \<noteq> k \<Longrightarrow> view (snd rw) k' = view w k'"
  by (auto simp: changes_entry_def split: sum.splits)

lemma updateFp_frame:
  assumes "store_ok view S F" "updateFp S F fp w = (r, w')" "k' \<noteq> fcToBTCPK F (rBtcPk fp)"
  shows "view w' k' = view w k'"
proof -
  have d: "view w1 k' = view w k'" if "stSetFpDescription S (fcToBTCPK F (rBtcPk fp)) d c w = (u, w1)" for d c w u w1
    using changes_entry_frame [OF store_okD(3) [OF assms(1) that] assms(3)] by simp
  have h: "view w1 k' = view w k'" if "stSetFpLastVotedHeight S (fcToBTCPK F (rBtcPk fp)) h w = (u, w1)" for h w u w1
    using changes_entry_frame [OF store_okD(4) [OF assms(1) that] assms(3)] by simp
  have st: "view w1 k' = view w k'" if "stSetFpStatus S (fcToBTCPK F (rBtcPk fp)) st w = (u, w1)" for st w u w1
    using changes_entry_frame [OF store_okD(5) [OF assms(1) that] assms(3)] by simp
  have p: "view w1 k' = view w k'" if "fcQueryHasPower F (fcToBTCPK F (rBtcPk fp)) h w = (u, w1)" for h w u w1
    using store_okD(7) [OF assms(1) that] by simp
  from assms(2) show ?thesis
    by (auto simp: updateFp_def Let_def thenW_def dest!: d h st p split: prod.splits sum.splits)
qed

lemma putFp_cases:
  assumes "store_ok view S F" "putFpFromResponse S F fp chainID w = (r, w')"
  defines "k \<equiv> fcToBTCPK F (rBtcPk fp)"
  obtains (absent) w1 where "view w k = None" "view w1 = view w" "createFp S F fp chainID w1 = (r, w')"
    | (present) w1 where "view w k \<noteq> None" "view w1 = view w" "updateFp S F fp w1 = (r, w')"
        "w1 = snd (stGetFinalityProvider S k w)"
    | (unread) e where "r = Inl e" "view w' = view w"
proof -
  obtain g w1 where g: "stGetFinalityProvider S k w = (g, w1)" by fastforce
  from store_okD(1) [OF assms(1) g] have read: "view w1 = view w"
    "case g of Inl e \<Rightarrow> err_is e (stNotFound S) \<longrightarrow> view w k = None | Inr _ \<Rightarrow> view w k \<noteq> None"
    by (auto simp: reads_entry_def)
  show thesis
  proof (cases g)
    case (Inl e)
    with assms(2) g read show thesis
      by (cases "err_is e (stNotFound S)") (auto simp: putFpFromResponse_def k_def intro: absent unread)
  next
    case (Inr v)
    with assms(2) g read show thesis
      by (intro present [of w1]) (auto simp: putFpFromResponse_def k_def)
  qed
qed

text \<open>
  \<open>restored\<close>: the store \<open>v\<close> with the one entry that a restore writes, for the response \<open>fp\<close> that came
  in world \<open>w\<close>; the power is what the consumer chain answers for this key at the height of the response.
\<close>

definition restored :: "('w, 'f, 'i) fp_store \<Rightarrow> 'w fp_calls \<Rightarrow> fp_response \<Rightarrow> string \<Rightarrow> 'w \<Rightarrow>
    (string \<Rightarrow> fp_entry option) \<Rightarrow> (string \<Rightarrow> fp_entry option) \<Rightarrow> bool" where
  "restored S F fp chainID w v v' = (let k = fcToBTCPK F (rBtcPk fp) in case v k of
      Some en \<Rightarrow> (\<exists>hasPower. fst (fcQueryHasPower F k (rHeight fp) (asked_in S F fp w)) = Inr hasPower \<and>
        v' = v(k \<mapsto> updated_entry hasPower fp en))
    | None \<Rightarrow> (\<exists>addr. fcAccAddress F (rAddr fp) = Inr addr \<and> v' = v(k \<mapsto> created_entry addr chainID fp)))"

lemma putFp_ok:
  assumes "store_ok view S F" "putFpFromResponse S F fp chainID w = (Inr u, w')"
  shows "restored S F fp chainID w (view w) (view w')"
  using assms
proof (cases rule: putFp_cases)
  case (absent w1)
  with createFp_ok [OF assms(1) absent(3)] show ?thesis by (auto simp: restored_def Let_def)
next
  case (present w1)
  with updateFp_ok [OF assms(1) present(3,4)] show ?thesis by (auto simp: restored_def Let_def)
qed simp

subsection \<open>Properties\<close>

text \<open>A store that is a function, with one response of the chain.\<close>

type_synonym demo_table = "string \<Rightarrow> fp_entry option"

definition demo_update :: "string \<Rightarrow> (fp_entry \<Rightarrow> fp_entry) \<Rightarrow> demo_table \<Rightarrow> unit res \<times> demo_table" where
  "demo_update k f w = (case w k of None \<Rightarrow> (Inl (ESentinel ''not found''), w) | Some en \<Rightarrow> (Inr (), w(k \<mapsto> f en)))"

definition demo_store :: "(demo_table, fp_entry, string) fp_store" where
  "demo_store = \<lparr>
     stGetFinalityProvider = (\<lambda>k w. (case w k of None \<Rightarrow> Inl (ESentinel ''not found'') | Some en \<Rightarrow> Inr en, w)),
     stCreateFinalityProvider = (\<lambda>a k d cr c w. (Inr (), w(k \<mapsto> \<lparr>eAddr = a, eDescription = d,
        eCommission = Some (crRate cr), eChainID = c, eLastVotedHeight = 0, eStatus = REGISTERED\<rparr>))),
     stSetFpDescription = (\<lambda>k d c. demo_update k (\<lambda>en. en\<lparr>eDescription := d, eCommission := c\<rparr>)),
     stSetFpLastVotedHeight = (\<lambda>k h. demo_update k (\<lambda>en. en\<lparr>eLastVotedHeight := max (eLastVotedHeight en) h\<rparr>)),
     stSetFpStatus = (\<lambda>k st. demo_update k (\<lambda>en. en\<lparr>eStatus := st\<rparr>)),
     stGetAllStored = (\<lambda>w. (Inr [], w)), stInfo = eDescription, stNotFound = ESentinel ''not found''\<rparr>"

definition demo_response :: fp_response where
  "demo_response = \<lparr>rBtcPk = ''pk'', rAddr = ''addr'', rDescription = ''fp'', rCommission = Some 5,
     rCommissionInfo = Some (20, 1), rSlashedBtcHeight = 8, rJailed = True, rHighestVotedHeight = 77, rHeight = 90\<rparr>"

definition demo_calls :: "demo_table fp_calls" where
  "demo_calls = \<lparr>fcParsePk = Inr, fcToBTCPK = (\<lambda>k. k), fcMarshalHex = (\<lambda>k. k), fcAccAddress = Inr,
     fcQueryFinalityProvider = (\<lambda>k w. (Inr (Some demo_response), w)), fcQueryHasPower = (\<lambda>k h w. (Inr False, w))\<rparr>"

lemma demo_store_ok: "store_ok (\<lambda>w. w) demo_store demo_calls"
  by (auto simp: store_ok_def demo_store_def demo_calls_def reads_entry_def changes_entry_def creates_entry_def
      demo_update_def split: option.splits)

lemma RestoreFP_ok:
  assumes "store_ok view S F" "RestoreFP S F keyName chainID pkStr w = (Inr u, w')"
  shows "\<exists>pk fp w1. fcParsePk F pkStr = Inr pk \<and>
    fcQueryFinalityProvider F (fcToBTCPK F pk) w = (Inr (Some fp), w1) \<and>
    restored S F fp chainID w1 (view w) (view w') \<and> view w' (fcToBTCPK F pk) \<noteq> None"
proof -
  obtain pk where pk: "fcParsePk F pkStr = Inr pk"
    using assms(2) by (auto simp: RestoreFP_def split: sum.splits)
  then obtain resp w1 where q: "fcQueryFinalityProvider F (fcToBTCPK F pk) w = (Inr resp, w1)"
    using assms(2) by (auto simp: RestoreFP_def thenW_Inr)
  with assms(2) pk obtain fp w2 u2 v where fp: "resp = Some fp" "putFpFromResponse S F fp chainID w1 = (Inr u2, w2)"
    "stGetFinalityProvider S (fcToBTCPK F pk) w2 = (Inr v, w')"
    by (auto simp: RestoreFP_def thenW_Inr split: option.splits)
  have "view w1 = view w" by (rule store_okD(6) [OF assms(1) q])
  moreover have "view w' = view w2" "view w2 (fcToBTCPK F pk) \<noteq> None"
    using store_okD(1) [OF assms(1) fp(3)] by (auto simp: reads_entry_def)
  ultimately show ?thesis
    using putFp_ok [OF assms(1) fp(2)] pk q fp(1) by auto
qed

text \<open>
  (C13) A restore that succeeds: the key parsed, the chain answered a provider for it, and the store has changed
  in the one entry of the key the chain answered. An entry that was there has the chain's description and
  commission, the larger of its own last voted height and the chain's highest one, and the status by
  precedence: active if the consumer chain answers that this key has power at the height of the response, else
  slashed if the response has a slashing height, else jailed, else inactive. A new entry has the chain's description
  and commission but starts as registered with no height voted, whatever height the chain says was voted last.
\<close>

theorem restore_success:
  assumes "store_ok view S F" "RestoreFP S F keyName chainID pkStr w = (Inr u, w')"
  shows "\<exists>pk fp w1. fcParsePk F pkStr = Inr pk \<and>
    fcQueryFinalityProvider F (fcToBTCPK F pk) w = (Inr (Some fp), w1) \<and> view w' (fcToBTCPK F pk) \<noteq> None \<and>
    (let k = fcToBTCPK F (rBtcPk fp) in case view w k of
        Some en \<Rightarrow> (\<exists>hasPower. fst (fcQueryHasPower F k (rHeight fp) (asked_in S F fp w1)) = Inr hasPower \<and>
          view w' = (view w)(k \<mapsto> en\<lparr>eDescription := rDescription fp, eCommission := rCommission fp,
            eLastVotedHeight := max (eLastVotedHeight en) (ucast (rHighestVotedHeight fp)),
            eStatus := (if hasPower then ACTIVE else if rSlashedBtcHeight fp \<noteq> 0 then SLASHED
              else if rJailed fp then JAILED else INACTIVE)\<rparr>))
      | None \<Rightarrow> (\<exists>addr. fcAccAddress F (rAddr fp) = Inr addr \<and>
          view w' = (view w)(k \<mapsto> \<lparr>eAddr = addr, eDescription = rDescription fp, eCommission = rCommission fp,
            eChainID = chainID, eLastVotedHeight = 0, eStatus = REGISTERED\<rparr>)))"
proof -
  obtain pk fp w1 where r: "fcParsePk F pkStr = Inr pk"
    "fcQueryFinalityProvider F (fcToBTCPK F pk) w = (Inr (Some fp), w1)" "view w' (fcToBTCPK F pk) \<noteq> None"
    "restored S F fp chainID w1 (view w) (view w')" using RestoreFP_ok [OF assms] by blast
  show ?thesis
    by (rule exI [of _ pk], rule exI [of _ fp], rule exI [of _ w1], intro conjI r(1-3))
      (rule r(4) [unfolded restored_def updated_entry_def created_entry_def])
qed

text \<open>
  Two restores of a provider that is slashed and jailed and has no power: into an empty store, and over an entry
  that has voted at 100, higher than the chain's 77.
\<close>

definition demo_old :: fp_entry where
  "demo_old = \<lparr>eAddr = ''addr'', eDescription = ''old'', eCommission = None, eChainID = ''1'', eLastVotedHeight = 100, eStatus = ACTIVE\<rparr>"

theorem restore_success_witness:
  "(\<exists>en. snd (RestoreFP demo_store demo_calls ''key'' ''1'' ''pk'' (\<lambda>_. None)) ''pk'' = Some en \<and>
      eStatus en = REGISTERED \<and> eLastVotedHeight en = 0) \<and>
   snd (RestoreFP demo_store demo_calls ''key'' ''1'' ''pk'' [''pk'' \<mapsto> demo_old]) ''pk'' =
     Some \<lparr>eAddr = ''addr'', eDescription = ''fp'', eCommission = Some 5, eChainID = ''1'', eLastVotedHeight = 100, eStatus = SLASHED\<rparr>"
proof -
  let ?r = "RestoreFP demo_store demo_calls ''key'' ''1'' ''pk''"
  have "?r (\<lambda>_. None) = (Inr (), snd (?r (\<lambda>_. None)))"
    by (simp add: RestoreFP_def demo_store_def demo_calls_def demo_response_def putFpFromResponse_def createFp_def)
  from restore_success [OF demo_store_ok this] have
    "\<exists>en. snd (?r (\<lambda>_. None)) ''pk'' = Some en \<and> eStatus en = REGISTERED \<and> eLastVotedHeight en = 0"
    by (auto simp: demo_calls_def demo_response_def)
  moreover have "?r [''pk'' \<mapsto> demo_old] = (Inr (), snd (?r [''pk'' \<mapsto> demo_old]))"
    by (simp add: RestoreFP_def demo_store_def demo_calls_def demo_response_def putFpFromResponse_def updateFp_def demo_update_def Let_def)
  from restore_success [OF demo_store_ok this] have "snd (?r [''pk'' \<mapsto> demo_old]) ''pk'' =
     Some \<lparr>eAddr = ''addr'', eDescription = ''fp'', eCommission = Some 5, eChainID = ''1'', eLastVotedHeight = 100, eStatus = SLASHED\<rparr>"
    by (auto simp: Let_def demo_calls_def demo_response_def demo_old_def max_def)
  ultimately show ?thesis by blast
qed

text \<open>
  A restore writes the entry of one key only, and a failed creation of an entry leaves the store
  as it was. A failed update may have written the description or the last voted height already.
\<close>

theorem put_changes_one_entry:
  assumes "store_ok view S F" "putFpFromResponse S F fp chainID w = (r, w')"
  shows "(\<forall>k'. k' \<noteq> fcToBTCPK F (rBtcPk fp) \<longrightarrow> view w' k' = view w k') \<and>
    (view w (fcToBTCPK F (rBtcPk fp)) = None \<and> \<not> is_ok r \<longrightarrow> view w' = view w)"
  using assms
proof (cases rule: putFp_cases)
  case (absent w1)
  show ?thesis
  proof (cases r)
    case (Inl e)
    with createFp_error [OF assms(1) absent(3) [unfolded Inl]] absent show ?thesis by simp
  next
    case (Inr u)
    with createFp_ok [OF assms(1) absent(3) [unfolded Inr]] absent show ?thesis by auto
  qed
next
  case (present w1)
  with updateFp_frame [OF assms(1) present(3)] show ?thesis by auto
qed simp

theorem put_changes_one_entry_witness:
  "snd (putFpFromResponse demo_store demo_calls (demo_response\<lparr>rCommission := None\<rparr>) ''1'' (\<lambda>_. None)) = (\<lambda>_. None)"
proof -
  let ?r = "putFpFromResponse demo_store demo_calls (demo_response\<lparr>rCommission := None\<rparr>) ''1'' (\<lambda>_. None)"
  have "\<not> is_ok (fst ?r)"
    by (simp add: putFpFromResponse_def createFp_def demo_store_def demo_calls_def demo_response_def)
  moreover have "?r = (fst ?r, snd ?r)" by simp
  ultimately show ?thesis
    using put_changes_one_entry [OF demo_store_ok, of "demo_response\<lparr>rCommission := None\<rparr>" "''1''" "\<lambda>_. None"
        "fst ?r" "snd ?r"] by simp
qed

end
