(* ===== verification/FpsCommands.thy ===== *)
theory FpsCommands
  imports Startup FpRestore
begin

text \<open>
  The short commands: \<open>fps restore\<close> and \<open>fps show\<close> (operator/finality-gadget-operator/fps.go) with the
  provider they run on (operator/fp/fp.go). They read the configuration as the services do, connect, and run
  one operation.
\<close>

subsection \<open>The commands on the store of finality providers\<close>

record 'w fps_deps =
  fdNewBabylonController :: "'w \<Rightarrow> unit res \<times> 'w"
  fdStartController :: "'w \<Rightarrow> unit res \<times> 'w"
  fdNewConsumerController :: "'w \<Rightarrow> unit res \<times> 'w"
  fdNewStore :: "'w \<Rightarrow> unit res \<times> 'w"

definition NewFpsCmdProvider :: "'w fps_deps \<Rightarrow> 'w \<Rightarrow> unit res \<times> 'w" where
  "NewFpsCmdProvider N w =
     thenW (EWrap ''failed to create rpc client for the Babylon chain'') (fdNewBabylonController N w) (\<lambda>_ w1.
     thenW (EWrap ''failed to start rpc client for the Babylon chain'') (fdStartController N w1) (\<lambda>_ w2.
     thenW (EWrap ''failed to create rpc client for the consumer chain babylon'') (fdNewConsumerController N w2) (\<lambda>_ w3.
     thenW (EWrap ''failed to initiate finality provider store'') (fdNewStore N w3) (\<lambda>_ w4. (Inr (), w4)))))"

definition newAppParams :: "('w, 'l) service_deps \<Rightarrow> OperatorConfig \<Rightarrow> 'w \<Rightarrow> unit res \<times> 'w" where
  "newAppParams S cfg w =
     thenW (EWrap ''failed to load configuration'') (sdLoadFpConfig S (FinalityProviderHomePath cfg) w) (\<lambda>_ w1.
     thenW (EWrap ''failed to create db backend'') (sdGetDBBackend S w1) (\<lambda>_ w2. (Inr (), w2)))"

text \<open>What both commands do before their operation.\<close>

definition fps_setup :: "('w, 'l) service_deps \<Rightarrow> 'w fps_deps \<Rightarrow> OperatorConfig \<Rightarrow> 'w \<Rightarrow> unit res \<times> 'w" where
  "fps_setup S N cfg w =
     thenW (EWrap ''failed to create params for app'') (newAppParams S cfg w) (\<lambda>_ w1.
     thenW (EWrap ''failed to create cmd provider'') (NewFpsCmdProvider N w1) (\<lambda>_ w2. (Inr (), w2)))"

definition fps_command :: "('w, 'l) service_deps \<Rightarrow> env \<Rightarrow> string \<Rightarrow>
    (OperatorConfig \<Rightarrow> 'w \<Rightarrow> 'a res \<times> 'w) \<Rightarrow> 'w \<Rightarrow> 'a res outcome \<times> 'w" where
  "fps_command S env path body w =
     (case load_config (sdConfig S) operator_WithEnv env path ''./finality-gadget-operator.yaml'' of
        Panicked m \<Rightarrow> (Panicked m, w) | Exited m \<Rightarrow> (Exited m, w)
      | Returned cfg \<Rightarrow> (case NewZapLoggerInner (sdBuildLogger S) (NewLogLevel (Production (oCommon cfg))) of
            Panicked m \<Rightarrow> (Panicked m, w) | Exited m \<Rightarrow> (Exited m, w)
          | Returned (Inl e) \<Rightarrow> (Exited (''new logger failed by '' @ err_string e), w)
          | Returned (Inr _) \<Rightarrow> (case body cfg w of (r, w1) \<Rightarrow> (Returned r, w1))))"

text \<open>
  \<open>fps restore\<close> hands the chain id of the configuration over as \<open>strconv.Itoa(int(chainId))\<close>; it
  makes no client of the L2 chain, so an id that is left to be filled in stays zero.
\<close>

definition fpsRestore :: "('w, 'l) service_deps \<Rightarrow> 'w fps_deps \<Rightarrow> ('w, 'f, 'i) fp_store \<Rightarrow> 'w fp_calls \<Rightarrow>
    env \<Rightarrow> string \<Rightarrow> string \<Rightarrow> string \<Rightarrow> 'w \<Rightarrow> unit res outcome \<times> 'w" where
  "fpsRestore S N St F env path keyName fpBtcPk = fps_command S env path (\<lambda>cfg w.
     thenW (\<lambda>e. e) (fps_setup S N cfg w) (\<lambda>_ w1.
       RestoreFP St F keyName (show_int (sint (ChainId (oLayer2 cfg)))) fpBtcPk w1))"

text \<open>\<open>fps show\<close> prints a line for each stored provider; the model returns the lines.\<close>

definition fpsShow :: "('w, 'l) service_deps \<Rightarrow> 'w fps_deps \<Rightarrow> ('w, 'f, string) fp_store \<Rightarrow>
    env \<Rightarrow> string \<Rightarrow> 'w \<Rightarrow> string list res outcome \<times> 'w" where
  "fpsShow S N St env path = fps_command S env path (\<lambda>cfg w.
     thenW (\<lambda>e. e) (fps_setup S N cfg w) (\<lambda>_ w1.
     thenW (EWrap ''failed to GetAllStoredFinalityProviders'') (ListAllFinalityProvidersInfo St w1) (\<lambda>storedFps w2.
       (Inr (map (\<lambda>sfp. ''finality provider '' @ sfp @ [CHR 0x0A]) storedFps), w2))))"

subsection \<open>Properties\<close>

lemma fps_command_ok:
  assumes "fps_command S env path body w = (Returned r, w')"
  shows "\<exists>cfg. load_config (sdConfig S) operator_WithEnv env path ''./finality-gadget-operator.yaml'' = Returned cfg \<and>
    body cfg w = (r, w')"
proof (cases "load_config (sdConfig S) operator_WithEnv env path ''./finality-gadget-operator.yaml''")
  case cfg: (Returned cfg)
  show ?thesis
  proof (cases "NewZapLoggerInner (sdBuildLogger S) (NewLogLevel (Production (oCommon cfg)))")
    case (Returned l)
    with assms cfg show ?thesis
      by (cases l) (auto simp: fps_command_def split: prod.splits)
  qed (use assms cfg in \<open>simp_all add: fps_command_def\<close>)
qed (use assms in \<open>simp_all add: fps_command_def\<close>)

text \<open>The setup only connects: it does not write the store.\<close>

definition setup_keeps :: "'w store_view \<Rightarrow> ('w, 'l) service_deps \<Rightarrow> 'w fps_deps \<Rightarrow> bool" where
  "setup_keeps view S N = (\<forall>w.
     (\<forall>h. view (snd (sdLoadFpConfig S h w)) = view w) \<and> view (snd (sdGetDBBackend S w)) = view w \<and>
     view (snd (fdNewBabylonController N w)) = view w \<and> view (snd (fdStartController N w)) = view w \<and>
     view (snd (fdNewConsumerController N w)) = view w \<and> view (snd (fdNewStore N w)) = view w)"

lemma thenW_keeps:
  assumes "view (snd rw) = view w" "\<And>v w1. view w1 = view w \<Longrightarrow> view (snd (k v w1)) = view w"
  shows "view (snd (thenW wrap rw k)) = view w"
  using assms by (auto simp: thenW_def split: prod.splits sum.splits)

lemma fps_setup_keeps:
  assumes "setup_keeps view S N"
  shows "view (snd (fps_setup S N cfg w)) = view w"
proof -
  note k = assms [unfolded setup_keeps_def, rule_format]
  have params: "view (snd (newAppParams S cfg w)) = view w" for w
    unfolding newAppParams_def by (intro thenW_keeps) (simp_all add: k)
  have new: "view (snd (NewFpsCmdProvider N w)) = view w" for w
    unfolding NewFpsCmdProvider_def by (intro thenW_keeps) (simp_all add: k)
  show ?thesis
    unfolding fps_setup_def by (intro thenW_keeps) (simp_all add: params new)
qed

text \<open>
  \<open>fps restore\<close> from the configuration to the store: when the command returns without an error, the key parsed,
  the chain answered a provider for it, and the store has changed as \<open>restored\<close> says, with the chain id of the
  configuration, printed as a signed integer.
\<close>

lemma fps_restore_end_to_end:
  assumes "store_ok view St F" "setup_keeps view S N"
    and "fpsRestore S N St F env path keyName pkStr w = (Returned (Inr u), w')"
  shows "\<exists>cfg pk fp w1. load_config (sdConfig S) operator_WithEnv env path ''./finality-gadget-operator.yaml'' = Returned cfg \<and>
    fcParsePk F pkStr = Inr pk \<and>
    fcQueryFinalityProvider F (fcToBTCPK F pk) (snd (fps_setup S N cfg w)) = (Inr (Some fp), w1) \<and>
    restored St F fp (show_int (sint (ChainId (oLayer2 cfg)))) w1 (view w) (view w') \<and> view w' (fcToBTCPK F pk) \<noteq> None"
proof -
  obtain cfg where cfg: "load_config (sdConfig S) operator_WithEnv env path ''./finality-gadget-operator.yaml'' = Returned cfg"
    "thenW (\<lambda>e. e) (fps_setup S N cfg w) (\<lambda>_ w1.
       RestoreFP St F keyName (show_int (sint (ChainId (oLayer2 cfg)))) pkStr w1) = (Inr u, w')"
    using fps_command_ok [OF assms(3) [unfolded fpsRestore_def]] by blast
  then obtain v w1 where w1: "fps_setup S N cfg w = (Inr v, w1)"
    "RestoreFP St F keyName (show_int (sint (ChainId (oLayer2 cfg)))) pkStr w1 = (Inr u, w')"
    by (auto simp: thenW_Inr)
  have "view w1 = view w" using fps_setup_keeps [OF assms(2), of cfg w] w1(1) by simp
  with RestoreFP_ok [OF assms(1) w1(2)] cfg(1) w1(1) show ?thesis by (metis snd_conv)
qed

definition demo_fps_deps :: "demo_table fps_deps" where
  "demo_fps_deps = \<lparr>fdNewBabylonController = (\<lambda>w. (Inr (), w)), fdStartController = (\<lambda>w. (Inr (), w)),
     fdNewConsumerController = (\<lambda>w. (Inr (), w)), fdNewStore = (\<lambda>w. (Inr (), w))\<rparr>"

definition demo_table_service :: "(demo_table, unit) service_deps" where
  "demo_table_service = \<lparr>sdConfig = \<lparr>csExists = (\<lambda>p. True), csRead = Inr, csUnmarshal = (\<lambda>b. Inr demo_cfg)\<rparr>,
     sdBuildLogger = (\<lambda>z n. Inr ()), sdMetricsStart = (\<lambda>a w. w), sdMetricsStop = (\<lambda>w. w),
     sdLoadFpConfig = (\<lambda>h w. (Inr (), w)), sdGetDBBackend = (\<lambda>w. (Inr (), w))\<rparr>"

lemma demo_load: "load_config (sdConfig demo_table_service) operator_WithEnv (\<lambda>_. None) [] p = Returned demo_cfg"
proof -
  have "effective (\<lambda>_. None) = (\<lambda>_. None)" by (rule ext) (simp add: effective_def)
  with operator_env.overlay_unset [of "\<lambda>_. None" demo_cfg] show ?thesis
    by (simp add: load_config_def ReadConfig_def readYamlConfig_def demo_table_service_def)
qed

lemma show_zero: "show_nat 0 = ''0''"
  by code_simp

lemma demo_restore_runs:
  "\<exists>w'. fpsRestore demo_table_service demo_fps_deps demo_store demo_calls (\<lambda>_. None) [] ''key'' ''pk'' (\<lambda>_. None) = (Returned (Inr ()), w')"
proof -
  let ?r = "fpsRestore demo_table_service demo_fps_deps demo_store demo_calls (\<lambda>_. None) [] ''key'' ''pk'' (\<lambda>_. None)"
  have conn: "fps_setup demo_table_service demo_fps_deps c w = (Inr (), w)" for c w
    by (simp add: fps_setup_def newAppParams_def NewFpsCmdProvider_def demo_table_service_def demo_fps_deps_def)
  have log: "NewZapLoggerInner (sdBuildLogger demo_table_service) l = Returned (Inr ())" for l
    by (simp add: NewZapLoggerInner_def demo_table_service_def)
  have ok: "fst (RestoreFP demo_store demo_calls ''key'' c ''pk'' (\<lambda>_. None)) = Inr ()" for c
    by (simp add: RestoreFP_def demo_store_def demo_calls_def demo_response_def putFpFromResponse_def createFp_def)
  have "fst ?r = Returned (Inr ())"
    using ok [of "show_int (sint (ChainId (oLayer2 demo_cfg)))"]
    by (auto simp: fpsRestore_def fps_command_def demo_load log conn split: prod.splits)
  then show ?thesis by (metis prod.collapse)
qed

lemma demo_setup_keeps: "setup_keeps (\<lambda>w. w) demo_table_service demo_fps_deps"
  by (simp add: setup_keeps_def demo_table_service_def demo_fps_deps_def)

end
