(* ===== verification/Signer.thy ===== *)
theory Signer
  imports Startup
begin

text \<open>
  The signer: its service (signer/services.go) and its command (signer/finality-gadget-signer/main.go). The
  service is a loop on its context and a ticker that only logs; the events its \<open>select\<close> takes are a
  list, and a loop that has used up the list is still waiting.
\<close>

subsection \<open>The service\<close>

datatype select_event = CtxDone | TickerC

record 'h signer_service =
  ssCfg :: SignerConfig
  ssL2Client :: 'h
  ssWg :: nat

definition NewFinalityGadgetSignerService ::
  "('w, 'h) eth_rpc \<Rightarrow> SignerConfig \<Rightarrow> 'w \<Rightarrow> 'h signer_service res \<times> SignerConfig \<times> 'w" where
  "NewFinalityGadgetSignerService E cfg w = (case NewL2EthClient E (sLayer2 cfg) w of
      (Inl e, l2, w1) \<Rightarrow> (Inl (EWrap ''failed to create l2 eth client'' e), cfg\<lparr>sLayer2 := l2\<rparr>, w1)
    | (Inr h, l2, w1) \<Rightarrow> (Inr \<lparr>ssCfg = cfg\<lparr>sLayer2 := l2\<rparr>, ssL2Client = h, ssWg = 0\<rparr>, cfg\<lparr>sLayer2 := l2\<rparr>, w1))"

fun signer_loop :: "select_event list \<Rightarrow> unit res option" where
  "signer_loop [] = None"
| "signer_loop (CtxDone # evs) = Some (Inr ())"
| "signer_loop (TickerC # evs) = signer_loop evs"

text \<open>The wait group is raised at the start and lowered by the deferred function.\<close>

definition Start_signer :: "select_event list \<Rightarrow> 'h signer_service \<Rightarrow> unit res option \<times> 'h signer_service" where
  "Start_signer evs s = (let s1 = s\<lparr>ssWg := ssWg s + 1\<rparr> in case signer_loop evs of
      None \<Rightarrow> (None, s1)
    | Some r \<Rightarrow> (Some r, s1\<lparr>ssWg := ssWg s1 - 1\<rparr>))"

definition Wait_signer :: "'h signer_service \<Rightarrow> bool" where
  "Wait_signer s = (ssWg s = 0)"

lemma signer_loop_result: "signer_loop evs = (if CtxDone \<in> set evs then Some (Inr ()) else None)"
  by (induction evs rule: signer_loop.induct) auto

subsection \<open>The command\<close>

text \<open>\<open>None\<close> is a command that is still running.\<close>

definition signerMain :: "SignerConfig config_source \<Rightarrow> (zap_config \<Rightarrow> nat \<Rightarrow> 'l res) \<Rightarrow> ('w, 'h) eth_rpc \<Rightarrow>
    select_event list \<Rightarrow> env \<Rightarrow> string \<Rightarrow> 'w \<Rightarrow> unit res outcome option \<times> 'w" where
  "signerMain Y build E evs env path w =
     (case load_config Y signer_WithEnv env path ''./finality-gadget-signer.yaml'' of
        Panicked m \<Rightarrow> (Some (Panicked m), w) | Exited m \<Rightarrow> (Some (Exited m), w)
      | Returned cfg \<Rightarrow> (case NewZapLogger build (NewLogLevel (Production (sCommon cfg))) of
            Panicked m \<Rightarrow> (Some (Panicked m), w) | Exited m \<Rightarrow> (Some (Exited m), w)
          | Returned (Inl e) \<Rightarrow> (Some (Exited (''new logger failed by '' @ err_string e)), w)
          | Returned (Inr _) \<Rightarrow> (case NewFinalityGadgetSignerService E cfg w of
                (Inl e, c, w1) \<Rightarrow> (Some (Exited (''Finality gadget signer new failed err '' @ err_string e)), w1)
              | (Inr service, c, w1) \<Rightarrow> (case Start_signer evs service of
                    (None, s) \<Rightarrow> (None, w1)
                  | (Some (Inl e), s) \<Rightarrow> (Some (Returned (Inl (EWrap ''start Finality gadget signer failed'' e))), w1)
                  | (Some (Inr _), s) \<Rightarrow> (if Wait_signer s then Some (Returned (Inr ())) else None, w1)))))"

subsection \<open>Properties\<close>

lemma Start_signer_new:
  assumes "NewFinalityGadgetSignerService E cfg w = (Inr service, c, w1)"
  shows "fst (Start_signer evs service) = (if CtxDone \<in> set evs then Some (Inr ()) else None) \<and>
    (CtxDone \<in> set evs \<longrightarrow> Wait_signer (snd (Start_signer evs service)))"
proof -
  have "ssWg service = 0"
    using assms by (auto simp: NewFinalityGadgetSignerService_def split: prod.splits sum.splits)
  then show ?thesis by (simp add: Start_signer_def signer_loop_result Let_def Wait_signer_def)
qed

text \<open>
  The signer command: it returns only without an error, and exactly when its context has ended; every failure
  before that ends the process. While it runs and when it returns, the client of the L2 chain it made was on the
  chain the configuration names, or the configuration named none.
\<close>

theorem signer_runs_until_cancelled:
  assumes "signerMain Y build E evs env path w = (out, w')" "\<forall>m. out \<noteq> Some (Exited m) \<and> out \<noteq> Some (Panicked m)"
  shows "out = (if CtxDone \<in> set evs then Some (Returned (Inr ())) else None) \<and>
    (\<exists>cfg h n v. load_config Y signer_WithEnv env path ''./finality-gadget-signer.yaml'' = Returned cfg \<and>
       ethChainID E h v = (Inr n, w') \<and> (ChainId (sLayer2 cfg) \<noteq> 0 \<longrightarrow> ChainId (sLayer2 cfg) = word_of_int n))"
proof -
  obtain cfg where cfg: "load_config Y signer_WithEnv env path ''./finality-gadget-signer.yaml'' = Returned cfg"
    using assms by (cases "load_config Y signer_WithEnv env path ''./finality-gadget-signer.yaml''") (auto simp: signerMain_def)
  obtain l where l: "NewZapLogger build (NewLogLevel (Production (sCommon cfg))) = Returned (Inr l)"
    using assms cfg by (cases "NewZapLogger build (NewLogLevel (Production (sCommon cfg)))")
      (auto simp: signerMain_def NewZapLogger_def split: sum.splits)
  obtain r c w1 where n: "NewFinalityGadgetSignerService E cfg w = (r, c, w1)" by (metis prod_cases3)
  obtain service where r: "r = Inr service" using assms cfg l n by (cases r) (auto simp: signerMain_def)
  note start = Start_signer_new [OF n [unfolded r], of evs]
  have "w' = w1" "out = (if CtxDone \<in> set evs then Some (Returned (Inr ())) else None)"
    using assms(1) cfg l n r start by (auto simp: signerMain_def split: prod.splits option.splits sum.splits if_splits)
  moreover obtain h l2 where "NewL2EthClient E (sLayer2 cfg) w = (Inr h, l2, w1)"
    using n r by (auto simp: NewFinalityGadgetSignerService_def split: prod.splits sum.splits)
  ultimately show ?thesis using cfg NewL2EthClient_ok [of E "sLayer2 cfg" w h l2 w1] by blast
qed

definition demo_signer_source :: "SignerConfig config_source" where
  "demo_signer_source = \<lparr>csExists = (\<lambda>p. True), csRead = Inr,
     csUnmarshal = (\<lambda>b. Inr \<lparr>sCommon = oCommon demo_cfg, sLayer2 = (oLayer2 demo_cfg)\<lparr>ChainId := 42\<rparr>\<rparr>)\<rparr>"

lemma demo_signer_config: "load_config demo_signer_source signer_WithEnv (\<lambda>_. None) [] p =
    Returned \<lparr>sCommon = oCommon demo_cfg, sLayer2 = (oLayer2 demo_cfg)\<lparr>ChainId := 42\<rparr>\<rparr>"
proof -
  have "effective (\<lambda>_. None) = (\<lambda>_. None)" by (rule ext) (simp add: effective_def)
  with signer_env.overlay_unset [of "\<lambda>_. None"] show ?thesis
    by (simp add: load_config_def ReadConfig_def readYamlConfig_def demo_signer_source_def)
qed

theorem signer_runs_until_cancelled_witness:
  "fst (signerMain demo_signer_source (\<lambda>c n. Inr ()) demo_eth [TickerC, CtxDone] (\<lambda>_. None) [] 0) = Some (Returned (Inr ()))"
proof -
  have run: "signerMain demo_signer_source (\<lambda>c n. Inr ()) demo_eth [TickerC, CtxDone] (\<lambda>_. None) [] 0 =
      (Some (Returned (Inr ())), 1)"
    by (simp add: signerMain_def demo_signer_config NewZapLogger_def NewFinalityGadgetSignerService_def NewL2EthClient_def
        demo_eth_def Start_signer_def Wait_signer_def Let_def)
  from signer_runs_until_cancelled [OF run] run show ?thesis by simp
qed

end
