(* ===== verification/CommandLine.thy ===== *)
theory CommandLine
  imports FpsCommands Signer
begin

text \<open>
  The command lines of the three programs: their flags (core/utils/cli.go, operator/configs/flags.go,
  signer/configs/flags.go) and their \<open>main\<close> functions, which register commands with the CLI library and end
  the process when the run of the application returns an error. The library is a parameter; the tables of
  commands are the program's own.
\<close>

subsection \<open>Flags\<close>

record cli_flag =
  flName :: string
  flRequired :: bool
  flUsage :: string
  flEnvVar :: string

definition ConfigFileFlag :: cli_flag where
  "ConfigFileFlag = \<lparr>flName = ''config'', flRequired = False, flUsage = ''Load configuration from `FILE`'',
     flEnvVar = ''FINALITY_GADGET_CONFIG_PATH''\<rparr>"

definition requiredFlags :: "cli_flag list" where
  "requiredFlags = [ConfigFileFlag]"

definition optionalFlags :: "cli_flag list" where
  "optionalFlags = []"

text \<open>The \<open>init\<close> of the package of the flags runs before those of the packages that import it.\<close>

definition utils_init :: "cli_flag list" where
  "utils_init = requiredFlags @ optionalFlags"

definition operator_configs_init :: "cli_flag list" where
  "operator_configs_init = utils_init"

definition signer_configs_init :: "cli_flag list" where
  "signer_configs_init = utils_init"

subsection \<open>Applications of the CLI library\<close>

text \<open>What an action reads of its context: the global flags and the arguments.\<close>

record cli_context =
  ctxGlobalString :: "string \<Rightarrow> string"
  ctxArgs :: "string list"

definition args_get :: "cli_context \<Rightarrow> nat \<Rightarrow> string" where
  "args_get c n = (if n < length (ctxArgs c) then ctxArgs c ! n else [])"

type_synonym 'w cli_action = "cli_context \<Rightarrow> 'w \<Rightarrow> unit res outcome option \<times> 'w"

datatype 'a cli_command = Command string "string list" string "'a option" "'a cli_command list"

record 'a cli_app =
  apName :: string
  apUsage :: string
  apDescription :: string
  apVersion :: string
  apFlags :: "cli_flag list"
  apAction :: 'a
  apCommands :: "'a cli_command list"

fun named :: "string \<Rightarrow> 'a cli_command \<Rightarrow> bool" where
  "named n (Command name aliases usage action subs) = (n = name \<or> n \<in> set aliases)"

fun find_command :: "'a cli_command list \<Rightarrow> string list \<Rightarrow> 'a option" where
  "find_command cs [] = None"
| "find_command cs (n # ns) = (case find (named n) cs of
      None \<Rightarrow> None
    | Some (Command name aliases usage action subs) \<Rightarrow> (if ns = [] then action else find_command subs ns))"

definition action_at :: "'a cli_app \<Rightarrow> string list \<Rightarrow> 'a option" where
  "action_at app path = (if path = [] then Some (apAction app) else find_command (apCommands app) path)"

text \<open>
  What the library documents: it parses the command line into the path of a command and a context, and runs
  the action registered at that path.
\<close>

type_synonym 'w cli_run = "'w cli_action cli_app \<Rightarrow> string list \<Rightarrow> 'w \<Rightarrow> unit res outcome option \<times> 'w"

type_synonym 'w cli_parse = "'w cli_action cli_app \<Rightarrow> string list \<Rightarrow> (string list \<times> cli_context) option"

definition cli_dispatches :: "'w cli_run \<Rightarrow> 'w cli_parse \<Rightarrow> bool" where
  "cli_dispatches run_app parse = (\<forall>app argv w path ctx act. parse app argv = Some (path, ctx) \<longrightarrow>
     action_at app path = Some act \<longrightarrow> run_app app argv w = act ctx w)"

subsection \<open>The programs\<close>

text \<open>All three end alike: an error of the run is fatal.\<close>

definition end_main :: "unit res outcome option \<times> 'w \<Rightarrow> unit outcome option \<times> 'w" where
  "end_main r = (case r of
      (None, w) \<Rightarrow> (None, w)
    | (Some (Returned (Inl e)), w) \<Rightarrow> (Some (Exited (''Application failed. Message: '' @ err_string e)), w)
    | (Some (Returned (Inr _)), w) \<Rightarrow> (Some (Returned ()), w)
    | (Some (Panicked m), w) \<Rightarrow> (Some (Panicked m), w)
    | (Some (Exited m), w) \<Rightarrow> (Some (Exited m), w))"

definition config_path :: "cli_context \<Rightarrow> string" where
  "config_path ctx = ctxGlobalString ctx (flName ConfigFileFlag)"

text \<open>An action that has come to its end.\<close>

definition ended :: "'a res outcome \<times> 'w \<Rightarrow> unit res outcome option \<times> 'w" where
  "ended r = (Some (case fst r of Returned (Inl e) \<Rightarrow> Returned (Inl e) | Returned (Inr _) \<Rightarrow> Returned (Inr ())
     | Panicked m \<Rightarrow> Panicked m | Exited m \<Rightarrow> Exited m), snd r)"

definition operator_app :: "('w, 'l) service_deps \<Rightarrow> ('w, 'h) provider_deps \<Rightarrow> 'w app_deps \<Rightarrow>
    ('w fp_app \<Rightarrow> string \<Rightarrow> 'w \<Rightarrow> unit res \<times> 'w) \<Rightarrow> 'w fps_deps \<Rightarrow> ('w, 'f, string) fp_store \<Rightarrow> 'w fp_calls \<Rightarrow>
    env \<Rightarrow> string \<Rightarrow> 'w cli_action cli_app" where
  "operator_app S D A start N St F env version =
     \<lparr>apName = ''finality-gadget-operator'', apUsage = ''The finality-gadget operator'',
      apDescription = ''Service that send the finality-gadget by FPs to babylon's contract'', apVersion = version,
      apFlags = operator_configs_init,
      apAction = (\<lambda>ctx w. ended (finalityProvider S D A start env (config_path ctx) w)),
      apCommands =
        [Command ''fps'' [''k''] ''subcommand for finality provider manage'' None
          [Command ''restore'' [] ''restore a fp as submitter''
             (Some (\<lambda>ctx w. ended (fpsRestore S N St F env (config_path ctx) (args_get ctx 0) (args_get ctx 1) w))) [],
           Command ''show'' [] ''show address for key''
             (Some (\<lambda>ctx w. ended (fpsShow S N St env (config_path ctx) w))) []]]\<rparr>"

definition operator_main :: "'w cli_run \<Rightarrow> ('w, 'l) service_deps \<Rightarrow> ('w, 'h) provider_deps \<Rightarrow> 'w app_deps \<Rightarrow>
    ('w fp_app \<Rightarrow> string \<Rightarrow> 'w \<Rightarrow> unit res \<times> 'w) \<Rightarrow> 'w fps_deps \<Rightarrow> ('w, 'f, string) fp_store \<Rightarrow> 'w fp_calls \<Rightarrow>
    env \<Rightarrow> string \<Rightarrow> string list \<Rightarrow> 'w \<Rightarrow> unit outcome option \<times> 'w" where
  "operator_main run_app S D A start N St F env version argv w =
     end_main (run_app (operator_app S D A start N St F env version) argv w)"

definition rpc_services_app :: "('w, 'l) service_deps \<Rightarrow> ('w, 'h) provider_deps \<Rightarrow> ('h \<times> 'h \<times> provider \<Rightarrow> string \<Rightarrow> 'w \<Rightarrow> 'w) \<Rightarrow>
    env \<Rightarrow> string \<Rightarrow> 'w cli_action cli_app" where
  "rpc_services_app S D serve env version =
     \<lparr>apName = ''finality-gadget-rpc-services'', apUsage = ''The finality-gadget rpc services'', apDescription = [],
      apVersion = version, apFlags = operator_configs_init,
      apAction = (\<lambda>ctx w. ended (rpcService S D serve env (config_path ctx) w)), apCommands = []\<rparr>"

definition rpc_services_main :: "'w cli_run \<Rightarrow> ('w, 'l) service_deps \<Rightarrow> ('w, 'h) provider_deps \<Rightarrow>
    ('h \<times> 'h \<times> provider \<Rightarrow> string \<Rightarrow> 'w \<Rightarrow> 'w) \<Rightarrow> env \<Rightarrow> string \<Rightarrow> string list \<Rightarrow> 'w \<Rightarrow> unit outcome option \<times> 'w" where
  "rpc_services_main run_app S D serve env version argv w =
     end_main (run_app (rpc_services_app S D serve env version) argv w)"

definition signer_app :: "SignerConfig config_source \<Rightarrow> (zap_config \<Rightarrow> nat \<Rightarrow> 'l res) \<Rightarrow> ('w, 'h) eth_rpc \<Rightarrow>
    select_event list \<Rightarrow> env \<Rightarrow> string \<Rightarrow> 'w cli_action cli_app" where
  "signer_app Y build E evs env version =
     \<lparr>apName = ''finality-gadget-signer'', apUsage = ''The finality-gadget signer'',
      apDescription = ''Service that sign the finality-gadget commit by FPs to babylon's contract'', apVersion = version,
      apFlags = signer_configs_init,
      apAction = (\<lambda>ctx w. signerMain Y build E evs env (config_path ctx) w), apCommands = []\<rparr>"

definition signer_main :: "'w cli_run \<Rightarrow> SignerConfig config_source \<Rightarrow> (zap_config \<Rightarrow> nat \<Rightarrow> 'l res) \<Rightarrow> ('w, 'h) eth_rpc \<Rightarrow>
    select_event list \<Rightarrow> env \<Rightarrow> string \<Rightarrow> string list \<Rightarrow> 'w \<Rightarrow> unit outcome option \<times> 'w" where
  "signer_main run_app Y build E evs env version argv w = end_main (run_app (signer_app Y build E evs env version) argv w)"

subsection \<open>Properties\<close>

lemma end_main_Returned: "end_main r = (Some (Returned ()), w) \<longleftrightarrow> r = (Some (Returned (Inr ())), w)"
  by (auto simp: end_main_def split: prod.splits option.splits outcome.splits sum.splits)

lemma ended_ok: "ended r = (Some (Returned (Inr ())), w) \<longleftrightarrow> (\<exists>v. r = (Returned (Inr v), w))"
  by (cases r) (auto simp: ended_def split: outcome.splits sum.splits)

lemma restore_action:
  "action_at (operator_app S D A start N St F env version) [''fps'', ''restore''] =
     Some (\<lambda>ctx w. ended (fpsRestore S N St F env (config_path ctx) (args_get ctx 0) (args_get ctx 1) w))"
  "action_at (operator_app S D A start N St F env version) [''k'', ''restore''] =
     Some (\<lambda>ctx w. ended (fpsRestore S N St F env (config_path ctx) (args_get ctx 0) (args_get ctx 1) w))"
  by (simp_all add: action_at_def operator_app_def)

text \<open>
  (C15) Restoring a finality provider from the command line to the store, under either name of the command. When the
  process ends normally, the second argument parsed as a key, the chain was asked for it after the setup and answered a
  provider, and the store has changed in the one entry of the key in that answer, as \<open>restored\<close> says: an entry that
  was there is updated from the answer, and a new one is on the chain whose id the configuration names, printed as
  a signed integer; so a configuration that leaves the id zero, to be taken from the chain by the services, creates an
  entry for chain 0.
\<close>

theorem restore_command_line:
  assumes "store_ok view St F" "setup_keeps view S N" "cli_dispatches run_app parse"
    and "parse (operator_app S D A start N St F env version) argv = Some (path, ctx)"
    and "path = [''fps'', ''restore''] \<or> path = [''k'', ''restore'']"
    and "operator_main run_app S D A start N St F env version argv w = (Some (Returned ()), w')"
  shows "\<exists>cfg pk fp w1.
    load_config (sdConfig S) operator_WithEnv env (ctxGlobalString ctx ''config'') ''./finality-gadget-operator.yaml'' = Returned cfg \<and>
    fcParsePk F (args_get ctx 1) = Inr pk \<and>
    fcQueryFinalityProvider F (fcToBTCPK F pk) (snd (fps_setup S N cfg w)) = (Inr (Some fp), w1) \<and>
    restored St F fp (show_int (sint (ChainId (oLayer2 cfg)))) w1 (view w) (view w') \<and> view w' (fcToBTCPK F pk) \<noteq> None"
proof -
  let ?act = "\<lambda>ctx w. ended (fpsRestore S N St F env (config_path ctx) (args_get ctx 0) (args_get ctx 1) w)"
  have "action_at (operator_app S D A start N St F env version) path = Some ?act"
    using assms(5) by (auto simp: restore_action)
  with assms(3,4) have "run_app (operator_app S D A start N St F env version) argv w = ?act ctx w"
    unfolding cli_dispatches_def by blast
  with assms(6) obtain u where
    "fpsRestore S N St F env (config_path ctx) (args_get ctx 0) (args_get ctx 1) w = (Returned (Inr u), w')"
    by (auto simp: operator_main_def end_main_Returned ended_ok)
  from fps_restore_end_to_end [OF assms(1,2) this] show ?thesis by (simp add: config_path_def ConfigFileFlag_def)
qed

text \<open>A library that takes the first words that name a command as its path and the rest as its arguments.\<close>

fun demo_path :: "'a cli_app \<Rightarrow> string list \<Rightarrow> string list \<Rightarrow> string list \<times> string list" where
  "demo_path app path [] = (path, [])"
| "demo_path app path (x # xs) =
     (if length path < 2 \<and> path \<noteq> [] \<or> find (named x) (apCommands app) \<noteq> None then demo_path app (path @ [x]) xs else (path, x # xs))"

definition demo_parse :: "'w cli_parse" where
  "demo_parse app argv = (case demo_path app [] (tl argv) of (path, args) \<Rightarrow>
     Some (path, \<lparr>ctxGlobalString = (\<lambda>n. []), ctxArgs = args\<rparr>))"

definition demo_cli :: "'w cli_run" where
  "demo_cli app argv w = (case demo_parse app argv of
      None \<Rightarrow> (Some (Returned (Inl (EText ''usage''))), w)
    | Some (path, ctx) \<Rightarrow> (case action_at app path of
          None \<Rightarrow> (Some (Returned (Inl (EText ''no command''))), w)
        | Some act \<Rightarrow> act ctx w))"

lemma demo_cli_dispatches: "cli_dispatches demo_cli demo_parse"
  by (simp add: cli_dispatches_def demo_cli_def)

theorem restore_command_line_witness:
  "\<forall>(D :: (demo_table, nat) provider_deps) A start. \<exists>w'.
     operator_main demo_cli demo_table_service D A start demo_fps_deps demo_store demo_calls (\<lambda>_. None) ''v1''
       [''operator'', ''k'', ''restore'', ''key'', ''pk''] (\<lambda>_. None) = (Some (Returned ()), w') \<and>
     w' = [''pk'' \<mapsto> \<lparr>eAddr = ''addr'', eDescription = ''fp'', eCommission = Some 5, eChainID = ''0'', eLastVotedHeight = 0,
       eStatus = REGISTERED\<rparr>]"
proof (intro allI)
  fix D :: "(demo_table, nat) provider_deps" and A start
  let ?app = "operator_app demo_table_service D A start demo_fps_deps demo_store demo_calls (\<lambda>_. None) ''v1''"
  let ?argv = "[''operator'', ''k'', ''restore'', ''key'', ''pk'']"
  let ?ctx = "\<lparr>ctxGlobalString = (\<lambda>n. []), ctxArgs = [''key'', ''pk'']\<rparr>"
  have parse: "demo_parse ?app ?argv = Some ([''k'', ''restore''], ?ctx)"
    by (simp add: demo_parse_def operator_app_def)
  obtain w' where w': "fpsRestore demo_table_service demo_fps_deps demo_store demo_calls (\<lambda>_. None) [] ''key'' ''pk'' (\<lambda>_. None) =
      (Returned (Inr ()), w')" using demo_restore_runs by blast
  have run: "operator_main demo_cli demo_table_service D A start demo_fps_deps demo_store demo_calls (\<lambda>_. None) ''v1'' ?argv (\<lambda>_. None) =
      (Some (Returned ()), w')"
    by (simp add: operator_main_def demo_cli_def parse restore_action config_path_def args_get_def w' ended_def end_main_def)
  from restore_command_line [OF demo_store_ok demo_setup_keeps demo_cli_dispatches parse _ run]
  obtain cfg pk fp w1 where
    cfg: "load_config (sdConfig demo_table_service) operator_WithEnv (\<lambda>_. None) [] ''./finality-gadget-operator.yaml'' = Returned cfg"
    and fp: "fcQueryFinalityProvider demo_calls (fcToBTCPK demo_calls pk) (snd (fps_setup demo_table_service demo_fps_deps cfg (\<lambda>_. None))) =
      (Inr (Some fp), w1)"
    and restored: "restored demo_store demo_calls fp (show_int (sint (ChainId (oLayer2 cfg)))) w1 (\<lambda>_. None) w'"
    by auto
  from cfg have "cfg = demo_cfg" by (simp add: demo_load)
  then have "show_int (sint (ChainId (oLayer2 cfg))) = ''0''" by (simp add: demo_cfg_def show_int_def show_zero)
  moreover from fp have "fp = demo_response" by (simp add: demo_calls_def)
  ultimately have "w' = [''pk'' \<mapsto> \<lparr>eAddr = ''addr'', eDescription = ''fp'', eCommission = Some 5, eChainID = ''0'', eLastVotedHeight = 0,
       eStatus = REGISTERED\<rparr>]"
    using restored by (simp add: restored_def created_entry_def demo_calls_def demo_response_def)
  with run show "\<exists>w'. operator_main demo_cli demo_table_service D A start demo_fps_deps demo_store demo_calls (\<lambda>_. None) ''v1''
       ?argv (\<lambda>_. None) = (Some (Returned ()), w') \<and>
     w' = [''pk'' \<mapsto> \<lparr>eAddr = ''addr'', eDescription = ''fp'', eCommission = Some 5, eChainID = ''0'', eLastVotedHeight = 0,
       eStatus = REGISTERED\<rparr>]"
    by blast
qed

end
