(* ===== verification/EotsClient.thy ===== *)
theory EotsClient
  imports GoBase
begin

text \<open>
  \<open>EOTSManagerClient\<close> (client/eotsmanager/eotsmanager.go) implements the interface \<open>EOTSManager\<close> of the
  finality provider by handing every call to an inner manager, a gRPC client that is not in the
  repository; the calls that make randomness also log. The interface is a record of operations, the client
  takes one to another.
\<close>

type_synonym bytes = "8 word list"

subsection \<open>The interface\<close>

record ('w, 'p, 'm, 's) eots_manager =
  emCreateRandomnessPairList :: "bytes \<Rightarrow> bytes \<Rightarrow> u64 \<Rightarrow> u32 \<Rightarrow> 'w \<Rightarrow> 'p list res \<times> 'w"
  emCreateRandomnessPairListWithInterval :: "bytes \<Rightarrow> bytes \<Rightarrow> u64 \<Rightarrow> u32 \<Rightarrow> u64 \<Rightarrow> 'w \<Rightarrow> 'p list res \<times> 'w"
  emSignEOTS :: "bytes \<Rightarrow> bytes \<Rightarrow> bytes \<Rightarrow> u64 \<Rightarrow> 'w \<Rightarrow> 'm res \<times> 'w"
  emUnsafeSignEOTS :: "bytes \<Rightarrow> bytes \<Rightarrow> bytes \<Rightarrow> u64 \<Rightarrow> 'w \<Rightarrow> 'm res \<times> 'w"
  emSignSchnorrSig :: "bytes \<Rightarrow> bytes \<Rightarrow> 'w \<Rightarrow> 's res \<times> 'w"
  emUnlock :: "bytes \<Rightarrow> string \<Rightarrow> 'w \<Rightarrow> unit res \<times> 'w"
  emBackup :: "string \<Rightarrow> string \<Rightarrow> 'w \<Rightarrow> string res \<times> 'w"
  emClose :: "'w \<Rightarrow> unit res \<times> 'w"

subsection \<open>The client\<close>

text \<open>
  Its world is the inner manager's, whether its logger prints debug lines, as a logger for development does and one
  for production does not, and the debug lines printed.
\<close>

record 'w logged =
  lgWorld :: 'w
  lgPrints :: bool
  lgLines :: "string list"

definition on_inner :: "('w \<Rightarrow> 'a \<times> 'w) \<Rightarrow> 'w logged \<Rightarrow> 'a \<times> 'w logged" where
  "on_inner f s = (case f (lgWorld s) of (r, w) \<Rightarrow> (r, s\<lparr>lgWorld := w\<rparr>))"

definition debug_line :: "string \<Rightarrow> 'w logged \<Rightarrow> 'w logged" where
  "debug_line l s = (if lgPrints s then s\<lparr>lgLines := lgLines s @ [l]\<rparr> else s)"

text \<open>\<open>%v\<close> of a result prints the list, which is nil with an error; the printing of points is a parameter.\<close>

definition show_pairs :: "('p list \<Rightarrow> string) \<Rightarrow> 'p list res \<Rightarrow> string" where
  "show_pairs sh r = (case r of Inl e \<Rightarrow> sh [] | Inr ps \<Rightarrow> sh ps)"

definition CreateRandomnessPairList :: "('p list \<Rightarrow> string) \<Rightarrow> ('w, 'p, 'm, 's) eots_manager \<Rightarrow>
    bytes \<Rightarrow> bytes \<Rightarrow> u64 \<Rightarrow> u32 \<Rightarrow> 'w logged \<Rightarrow> 'p list res \<times> 'w logged" where
  "CreateRandomnessPairList sh inner uid chainID startHeight num s =
     (case on_inner (emCreateRandomnessPairList inner uid chainID startHeight num) s of (res, s1) \<Rightarrow>
        (res, debug_line (''CreateRandomnessPairList '' @ show_u64 startHeight @ '' '' @ show_pairs sh res) s1))"

definition CreateRandomnessPairListWithInterval :: "('p list \<Rightarrow> string) \<Rightarrow> ('w, 'p, 'm, 's) eots_manager \<Rightarrow>
    bytes \<Rightarrow> bytes \<Rightarrow> u64 \<Rightarrow> u32 \<Rightarrow> u64 \<Rightarrow> 'w logged \<Rightarrow> 'p list res \<times> 'w logged" where
  "CreateRandomnessPairListWithInterval sh inner uid chainID startHeight num interval s =
     (case on_inner (emCreateRandomnessPairListWithInterval inner uid chainID startHeight num interval) s of (res, s1) \<Rightarrow>
        (res, debug_line (''CreateRandomnessPairListWithInterval '' @ show_u64 startHeight @ '' '' @ show_u64 interval @ '' '' @
           show_pairs sh res) s1))"

definition SignEOTS :: "('w, 'p, 'm, 's) eots_manager \<Rightarrow> bytes \<Rightarrow> bytes \<Rightarrow> bytes \<Rightarrow> u64 \<Rightarrow> 'w logged \<Rightarrow> 'm res \<times> 'w logged" where
  "SignEOTS inner uid chainID msg height = on_inner (emSignEOTS inner uid chainID msg height)"

definition UnsafeSignEOTS :: "('w, 'p, 'm, 's) eots_manager \<Rightarrow> bytes \<Rightarrow> bytes \<Rightarrow> bytes \<Rightarrow> u64 \<Rightarrow> 'w logged \<Rightarrow> 'm res \<times> 'w logged" where
  "UnsafeSignEOTS inner uid chainID msg height = on_inner (emUnsafeSignEOTS inner uid chainID msg height)"

definition SignSchnorrSig :: "('w, 'p, 'm, 's) eots_manager \<Rightarrow> bytes \<Rightarrow> bytes \<Rightarrow> 'w logged \<Rightarrow> 's res \<times> 'w logged" where
  "SignSchnorrSig inner uid msg = on_inner (emSignSchnorrSig inner uid msg)"

definition Unlock :: "('w, 'p, 'm, 's) eots_manager \<Rightarrow> bytes \<Rightarrow> string \<Rightarrow> 'w logged \<Rightarrow> unit res \<times> 'w logged" where
  "Unlock inner uid passphrase = on_inner (emUnlock inner uid passphrase)"

definition Backup :: "('w, 'p, 'm, 's) eots_manager \<Rightarrow> string \<Rightarrow> string \<Rightarrow> 'w logged \<Rightarrow> string res \<times> 'w logged" where
  "Backup inner dbPath backupDir = on_inner (emBackup inner dbPath backupDir)"

definition Close_eots :: "('w, 'p, 'm, 's) eots_manager \<Rightarrow> 'w logged \<Rightarrow> unit res \<times> 'w logged" where
  "Close_eots inner = on_inner (emClose inner)"

text \<open>\<open>var _ fpeotsmanager.EOTSManager = &EOTSManagerClient{}\<close>: the client is a manager again.\<close>

definition eots_client :: "('p list \<Rightarrow> string) \<Rightarrow> ('w, 'p, 'm, 's) eots_manager \<Rightarrow> ('w logged, 'p, 'm, 's) eots_manager" where
  "eots_client sh inner = \<lparr>emCreateRandomnessPairList = CreateRandomnessPairList sh inner,
     emCreateRandomnessPairListWithInterval = CreateRandomnessPairListWithInterval sh inner,
     emSignEOTS = SignEOTS inner, emUnsafeSignEOTS = UnsafeSignEOTS inner, emSignSchnorrSig = SignSchnorrSig inner,
     emUnlock = Unlock inner, emBackup = Backup inner, emClose = Close_eots inner\<rparr>"

subsection \<open>Sequences of calls\<close>

datatype eots_call = CallCreate bytes bytes u64 u32 | CallCreateInterval bytes bytes u64 u32 u64
  | CallSign bytes bytes bytes u64 | CallUnsafeSign bytes bytes bytes u64 | CallSchnorr bytes bytes
  | CallUnlock bytes string | CallBackup string string | CallClose

datatype ('p, 'm, 's) eots_reply = ReplyPairs "'p list res" | ReplyScalar "'m res" | ReplySchnorr "'s res"
  | ReplyUnit "unit res" | ReplyPath "string res"

definition reply :: "('a \<Rightarrow> 'b) \<Rightarrow> 'a \<times> 'w \<Rightarrow> 'b \<times> 'w" where
  "reply c rw = (c (fst rw), snd rw)"

fun eots_do :: "('w, 'p, 'm, 's) eots_manager \<Rightarrow> eots_call \<Rightarrow> 'w \<Rightarrow> ('p, 'm, 's) eots_reply \<times> 'w" where
  "eots_do M (CallCreate u c h n) w = reply ReplyPairs (emCreateRandomnessPairList M u c h n w)"
| "eots_do M (CallCreateInterval u c h n i) w = reply ReplyPairs (emCreateRandomnessPairListWithInterval M u c h n i w)"
| "eots_do M (CallSign u c m h) w = reply ReplyScalar (emSignEOTS M u c m h w)"
| "eots_do M (CallUnsafeSign u c m h) w = reply ReplyScalar (emUnsafeSignEOTS M u c m h w)"
| "eots_do M (CallSchnorr u m) w = reply ReplySchnorr (emSignSchnorrSig M u m w)"
| "eots_do M (CallUnlock u p) w = reply ReplyUnit (emUnlock M u p w)"
| "eots_do M (CallBackup d b) w = reply ReplyPath (emBackup M d b w)"
| "eots_do M CallClose w = reply ReplyUnit (emClose M w)"

fun eots_run :: "('w, 'p, 'm, 's) eots_manager \<Rightarrow> eots_call list \<Rightarrow> 'w \<Rightarrow> ('p, 'm, 's) eots_reply list \<times> 'w" where
  "eots_run M [] w = ([], w)"
| "eots_run M (c # cs) w = (case eots_do M c w of (r, w1) \<Rightarrow> case eots_run M cs w1 of (rs, w2) \<Rightarrow> (r # rs, w2))"

text \<open>
  What a call may leave in the log: the heights asked for and the public randomness, of no call the key, the
  chain, the message or the passphrase.
\<close>

fun log_of :: "('p list \<Rightarrow> string) \<Rightarrow> eots_call \<Rightarrow> ('p, 'm, 's) eots_reply \<Rightarrow> string list" where
  "log_of sh (CallCreate u c h n) (ReplyPairs r) =
     [''CreateRandomnessPairList '' @ show_u64 h @ '' '' @ show_pairs sh r]"
| "log_of sh (CallCreateInterval u c h n i) (ReplyPairs r) =
     [''CreateRandomnessPairListWithInterval '' @ show_u64 h @ '' '' @ show_u64 i @ '' '' @ show_pairs sh r]"
| "log_of sh c r = []"

lemma on_inner_eq: "f (lgWorld s) = (r, w) \<Longrightarrow> on_inner f s = (r, s\<lparr>lgWorld := w\<rparr>)"
  by (simp add: on_inner_def)

lemma eots_do_client:
  assumes "eots_do M c (lgWorld s) = (r, w)"
  shows "eots_do (eots_client sh M) c s = (r, s\<lparr>lgWorld := w, lgLines := lgLines s @ (if lgPrints s then log_of sh c r else [])\<rparr>)"
  using assms
  by (cases c) (auto simp: eots_client_def reply_def on_inner_def debug_line_def CreateRandomnessPairList_def
      CreateRandomnessPairListWithInterval_def SignEOTS_def UnsafeSignEOTS_def SignSchnorrSig_def Unlock_def Backup_def
      Close_eots_def split: prod.splits)

subsection \<open>Properties\<close>

text \<open>
  The client is transparent: any sequence of calls on it gets the answers of the inner manager, errors included,
  leaves the inner manager as the same calls on it would, and, where the logger prints debug lines, logs one line
  for each making of randomness, which shows heights and public randomness only.
\<close>

lemma eots_client_transparent:
  "eots_run (eots_client sh M) cs s =
    (let (rs, w) = eots_run M cs (lgWorld s) in
     (rs, s\<lparr>lgWorld := w, lgLines := lgLines s @ (if lgPrints s then concat (map2 (log_of sh) cs rs) else [])\<rparr>))"
proof (induction cs arbitrary: s)
  case Nil
  show ?case by simp
next
  case (Cons c cs)
  obtain r w where r: "eots_do M c (lgWorld s) = (r, w)" by fastforce
  show ?case
    using Cons.IH [of "s\<lparr>lgWorld := w, lgLines := lgLines s @ (if lgPrints s then log_of sh c r else [])\<rparr>"]
    by (simp add: r eots_do_client [OF r] Let_def split: prod.splits)
qed

end
