(* ===== verification/Loggers.thy ===== *)
theory Loggers
  imports Startup "HOL-Library.Sublist"
begin

text \<open>
  The interface \<open>Logger\<close> (core/logging/logger.go) and its implementation \<open>ZapLogger\<close> over zap
  (core/logging/zap.go). Zap is a parameter: what its sugared logger does with a message, with a template
  and its arguments, and with further tags. A tag or an argument is its printed form.
\<close>

subsection \<open>Levels\<close>

datatype Level = DebugLevel | InfoLevel | WarnLevel | ErrorLevel | FatalLevel

fun level_num :: "Level \<Rightarrow> nat" where
  "level_num DebugLevel = 0"
| "level_num InfoLevel = 1"
| "level_num WarnLevel = 2"
| "level_num ErrorLevel = 3"
| "level_num FatalLevel = 4"

lemma level_num_inj [simp]: "level_num k = level_num l \<longleftrightarrow> k = l"
  by (cases k; cases l) simp_all

instantiation Level :: linorder
begin

definition less_eq_Level :: "Level \<Rightarrow> Level \<Rightarrow> bool" where
  "less_eq_Level k l = (level_num k \<le> level_num l)"

definition less_Level :: "Level \<Rightarrow> Level \<Rightarrow> bool" where
  "less_Level k l = (level_num k < level_num l)"

instance
  by standard (auto simp: less_eq_Level_def less_Level_def dest: antisym)

end

subsection \<open>The interface and its implementation\<close>

type_synonym 'w log_effect = "'w \<Rightarrow> unit outcome \<times> 'w"

record ('l, 'w) Logger =
  lgDebug :: "'l \<Rightarrow> string \<Rightarrow> string list \<Rightarrow> 'w log_effect"
  lgInfo :: "'l \<Rightarrow> string \<Rightarrow> string list \<Rightarrow> 'w log_effect"
  lgWarn :: "'l \<Rightarrow> string \<Rightarrow> string list \<Rightarrow> 'w log_effect"
  lgError :: "'l \<Rightarrow> string \<Rightarrow> string list \<Rightarrow> 'w log_effect"
  lgFatal :: "'l \<Rightarrow> string \<Rightarrow> string list \<Rightarrow> 'w log_effect"
  lgDebugf :: "'l \<Rightarrow> string \<Rightarrow> string list \<Rightarrow> 'w log_effect"
  lgInfof :: "'l \<Rightarrow> string \<Rightarrow> string list \<Rightarrow> 'w log_effect"
  lgWarnf :: "'l \<Rightarrow> string \<Rightarrow> string list \<Rightarrow> 'w log_effect"
  lgErrorf :: "'l \<Rightarrow> string \<Rightarrow> string list \<Rightarrow> 'w log_effect"
  lgFatalf :: "'l \<Rightarrow> string \<Rightarrow> string list \<Rightarrow> 'w log_effect"
  lgWith :: "'l \<Rightarrow> string list \<Rightarrow> 'l"

text \<open>Zap's sugared logger: one operation per level and kind in zap, here the level is an argument.\<close>

record ('z, 'w) zap =
  zLogw :: "'z \<Rightarrow> Level \<Rightarrow> string \<Rightarrow> string list \<Rightarrow> 'w log_effect"
  zLogf :: "'z \<Rightarrow> Level \<Rightarrow> string \<Rightarrow> string list \<Rightarrow> 'w log_effect"
  zWith :: "'z \<Rightarrow> string list \<Rightarrow> 'z"

record 'z ZapLogger =
  zlLogger :: 'z

definition Inner :: "'z ZapLogger \<Rightarrow> 'z" where
  "Inner z = zlLogger z"

definition Debug :: "('z, 'w) zap \<Rightarrow> 'z ZapLogger \<Rightarrow> string \<Rightarrow> string list \<Rightarrow> 'w log_effect" where
  "Debug Z z msg tags = zLogw Z (zlLogger z) DebugLevel msg tags"

definition Info :: "('z, 'w) zap \<Rightarrow> 'z ZapLogger \<Rightarrow> string \<Rightarrow> string list \<Rightarrow> 'w log_effect" where
  "Info Z z msg tags = zLogw Z (zlLogger z) InfoLevel msg tags"

definition Warn :: "('z, 'w) zap \<Rightarrow> 'z ZapLogger \<Rightarrow> string \<Rightarrow> string list \<Rightarrow> 'w log_effect" where
  "Warn Z z msg tags = zLogw Z (zlLogger z) WarnLevel msg tags"

definition Error :: "('z, 'w) zap \<Rightarrow> 'z ZapLogger \<Rightarrow> string \<Rightarrow> string list \<Rightarrow> 'w log_effect" where
  "Error Z z msg tags = zLogw Z (zlLogger z) ErrorLevel msg tags"

definition Fatal :: "('z, 'w) zap \<Rightarrow> 'z ZapLogger \<Rightarrow> string \<Rightarrow> string list \<Rightarrow> 'w log_effect" where
  "Fatal Z z msg tags = zLogw Z (zlLogger z) FatalLevel msg tags"

definition Debugf :: "('z, 'w) zap \<Rightarrow> 'z ZapLogger \<Rightarrow> string \<Rightarrow> string list \<Rightarrow> 'w log_effect" where
  "Debugf Z z template args = zLogf Z (zlLogger z) DebugLevel template args"

definition Infof :: "('z, 'w) zap \<Rightarrow> 'z ZapLogger \<Rightarrow> string \<Rightarrow> string list \<Rightarrow> 'w log_effect" where
  "Infof Z z template args = zLogf Z (zlLogger z) InfoLevel template args"

definition Warnf :: "('z, 'w) zap \<Rightarrow> 'z ZapLogger \<Rightarrow> string \<Rightarrow> string list \<Rightarrow> 'w log_effect" where
  "Warnf Z z template args = zLogf Z (zlLogger z) WarnLevel template args"

definition Errorf :: "('z, 'w) zap \<Rightarrow> 'z ZapLogger \<Rightarrow> string \<Rightarrow> string list \<Rightarrow> 'w log_effect" where
  "Errorf Z z template args = zLogf Z (zlLogger z) ErrorLevel template args"

definition Fatalf :: "('z, 'w) zap \<Rightarrow> 'z ZapLogger \<Rightarrow> string \<Rightarrow> string list \<Rightarrow> 'w log_effect" where
  "Fatalf Z z template args = zLogf Z (zlLogger z) FatalLevel template args"

definition With :: "('z, 'w) zap \<Rightarrow> 'z ZapLogger \<Rightarrow> string list \<Rightarrow> 'z ZapLogger" where
  "With Z z tags = \<lparr>zlLogger = zWith Z (zlLogger z) tags\<rparr>"

text \<open>\<open>var _ Logger = (*ZapLogger)(nil)\<close>: its methods are the interface.\<close>

definition zap_as_logger :: "('z, 'w) zap \<Rightarrow> ('z ZapLogger, 'w) Logger" where
  "zap_as_logger Z = \<lparr>lgDebug = Debug Z, lgInfo = Info Z, lgWarn = Warn Z, lgError = Error Z, lgFatal = Fatal Z,
     lgDebugf = Debugf Z, lgInfof = Infof Z, lgWarnf = Warnf Z, lgErrorf = Errorf Z, lgFatalf = Fatalf Z, lgWith = With Z\<rparr>"

subsection \<open>Using a logger\<close>

text \<open>A client's calls through the interface; \<open>CWith\<close> goes on with the logger that has more tags.\<close>

datatype log_call = CLog Level string "string list" | CLogf Level string "string list" | CWith "string list"

fun method_w :: "('l, 'w) Logger \<Rightarrow> Level \<Rightarrow> 'l \<Rightarrow> string \<Rightarrow> string list \<Rightarrow> 'w log_effect" where
  "method_w G DebugLevel = lgDebug G"
| "method_w G InfoLevel = lgInfo G"
| "method_w G WarnLevel = lgWarn G"
| "method_w G ErrorLevel = lgError G"
| "method_w G FatalLevel = lgFatal G"

fun method_f :: "('l, 'w) Logger \<Rightarrow> Level \<Rightarrow> 'l \<Rightarrow> string \<Rightarrow> string list \<Rightarrow> 'w log_effect" where
  "method_f G DebugLevel = lgDebugf G"
| "method_f G InfoLevel = lgInfof G"
| "method_f G WarnLevel = lgWarnf G"
| "method_f G ErrorLevel = lgErrorf G"
| "method_f G FatalLevel = lgFatalf G"

fun run_log :: "('l, 'w) Logger \<Rightarrow> log_call list \<Rightarrow> 'l \<Rightarrow> 'w \<Rightarrow> unit outcome \<times> 'w" where
  "run_log G [] l w = (Returned (), w)"
| "run_log G (CWith tags # cs) l w = run_log G cs (lgWith G l tags) w"
| "run_log G (CLog k msg tags # cs) l w =
     (case method_w G k l msg tags w of (Returned _, w1) \<Rightarrow> run_log G cs l w1 | r \<Rightarrow> r)"
| "run_log G (CLogf k template args # cs) l w =
     (case method_f G k l template args w of (Returned _, w1) \<Rightarrow> run_log G cs l w1 | r \<Rightarrow> r)"

subsection \<open>What zap documents\<close>

text \<open>
  An entry is a level, a message and tags. \<open>min\<close> is the lowest level a logger writes, \<open>tags_of\<close> what
  \<open>With\<close> has collected, \<open>sampled\<close> says that it may drop repeated entries, \<open>out\<close> reads off the world
  what has been written, and \<open>sprintf\<close> formats a template.
\<close>

text \<open>
  The tags of a call are keys, strings all of them, and values in turn. Of a key without a value zap documents a panic in development and
  an entry of its own otherwise, so only calls with tags in pairs are specified.
\<close>

definition paired :: "string list \<Rightarrow> bool" where
  "paired tags = even (length tags)"

type_synonym log_entry = "Level \<times> string \<times> string list"

record ('z, 'w) zap_view =
  zvMin :: "'z \<Rightarrow> Level"
  zvTags :: "'z \<Rightarrow> string list"
  zvSampled :: "'z \<Rightarrow> bool"
  zvOut :: "'w \<Rightarrow> log_entry list"
  zvSprintf :: "string \<Rightarrow> string list \<Rightarrow> string"

definition logs :: "('z, 'w) zap_view \<Rightarrow> 'z \<Rightarrow> log_entry \<Rightarrow> 'w \<Rightarrow> unit outcome \<times> 'w \<Rightarrow> bool" where
  "logs V z e w r = ((if fst e = FatalLevel then \<exists>m. fst r = Exited m else fst r = Returned ()) \<and>
     (zvOut V (snd r) = zvOut V w @ (if zvMin V z \<le> fst e then [e] else []) \<or>
      zvSampled V z \<and> zvOut V (snd r) = zvOut V w))"

definition zap_documented :: "('z, 'w) zap \<Rightarrow> ('z, 'w) zap_view \<Rightarrow> bool" where
  "zap_documented Z V = ((\<forall>z l m ts w. paired ts \<longrightarrow> logs V z (l, m, zvTags V z @ ts) w (zLogw Z z l m ts w)) \<and>
     (\<forall>z l m ts w. logs V z (l, zvSprintf V m ts, zvTags V z) w (zLogf Z z l m ts w)) \<and>
     (\<forall>z ts. paired ts \<longrightarrow> zvTags V (zWith Z z ts) = zvTags V z @ ts \<and> zvMin V (zWith Z z ts) = zvMin V z \<and>
        zvSampled V (zWith Z z ts) = zvSampled V z))"

fun tags_paired :: "log_call \<Rightarrow> bool" where
  "tags_paired (CLog l msg tags) = paired tags"
| "tags_paired (CLogf l template args) = True"
| "tags_paired (CWith tags) = paired tags"

text \<open>The two base configurations: development writes everything, production from info on, and samples.\<close>

definition build_documented :: "(zap_config \<Rightarrow> nat \<Rightarrow> 'z res) \<Rightarrow> ('z, 'w) zap_view \<Rightarrow> bool" where
  "build_documented build V = (\<forall>c n z. build c n = Inr z \<longrightarrow> zvTags V z = [] \<and>
     zvMin V z = (if zBase c = DevelopmentLevel then DebugLevel else InfoLevel) \<and>
     zvSampled V z = (zBase c = ProductionLevel))"

subsection \<open>The specification\<close>

text \<open>The entries of a sequence of calls, up to the first fatal one, and those at a level or above.\<close>

fun entries :: "(string \<Rightarrow> string list \<Rightarrow> string) \<Rightarrow> string list \<Rightarrow> log_call list \<Rightarrow> log_entry list" where
  "entries f ctx [] = []"
| "entries f ctx (CWith tags # cs) = entries f (ctx @ tags) cs"
| "entries f ctx (CLog l msg tags # cs) = (l, msg, ctx @ tags) # (if l = FatalLevel then [] else entries f ctx cs)"
| "entries f ctx (CLogf l template args # cs) = (l, f template args, ctx) # (if l = FatalLevel then [] else entries f ctx cs)"

definition at_least :: "Level \<Rightarrow> log_entry list \<Rightarrow> log_entry list" where
  "at_least k es = filter (\<lambda>e. k \<le> fst e) es"

lemma at_least_simps [simp]:
  "at_least k [] = []" "at_least k (e # es) = (if k \<le> fst e then [e] else []) @ at_least k es"
  by (simp_all add: at_least_def)

definition written :: "('z, 'w) zap_view \<Rightarrow> 'z \<Rightarrow> log_entry list \<Rightarrow> 'w \<Rightarrow> 'w \<Rightarrow> bool" where
  "written V z es w w' = (\<exists>ws. zvOut V w' = zvOut V w @ ws \<and> subseq ws (at_least (zvMin V z) es) \<and>
     (\<not> zvSampled V z \<longrightarrow> ws = at_least (zvMin V z) es))"

lemma written_Cons:
  assumes "logs V z e w (r, w1)" "written V z es w1 w2"
  shows "written V z (e # es) w w2"
proof -
  obtain vs where vs: "zvOut V w1 = zvOut V w @ vs" "subseq vs (if zvMin V z \<le> fst e then [e] else [])"
      "\<not> zvSampled V z \<longrightarrow> vs = (if zvMin V z \<le> fst e then [e] else [])"
    using assms(1) by (auto simp: logs_def)
  obtain ws where ws: "zvOut V w2 = zvOut V w1 @ ws" "subseq ws (at_least (zvMin V z) es)"
      "\<not> zvSampled V z \<longrightarrow> ws = at_least (zvMin V z) es"
    using assms(2) by (auto simp: written_def)
  have "subseq (vs @ ws) (at_least (zvMin V z) (e # es))"
    using list_emb_append_mono [OF vs(2) ws(2)] by simp
  moreover have "\<not> zvSampled V z \<longrightarrow> vs @ ws = at_least (zvMin V z) (e # es)"
    using vs(3) ws(3) by simp
  moreover have "zvOut V w2 = zvOut V w @ (vs @ ws)" using vs(1) ws(1) by simp
  ultimately show ?thesis unfolding written_def by blast
qed

lemma written_single: "logs V z e w (r, w1) \<Longrightarrow> written V z [e] w w1"
  by (rule written_Cons) (auto simp: written_def)

text \<open>Each method of the interface is zap's operation at its own level.\<close>

lemma method_levels [simp]:
  "method_w (zap_as_logger Z) k z msg tags = zLogw Z (zlLogger z) k msg tags"
  "method_f (zap_as_logger Z) k z template args = zLogf Z (zlLogger z) k template args"
  by (cases k; simp add: zap_as_logger_def Debug_def Info_def Warn_def Error_def Fatal_def Debugf_def Infof_def Warnf_def
      Errorf_def Fatalf_def)+

text \<open>How a sequence of calls ends: with the process exactly at a fatal entry.\<close>

definition ends_as :: "log_entry list \<Rightarrow> unit outcome \<Rightarrow> bool" where
  "ends_as es r = (if \<exists>e \<in> set es. fst e = FatalLevel then \<exists>m. r = Exited m else r = Returned ())"

lemma ends_as_simps [simp]:
  "ends_as [] r = (r = Returned ())"
  "ends_as (e # es) r = (if fst e = FatalLevel then \<exists>m. r = Exited m else ends_as es r)"
  by (auto simp: ends_as_def)

lemma With_simps [simp]: "lgWith (zap_as_logger Z) = With Z" "zlLogger (With Z z tags) = zWith Z (zlLogger z) tags"
  by (simp_all add: zap_as_logger_def With_def)

subsection \<open>Properties\<close>

lemma run_log_writes:
  assumes "zap_documented Z V" "list_all tags_paired cs"
  shows "written V (zlLogger z) (entries (zvSprintf V) (zvTags V (zlLogger z)) cs) w (snd (run_log (zap_as_logger Z) cs z w)) \<and>
    ends_as (entries (zvSprintf V) (zvTags V (zlLogger z)) cs) (fst (run_log (zap_as_logger Z) cs z w))"
  using assms(2)
proof (induction cs arbitrary: z w)
  case Nil
  show ?case by (simp add: written_def)
next
  case (Cons c cs)
  let ?l = "zlLogger z"
  have entry: "written V ?l (e # (if fst e = FatalLevel then [] else es)) w w2"
    if "logs V ?l e w (r, w1)" "if fst e = FatalLevel then w2 = w1 else written V ?l es w1 w2" for e es r w1 w2
    using that written_Cons [OF that(1)] written_single [OF that(1)] by (auto split: if_splits)
  show ?case
  proof (cases c)
    case (CWith tags)
    have "zvTags V (zWith Z ?l tags) = zvTags V ?l @ tags" "zvMin V (zWith Z ?l tags) = zvMin V ?l"
        "zvSampled V (zWith Z ?l tags) = zvSampled V ?l" using assms(1) Cons.prems CWith by (simp_all add: zap_documented_def)
    with CWith Cons.prems Cons.IH [of "With Z z tags" w] show ?thesis
      by (auto simp: written_def)
  next
    case (CLog l msg tags)
    obtain r w1 where r: "zLogw Z ?l l msg tags w = (r, w1)" by fastforce
    then have logs: "logs V ?l (l, msg, zvTags V ?l @ tags) w (r, w1)"
      using assms(1) Cons.prems CLog unfolding zap_documented_def by (metis list.pred_inject(2) tags_paired.simps(1))
    with CLog Cons.prems Cons.IH [of z w1] r entry [OF logs] show ?thesis by (auto simp: logs_def)
  next
    case (CLogf l template args)
    obtain r w1 where r: "zLogf Z ?l l template args w = (r, w1)" by fastforce
    then have logs: "logs V ?l (l, zvSprintf V template args, zvTags V ?l) w (r, w1)"
      using assms(1) unfolding zap_documented_def by metis
    with CLogf Cons.prems Cons.IH [of z w1] r entry [OF logs] show ?thesis by (auto simp: logs_def)
  qed
qed

text \<open>
  (C33) A logger made for an environment, called with tags in pairs, writes what is asked of it, in order, with the tags of every \<open>With\<close>
  in front: everything in development, the entries from info on in production, where zap's base
  configuration samples, so some of those may be missing. A call at the fatal level ends the process,
  whether or not its entry is written, and no other call does.
\<close>

theorem logger_prints_by_level:
  assumes "zap_documented Z V" "build_documented build V" "NewZapLogger build (NewLogLevel production) = Returned (Inr z)"
    and "list_all tags_paired cs"
  shows "let es = entries (zvSprintf V) [] cs; r = run_log (zap_as_logger Z) cs \<lparr>zlLogger = z\<rparr> w in
    (\<exists>ws. zvOut V (snd r) = zvOut V w @ ws \<and>
       (if production then subseq ws (at_least InfoLevel es) else ws = es)) \<and>
    ends_as es (fst r)"
proof -
  have z: "zvTags V z = []" "zvMin V z = (if production then InfoLevel else DebugLevel)" "zvSampled V z = production"
    using assms(2,3) by (auto simp: NewZapLogger_def NewLogLevel_def zap_config_of_def build_documented_def split: sum.splits)
  have "at_least DebugLevel es = es" for es
    by (simp add: at_least_def less_eq_Level_def)
  with run_log_writes [OF assms(1,4), of "\<lparr>zlLogger = z\<rparr>" w] z show ?thesis
    by (auto simp: written_def Let_def)
qed

text \<open>A zap whose loggers are their lowest level, their tags and whether they sample; a sampler that drops all.\<close>

type_synonym demo_zap_logger = "Level \<times> string list \<times> bool"

definition demo_log :: "demo_zap_logger \<Rightarrow> log_entry \<Rightarrow> log_entry list \<Rightarrow> unit outcome \<times> log_entry list" where
  "demo_log z e w = (if fst e = FatalLevel then Exited (fst (snd e)) else Returned (),
     if fst z \<le> fst e \<and> \<not> snd (snd z) then w @ [e] else w)"

definition demo_zap :: "(demo_zap_logger, log_entry list) zap" where
  "demo_zap = \<lparr>zLogw = (\<lambda>z l m ts. demo_log z (l, m, fst (snd z) @ ts)), zLogf = (\<lambda>z l m as. demo_log z (l, m @ concat as, fst (snd z))),
     zWith = (\<lambda>(l, c, s) ts. (l, c @ ts, s))\<rparr>"

definition demo_zap_view :: "(demo_zap_logger, log_entry list) zap_view" where
  "demo_zap_view = \<lparr>zvMin = fst, zvTags = (\<lambda>z. fst (snd z)), zvSampled = (\<lambda>z. snd (snd z)), zvOut = (\<lambda>w. w),
     zvSprintf = (\<lambda>m as. m @ concat as)\<rparr>"

definition demo_build :: "zap_config \<Rightarrow> nat \<Rightarrow> demo_zap_logger res" where
  "demo_build c n = Inr (if zBase c = DevelopmentLevel then (DebugLevel, [], False) else (InfoLevel, [], True))"

lemma demo_zap_ok: "zap_documented demo_zap demo_zap_view" "build_documented demo_build demo_zap_view"
  by (auto simp: zap_documented_def build_documented_def logs_def demo_zap_def demo_zap_view_def demo_log_def demo_build_def
      LogLevel.exhaust split: prod.splits intro: LogLevel.exhaust)

theorem logger_prints_by_level_witness:
  "zvOut demo_zap_view (snd (run_log (zap_as_logger demo_zap) [CLog DebugLevel ''a'' [], CWith [''k'', ''v''], CLog FatalLevel ''b'' [], CLog InfoLevel ''c'' []]
     \<lparr>zlLogger = (DebugLevel, [], False)\<rparr> [])) = [(DebugLevel, ''a'', []), (FatalLevel, ''b'', [''k'', ''v''])]"
proof -
  have "NewZapLogger demo_build (NewLogLevel False) = Returned (Inr (DebugLevel, [], False))"
    by (simp add: NewZapLogger_def NewLogLevel_def zap_config_of_def demo_build_def)
  from logger_prints_by_level [OF demo_zap_ok this, where w = "[]" and
      cs = "[CLog DebugLevel ''a'' [], CWith [''k'', ''v''], CLog FatalLevel ''b'' [], CLog InfoLevel ''c'' []]"]
  show ?thesis by (simp add: Let_def demo_zap_view_def paired_def)
qed

end
