(* ===== verification/TestBlocks.thy ===== *)
theory TestBlocks
  imports Provider
begin

text \<open>
  The random blocks of testutil/random.go: a block with a random hash, and the same block with the hash as the
  provider sends it to Babylon. The generator of math/rand is a parameter: \<open>Read\<close> fills a buffer of a
  length, \<open>Uint64\<close> gives a number.
\<close>

record 'g rng =
  rngRead :: "nat \<Rightarrow> 'g \<Rightarrow> 8 word list \<times> 'g"
  rngUint64 :: "'g \<Rightarrow> u64 \<times> 'g"

text \<open>\<open>Hash.String()\<close>: the bytes in lower-case hexadecimal, after \<open>0x\<close>.\<close>

definition hex_digit :: "nat \<Rightarrow> char" where
  "hex_digit d = ''0123456789abcdef'' ! d"

fun hex_bytes :: "8 word list \<Rightarrow> string" where
  "hex_bytes [] = []"
| "hex_bytes (b # bs) = hex_digit (unat b div 16) # hex_digit (unat b mod 16) # hex_bytes bs"

definition hash_string :: "8 word list \<Rightarrow> string" where
  "hash_string bs = ''0x'' @ hex_bytes bs"

definition RandomHash :: "'g rng \<Rightarrow> 'g \<Rightarrow> 8 word list \<times> 'g" where
  "RandomHash R g = rngRead R 32 g"

definition with_trimmed :: "l2block \<Rightarrow> l2block \<times> l2block" where
  "with_trimmed out = (out, out\<lparr>BlockHash := trim_prefix (BlockHash out) ''0x''\<rparr>)"

definition RandomL2Block :: "'g rng \<Rightarrow> 'g \<Rightarrow> (l2block \<times> l2block) \<times> 'g" where
  "RandomL2Block R g = (case RandomHash R g of (hash, g1) \<Rightarrow> case rngUint64 R g1 of (height, g2) \<Rightarrow>
     case rngUint64 R g2 of (timestamp, g3) \<Rightarrow>
       (with_trimmed \<lparr>BlockHash = hash_string hash, BlockTimestamp = timestamp, BlockHeight = height\<rparr>, g3))"

definition GenL2Block :: "'g rng \<Rightarrow> l2block \<Rightarrow> u64 \<Rightarrow> u64 \<Rightarrow> 'g \<Rightarrow> (l2block \<times> l2block) \<times> 'g" where
  "GenL2Block R initBlock l2BlockTime offset g = (case RandomHash R g of (hash, g1) \<Rightarrow>
     (with_trimmed \<lparr>BlockHash = hash_string hash, BlockTimestamp = BlockTimestamp initBlock + offset * l2BlockTime,
        BlockHeight = BlockHeight initBlock + offset\<rparr>, g1))"

text \<open>No string of hexadecimal digits begins with \<open>0x\<close>.\<close>

lemma hex_digit_not_x: "d < 16 \<Longrightarrow> hex_digit d \<noteq> CHR ''x''"
  by (auto simp: hex_digit_def less_Suc_eq numeral_eq_Suc)

lemma hex_bytes_no_prefix: "take 2 (hex_bytes bs) \<noteq> ''0x''"
proof (cases bs)
  case (Cons b bs')
  have "hex_digit (unat b mod 16) \<noteq> CHR ''x''" by (rule hex_digit_not_x) simp
  with Cons show ?thesis by (simp add: numeral_2_eq_2)
qed simp

lemma trim_hash_string [simp]: "trim_prefix (hash_string bs) ''0x'' = hex_bytes bs"
  unfolding hash_string_def by (rule trim_prefix_append)

lemma trim_hex_bytes [simp]: "trim_prefix (hex_bytes bs) ''0x'' = hex_bytes bs"
  using hex_bytes_no_prefix [of bs] by (simp add: trim_prefix_def numeral_2_eq_2)

text \<open>Both copies are the same block to the provider.\<close>

definition same_to_provider :: "l2block \<times> l2block \<Rightarrow> bool" where
  "same_to_provider bt = (BlockHash (fst bt) = ''0x'' @ BlockHash (snd bt) \<and> trim_hash (fst bt) = snd bt \<and>
     trim_hash (snd bt) = snd bt)"

lemma same_with_trimmed: "BlockHash b = hash_string bs \<Longrightarrow> same_to_provider (with_trimmed b)"
  by (auto simp: same_to_provider_def with_trimmed_def trim_hash_def) (simp add: hash_string_def)

lemma same_to_provider_answers:
  "same_to_provider bt \<Longrightarrow>
   QueryIsBlockBabylonFinalizedFromBabylon C (Some (fst bt)) = QueryIsBlockBabylonFinalizedFromBabylon C (Some (snd bt))"
  by (simp add: same_to_provider_def QueryIsBlockBabylonFinalizedFromBabylon_def)

text \<open>
  The two copies of a generated block differ in the \<open>0x\<close> of the hash alone, and the provider gives
  both the same decision, by the same calls, from every state: the copy is what it sends to Babylon. Along a chain
  the heights and times add up in 64 bits.
\<close>

theorem test_blocks_match_provider:
  "let bt = fst (GenL2Block R initBlock l2BlockTime offset g); rt = fst (RandomL2Block R g') in
     same_to_provider bt \<and> same_to_provider rt \<and>
     QueryIsBlockBabylonFinalizedFromBabylon C (Some (fst bt)) = QueryIsBlockBabylonFinalizedFromBabylon C (Some (snd bt)) \<and>
     unat (BlockHeight (snd bt)) = (unat (BlockHeight initBlock) + unat offset) mod 2 ^ 64"
proof -
  have bt: "same_to_provider (fst (GenL2Block R initBlock l2BlockTime offset g))"
    and rt: "same_to_provider (fst (RandomL2Block R g'))"
    by (auto simp: GenL2Block_def RandomL2Block_def intro!: same_with_trimmed split: prod.splits)
  have "BlockHeight (snd (fst (GenL2Block R initBlock l2BlockTime offset g))) = BlockHeight initBlock + offset"
    by (simp add: GenL2Block_def with_trimmed_def split: prod.splits)
  with bt rt show ?thesis by (simp add: same_to_provider_answers unat_word_ariths)
qed

end
