(* ===== verification/Spec2Isabelle.thy ===== *)
theory Spec2Isabelle
  imports OperatorRun RpcProvenance HeadFloor SearchWraps MetricsServer HandlerConcurrency CommandLine Controller EotsClient Loggers TestBlocks
begin

text \<open>
  A model of the finality gadget of blitz (src/finality-gadget, in Go) and the theorems that make it
  correct.

  The program. The finality gadget tells the users of a rollup which of its blocks are final. Finality
  providers vote for blocks on Babylon; a block is final when two thirds of the power behind the rollup has
  voted for it. \<open>FinalizedStateProvider\<close> (rpc/provider) asks the Bitcoin node, Babylon, the contract that
  collects votes and the rollup itself, caches their answers, decides single blocks, and searches for the
  highest final one. \<open>JsonRpcServer\<close> (rpc/rpc.go) serves \<open>eth_getBlockByNumber\<close> with that height for the
  tag \<open>finalized\<close>. The operator (operator/fp) runs a finality provider daemon beside the RPC server,
  commits randomness and signatures through \<open>OrbitConsumerController\<close>, and records its own balance;
  \<open>L2BlockHandler\<close> (operator/block_handler.go) hands the rollup's blocks to processors; the \<open>fps\<close>
  commands bring the local store of finality providers in line with the chain. Configuration comes from
  a file and the environment (core, client, metrics, operator/configs, signer/configs).

  The theories, each a component, with the functions it models.
  \<^item> GoBase: integers, errors (sum type, with wrapping and \<open>errors.Is\<close>), maps, decimal printing.
  \<^item> Resumption: goroutines as sequences of atomic sections (one critical section or one client call each),
    run alone or interleaved by any scheduler, and a logic that proves invariants once for both.
  \<^item> BoundedCache, Quorum: the caches and the two-thirds rule of the provider, with their contracts as
    locales interpreted on the code's operations.
  \<^item> Provider, FinalitySearch: \<open>FinalizedStateProvider\<close>: its state, every query, the decision on a
    block, the binary search and the head search.
  \<^item> ProviderInvariants: what holds whatever the clients answer. ProviderCoherence: the cached queries
    refine the uncached specification \<open>ref_final\<close>. SearchCorrect, HeadSearch: the searches against
    the contract \<open>finality_oracle\<close>. ProviderReturns: termination and what caches remember.
    ProviderDemo: a concrete chain. ProviderTheorems: the properties. ProviderProvenance: where cached values and
    answers come from when nothing is assumed of the services. HeadFloor: the recorded height as a floor of every
    head request, also with nothing assumed of blocks, votes, powers and times. SearchWraps: the search above \<open>2 ^ 63\<close>.
  \<^item> Transitions: machines, progress and simulation, as locales. HttpServer: connections of \<open>net/http\<close>
    as resumptions, closing and draining, with the contract \<open>http_host\<close> of a program that runs one.
  \<^item> Rpc: \<open>JsonRpcHandler\<close>. RequestLogger: \<open>loggerHandler\<close> and the numbers it gives. RpcServer: the life
    of \<open>JsonRpcServer\<close> (\<open>StartServer\<close>, \<open>Wait\<close>) as a step relation over that HTTP server, with the contract
    \<open>rpc_replies\<close> between the server and what its handler guarantees. The initialisation, the opening of the endpoint,
    the joining of the wait group and the return are steps of their own. RpcProvenance: its interpretation for
    arbitrary services.
  \<^item> BlockHandler: \<open>L2BlockHandler\<close>, its loop and the events of its goroutine. RelyGuarantee: goroutines that
    rely on what the others leave alone. HandlerConcurrency: the block handler in atomic sections (each
    client call, the delivery of a block, the recording of its height), with \<open>AddProcesser\<close> called by others in between.
  \<^item> EnvConfig: the configurations and their \<open>WithEnv\<close>, with the contract \<open>env_overlay\<close>.
    NetAddr: the metrics server's address. ServeMux: the standard library's routing of a request by its path, with
    the cleaning of paths, for patterns like the one of the code. MetricsServer: metrics/server.go, its goroutine and \<open>Stop\<close> in
    any interleaving.
  \<^item> Controller: \<open>OrbitConsumerController\<close> and the gauge. FpApp: \<open>FinalityProviderApp\<close> as a
    machine of phases; \<open>Start\<close> is three sections, the daemon, the RPC goroutine and the instance. OperatorRun: the application composed with the RPC server it spawns, and the simulations
    by which each of the two keeps to its own machine. FpRestore: \<open>fpsCmdProvider\<close>, over a store
    whose last voted heights only rise.
  \<^item> EotsClient: \<open>EOTSManagerClient\<close> as a layer over the manager it holds. Loggers: \<open>Logger\<close> and
    \<open>ZapLogger\<close> over zap.
  \<^item> Startup: reading configuration, building loggers, \<open>NewL2EthClient\<close>, the constructors, and the
    commands \<open>rpcService\<close> and \<open>finalityProvider\<close>.
  \<^item> FpsCommands: the commands \<open>fps restore\<close> and \<open>fps show\<close> from configuration to store. Signer: the signer's
    service and command. CommandLine: flags, the tables of commands, and the three \<open>main\<close> functions.
  \<^item> TestBlocks: the random blocks of testutil, related to what the provider asks Babylon about.

  How state and calls correspond. Structs are records with the source's field names; what a method does
  to its receiver is the new record it returns. A call outside the repository is a field of a record of
  parameters that takes a world, of any type, to an answer and a new world; where a property relies on such
  a call, what it relies on is a named hypothesis (\<open>steady\<close>, \<open>services\<close>, \<open>rpc_services\<close>, \<open>on_chain\<close>,
  \<open>silent\<close>, \<open>store_ok\<close>, \<open>setup_keeps\<close>, \<open>cli_dispatches\<close>, \<open>zap_documented\<close>, \<open>build_documented\<close>), and a witness instantiates it. A mutex-protected section is one atomic section;
  panics and \<open>log.Fatal\<close> are values of type outcome. Integers are 64-bit and 32-bit words, so sums,
  products and the midpoint of the search wrap as they do in Go. Times are integers of nanoseconds.

  What is shown. For the provider, with nothing assumed of the services but heads below \<open>2 ^ 63\<close>: no height is
  served as finalized that is not at most one that was decided final on votes and powers that were given (end to
  end, through the RPC server), and no head request returns less than the height recorded when it began. With services that answer steadily: coherence of every cache and agreement of every query with the uncached
  decision under any interleaving; exactness of the quorum rule and its intersection property, with the
  bound under which it holds and what happens beyond it; soundness and maximality of the head search,
  concurrent and alone; its termination; bounds of caches, monotonicity of the finalized height; what
  caching costs. For the RPC handler: every answer is the right one, under any interleaving. For the
  block handler: delivery in order and exactly once, and what a failed tick leaves. For configuration:
  which variable sets which field, and the round trip from a configuration to an environment and back; addresses
  split back, or not. For the servers: what they answer, what is left when they have stopped, and when \<open>Wait\<close> misses
  an open server. For the operator: life cycles, restoring a provider, what its gauge shows, and errors of the
  constructors.

  Bounds and fuel. The binary search takes fuel, since it need not return when its midpoint wraps; 64 units
  are enough for heights below \<open>2 ^ 63\<close>, since each call halves an interval shorter than \<open>2 ^ 63\<close>, and the
  theorem of termination proves it. The loop of the block handler and the IPv6 parser terminate by a
  measure, without fuel.

  What is not modelled. The lines that components log, apart from the loggers themselves, the request logger and
  the EOTS client; several calls in one JSON-RPC batch; the interfaces of sdk/client, which are declarations; time
  that passes, so a ticker may tick at any moment; protobuf, databases, transports, the CLI library, zap,
  Prometheus and the Babylon libraries, which are parameters; the arithmetic of floating point. Go leaves the
  order of ranging over a map open; the model fixes one and the sums are proved independent of it.
\<close>

end
